(* ===== verification/Prelude.thy ===== *)
theory Prelude
  imports
    Main
    "HOL-Library.AList"
    "HOL-Library.Char_ord"
    "HOL-Library.List_Lexorder"
begin

text \<open>
  Shared notions of the development: the theorem collections the component proofs are
  driven by, the string operations of Python the gateway uses (a \<open>str\<close> is represented by
  the bytes of its UTF-8 encoding, one \<open>char\<close> per byte), decimal rendering and parsing of
  integers, and the sum type \<open>'e + 'a\<close> used as a result with an error on the left.
\<close>

named_theorems act_simps \<open>equations of the request monad\<close>
named_theorems confined_intros \<open>introduction rules for the commands a computation may send\<close>
named_theorems answers_intros \<open>introduction rules for the answers of a computation\<close>
named_theorems key_simps \<open>facts on the shape of Redis keys\<close>

section \<open>Results with errors\<close>

definition ebind :: "'e + 'a \<Rightarrow> ('a \<Rightarrow> 'e + 'b) \<Rightarrow> 'e + 'b" where
  "ebind m f = (case m of Inl e \<Rightarrow> Inl e | Inr a \<Rightarrow> f a)"

fun emap :: "('a \<Rightarrow> 'e + 'b) \<Rightarrow> 'a list \<Rightarrow> 'e + 'b list" where
  "emap f [] = Inr []"
| "emap f (x # xs) = ebind (f x) (\<lambda>y. ebind (emap f xs) (\<lambda>ys. Inr (y # ys)))"

fun eiter :: "('a \<Rightarrow> 'e + unit) \<Rightarrow> 'a list \<Rightarrow> 'e + unit" where
  "eiter f [] = Inr ()"
| "eiter f (x # xs) = ebind (f x) (\<lambda>_. eiter f xs)"

lemma ebind_simps [simp]:
  "ebind (Inl e) f = Inl e"
  "ebind (Inr a) f = f a"
  by (simp_all add: ebind_def)

lemma ebind_eq_Inr: "ebind m f = Inr b \<longleftrightarrow> (\<exists>a. m = Inr a \<and> f a = Inr b)"
  by (cases m) simp_all

lemma ebind_eq_Inl: "ebind m f = Inl e \<longleftrightarrow> m = Inl e \<or> (\<exists>a. m = Inr a \<and> f a = Inl e)"
  by (cases m) auto

lemma emap_Cons_Inr:
  "emap f (x # xs) = Inr ys \<longleftrightarrow> (\<exists>y zs. f x = Inr y \<and> emap f xs = Inr zs \<and> ys = y # zs)"
  by (cases "f x"; cases "emap f xs") auto

lemma emap_Inr:
  "emap f xs = Inr ys \<longleftrightarrow> list_all2 (\<lambda>x y. f x = Inr y) xs ys"
proof (induction xs arbitrary: ys)
  case Nil
  show ?case by (cases ys) simp_all
next
  case (Cons x xs)
  show ?case
    unfolding emap_Cons_Inr Cons.IH list_all2_Cons1 by blast
qed

lemma emap_length: "emap f xs = Inr ys \<Longrightarrow> length ys = length xs"
  by (simp add: emap_Inr list_all2_lengthD)

lemma emap_Inr_mem: "emap f xs = Inr ys \<Longrightarrow> y \<in> set ys \<Longrightarrow> \<exists>x \<in> set xs. f x = Inr y"
  by (induction xs arbitrary: ys) (auto simp: emap_Cons_Inr simp del: emap.simps(2))

lemma emap_Inl_mem: "emap f xs = Inl e \<Longrightarrow> \<exists>x \<in> set xs. f x = Inl e"
  by (induction xs) (auto simp: ebind_eq_Inl)

lemma eiter_Inr: "eiter f xs = Inr () \<longleftrightarrow> (\<forall>x \<in> set xs. f x = Inr ())"
  by (induction xs) (auto simp: ebind_eq_Inr)

lemma eiter_cases: "eiter f xs = Inr () \<or> (\<exists>x \<in> set xs. \<exists>e. f x = Inl e \<and> eiter f xs = Inl e)"
proof (induction xs)
  case Nil
  then show ?case by simp
next
  case (Cons x xs)
  then show ?case by (cases "f x") auto
qed

lemma eiter_Inl_mem: "eiter f xs = Inl e \<Longrightarrow> \<exists>x \<in> set xs. f x = Inl e"
  using eiter_cases [of f xs] by auto

section \<open>Characters and strings\<close>

definition code :: "char \<Rightarrow> nat" where
  "code c = of_char c"

definition is_digit :: "char \<Rightarrow> bool" where
  "is_digit c \<longleftrightarrow> 48 \<le> code c \<and> code c \<le> 57"

definition is_upper :: "char \<Rightarrow> bool" where
  "is_upper c \<longleftrightarrow> 65 \<le> code c \<and> code c \<le> 90"

definition is_lower :: "char \<Rightarrow> bool" where
  "is_lower c \<longleftrightarrow> 97 \<le> code c \<and> code c \<le> 122"

definition is_alnum :: "char \<Rightarrow> bool" where
  "is_alnum c \<longleftrightarrow> is_upper c \<or> is_lower c \<or> is_digit c"

definition newline :: char where
  "newline = CHR 0x0A"

fun starts_with :: "string \<Rightarrow> string \<Rightarrow> bool" where
  "starts_with [] s = True"
| "starts_with (p # ps) [] = False"
| "starts_with (p # ps) (c # cs) = (p = c \<and> starts_with ps cs)"

text \<open>Python's \<open>needle in haystack\<close> on strings.\<close>

fun contains :: "string \<Rightarrow> string \<Rightarrow> bool" where
  "contains p [] = (p = [])"
| "contains p (c # cs) = (starts_with p (c # cs) \<or> contains p cs)"

text \<open>\<open>s.split(sep, 1)\<close> for a single separator character: the part before the first
  occurrence and the part after it, nothing when there is none.\<close>

definition cut :: "char \<Rightarrow> string \<Rightarrow> (string \<times> string) option" where
  "cut c s = (case dropWhile (\<lambda>x. x \<noteq> c) s of [] \<Rightarrow> None
     | _ # rest \<Rightarrow> Some (takeWhile (\<lambda>x. x \<noteq> c) s, rest))"

lemma starts_with_iff: "starts_with p s \<longleftrightarrow> (\<exists>t. s = p @ t)"
  by (induction p s rule: starts_with.induct) auto

lemma starts_with_append [simp]: "starts_with p (p @ t)"
  by (auto simp: starts_with_iff)

lemma contains_iff: "contains p s \<longleftrightarrow> (\<exists>u t. s = u @ p @ t)"
proof (induction p s rule: contains.induct)
  case (1 p)
  then show ?case by auto
next
  case (2 p c cs)
  show ?case
  proof
    assume "contains p (c # cs)"
    then consider "starts_with p (c # cs)" | "contains p cs" by auto
    then show "\<exists>u t. c # cs = u @ p @ t"
    proof cases
      case 1
      then show ?thesis by (metis append_Nil starts_with_iff)
    next
      case 2
      then show ?thesis using "2.IH" by (metis append_Cons)
    qed
  next
    assume "\<exists>u t. c # cs = u @ p @ t"
    then obtain u t where eq: "c # cs = u @ p @ t" by blast
    show "contains p (c # cs)"
    proof (cases u)
      case Nil
      with eq have "starts_with p (c # cs)" by (simp add: starts_with_iff)
      then show ?thesis by simp
    next
      case (Cons a u')
      with eq "2.IH" show ?thesis by auto
    qed
  qed
qed

lemma cut_append: "c \<notin> set a \<Longrightarrow> cut c (a @ c # b) = Some (a, b)"
proof -
  assume a: "c \<notin> set a"
  have "takeWhile (\<lambda>x. x \<noteq> c) (a @ c # b) = a" and "dropWhile (\<lambda>x. x \<noteq> c) (a @ c # b) = c # b"
    using a by (induction a) auto
  then show ?thesis by (simp add: cut_def)
qed

lemma cut_Nil [simp]: "cut c [] = None"
  by (simp add: cut_def)

lemma cut_Cons:
  "cut c (x # xs) = (if x = c then Some ([], xs) else map_option (\<lambda>(a, b). (x # a, b)) (cut c xs))"
  by (cases "dropWhile (\<lambda>x. x \<noteq> c) xs") (simp_all add: cut_def del: dropWhile_eq_Nil_conv)

lemma cut_Some: "cut c s = Some (a, b) \<longleftrightarrow> s = a @ c # b \<and> c \<notin> set a"
proof
  assume h: "cut c s = Some (a, b)"
  then obtain x where d: "dropWhile (\<lambda>x. x \<noteq> c) s = x # b"
    and a: "a = takeWhile (\<lambda>x. x \<noteq> c) s"
    by (auto simp: cut_def split: list.splits)
  from d have "x = c" by (metis (full_types) dropWhile_eq_Cons_conv)
  with d a show "s = a @ c # b \<and> c \<notin> set a"
    by (metis (mono_tags, lifting) set_takeWhileD takeWhile_dropWhile_id)
next
  assume "s = a @ c # b \<and> c \<notin> set a"
  then show "cut c s = Some (a, b)" by (simp add: cut_append)
qed

lemma cut_None: "cut c s = None \<longleftrightarrow> c \<notin> set s"
  by (auto simp: cut_def dropWhile_eq_Nil_conv split: list.splits)
     (metis (full_types) in_set_conv_decomp dropWhile_eq_Cons_conv)

text \<open>An occurrence of a word does not span a character the word does not have.\<close>

lemma append_eq_sep:
  assumes "c \<notin> set p" and "u @ p @ t = a @ c # b"
  shows "(\<exists>t'. a = u @ p @ t') \<or> (\<exists>u'. b = u' @ p @ t)"
proof -
  from assms(2) consider (left) v where "a = u @ v" "p @ t = v @ c # b"
    | (right) v where "u = a @ v" "v @ p @ t = c # b"
    by (auto simp: append_eq_append_conv2)
  then show ?thesis
  proof cases
    case left
    from left(2) consider w where "v = p @ w" | w where "p = v @ w" "w @ t = c # b"
      by (auto simp: append_eq_append_conv2)
    then show ?thesis
    proof cases
      case 1
      with left show ?thesis by simp
    next
      case 2
      with assms(1) have "w = []" by (cases w) auto
      with 2 left show ?thesis by simp
    qed
  next
    case right
    then show ?thesis
      using assms(1) by (cases v; cases p) auto
  qed
qed

lemma contains_sep:
  assumes "c \<notin> set p"
  shows "contains p (a @ c # b) \<longleftrightarrow> contains p a \<or> contains p b"
proof
  assume "contains p (a @ c # b)"
  then obtain u t where "u @ p @ t = a @ c # b" by (auto simp: contains_iff)
  from append_eq_sep [OF assms this] show "contains p a \<or> contains p b"
    by (auto simp: contains_iff)
next
  assume "contains p a \<or> contains p b"
  then show "contains p (a @ c # b)"
    unfolding contains_iff by (metis append.assoc append_Cons)
qed

section \<open>Runs of an event system\<close>

text \<open>A step is a partial function of the event and the state; a run takes the events of a list in turn.\<close>

fun run_events :: "('e \<Rightarrow> 's \<Rightarrow> 's option) \<Rightarrow> 'e list \<Rightarrow> 's \<Rightarrow> 's option" where
  "run_events f [] s = Some s"
| "run_events f (a # as) s = (case f a s of None \<Rightarrow> None | Some s' \<Rightarrow> run_events f as s')"

lemma run_append: "run_events f (as @ bs) s = (case run_events f as s of None \<Rightarrow> None | Some s' \<Rightarrow> run_events f bs s')"
  by (induction as arbitrary: s) (auto split: option.splits)

lemma run_invariant:
  assumes "run_events f as s = Some s'" and "I s" and "\<And>a x x'. I x \<Longrightarrow> f a x = Some x' \<Longrightarrow> I x'"
  shows "I s'"
  using assms(1,2) by (induction as arbitrary: s) (auto split: option.splits intro: assms(3))

text \<open>What a run leaves behind, by induction on its events.\<close>

lemma run_trace:
  assumes "run_events f as s = Some s'" and "I [] s" and "\<And>tr a x x'. I tr x \<Longrightarrow> f a x = Some x' \<Longrightarrow> I (tr @ [a]) x'"
  shows "I as s'"
  using assms(1) by (induction as arbitrary: s' rule: rev_induct) (auto simp: run_append assms(2) split: option.splits intro: assms(3))

end
