(* ===== verification/PyValues.thy ===== *)
theory PyValues
  imports Prelude Complex_Main
begin

text \<open>
  The Python values the gateway passes around: what redis-py returns, what a JSON body holds
  and what a handler answers with. Lists and tuples are both \<open>PList\<close> (the code only unpacks
  and iterates them), a dict is an association list in insertion order with the update of
  \<open>AList.update\<close> (an existing key keeps its place, a new one goes last), a set is a list read
  up to order and multiplicity. Also here: truthiness, comparison with an integer, \<open>str()\<close>
  and \<open>int()\<close>, \<open>sorted()\<close> on strings, and the exceptions a handler can raise.
\<close>

section \<open>Values\<close>

datatype pyfloat = Flt rat | PosInf | NegInf | NaN

datatype pyval =
    PNone
  | PBool bool
  | PInt int
  | PFloat pyfloat
  | PStr string
  | PList "pyval list"
  | PSet "string list"
  | PDict "(string \<times> pyval) list"

fun truthy :: "pyval \<Rightarrow> bool" where
  "truthy PNone = False"
| "truthy (PBool b) = b"
| "truthy (PInt i) = (i \<noteq> 0)"
| "truthy (PFloat x) = (x \<noteq> Flt 0)"
| "truthy (PStr s) = (s \<noteq> [])"
| "truthy (PList xs) = (xs \<noteq> [])"
| "truthy (PSet xs) = (xs \<noteq> [])"
| "truthy (PDict kvs) = (kvs \<noteq> [])"

text \<open>\<open>v == n\<close> for an integer \<open>n\<close>: Python compares numbers across \<open>bool\<close>, \<open>int\<close> and
  \<open>float\<close>, and nothing else equals a number.\<close>

fun eq_int :: "pyval \<Rightarrow> int \<Rightarrow> bool" where
  "eq_int (PInt i) n = (i = n)"
| "eq_int (PBool b) n = ((if b then 1 else 0) = n)"
| "eq_int (PFloat (Flt q)) n = (q = of_int n)"
| "eq_int _ n = False"

text \<open>\<open>math.isfinite\<close>.\<close>

fun isfinite :: "pyfloat \<Rightarrow> bool" where
  "isfinite (Flt q) = True"
| "isfinite _ = False"

text \<open>\<open>sorted(xs)\<close> of a set of strings: code point order is byte order on UTF-8.\<close>

definition sorted_strs :: "string list \<Rightarrow> string list" where
  "sorted_strs xs = sort (remdups xs)"

lemma set_sorted_strs [simp]: "set (sorted_strs xs) = set xs"
  by (simp add: sorted_strs_def)

lemma sorted_sorted_strs [simp]: "sorted (sorted_strs xs)"
  by (simp add: sorted_strs_def)

lemma distinct_sorted_strs [simp]: "distinct (sorted_strs xs)"
  by (simp add: sorted_strs_def)

lemma sorted_strs_cong: "set xs = set ys \<Longrightarrow> sorted_strs xs = sorted_strs ys"
  by (simp add: sorted_strs_def sorted_list_of_set_sort_remdups [symmetric])

text \<open>\<open>{k: v for ...}\<close>: later values win, keys keep the place of their first occurrence.\<close>

definition py_dict :: "(string \<times> 'a) list \<Rightarrow> (string \<times> 'a) list" where
  "py_dict kvs = foldl (\<lambda>d (k, v). AList.update k v d) [] kvs"

lemma py_dict_foldl_map_of:
  "map_of (foldl (\<lambda>d (k, v). AList.update k v d) d kvs) k =
     (case map_of (rev kvs) k of Some v \<Rightarrow> Some v | None \<Rightarrow> map_of d k)"
  by (induction kvs arbitrary: d) (auto simp: update_conv' map_add_def split: option.splits)

lemma map_of_py_dict: "map_of (py_dict kvs) k = map_of (rev kvs) k"
  by (simp add: py_dict_def py_dict_foldl_map_of split: option.splits)

lemma py_dict_snoc: "py_dict (kvs @ [(k, v)]) = AList.update k v (py_dict kvs)"
  by (simp add: py_dict_def)

lemma distinct_py_dict: "distinct (map fst (py_dict kvs))"
  by (induction kvs rule: rev_induct) (auto simp: py_dict_def intro: distinct_update)

lemma py_dict_keys: "fst ` set (py_dict kvs) = fst ` set kvs"
  by (metis dom_map_of_conv_image_fst ext map_of_py_dict set_rev)

section \<open>The characters of a string\<close>

text \<open>
  The characters of a \<open>str\<close>, each with its UTF-8 bytes; \<open>len(s)\<close>, \<open>s[:n]\<close> and the code
  points are read off them.
\<close>

definition utf8_tail :: "char \<Rightarrow> nat" where
  "utf8_tail c = (if code c < 192 then 0 else if code c < 224 then 1 else if code c < 240 then 2 else 3)"

function utf8_chars :: "string \<Rightarrow> string list" where
  "utf8_chars [] = []"
| "utf8_chars (c # cs) = (c # take (utf8_tail c) cs) # utf8_chars (drop (utf8_tail c) cs)"
  by pat_completeness auto
termination by (relation "measure length") auto

definition char_count :: "string \<Rightarrow> nat" where
  "char_count s = length (utf8_chars s)"

definition char_take :: "nat \<Rightarrow> string \<Rightarrow> string" where
  "char_take n s = concat (take n (utf8_chars s))"

lemma concat_utf8_chars [simp]: "concat (utf8_chars s) = s"
  by (induction s rule: utf8_chars.induct) simp_all

definition char_point :: "string \<Rightarrow> nat" where
  "char_point ch = (case ch of
       [] \<Rightarrow> 0
     | c # cs \<Rightarrow> foldl (\<lambda>n d. n * 64 + (code d - 128))
         (if code c < 192 then code c else if code c < 224 then code c - 192
          else if code c < 240 then code c - 224 else code c - 240) cs)"

definition utf8_points :: "string \<Rightarrow> nat list" where
  "utf8_points s = map char_point (utf8_chars s)"

section \<open>Decimal integers\<close>

definition digit_char :: "nat \<Rightarrow> char" where
  "digit_char n = char_of (48 + n)"

fun nat_str :: "nat \<Rightarrow> string" where
  "nat_str n = (if n < 10 then [digit_char n] else nat_str (n div 10) @ [digit_char (n mod 10)])"

declare nat_str.simps [simp del]

definition int_str :: "int \<Rightarrow> string" where
  "int_str i = (if i < 0 then CHR ''-'' # nat_str (nat (- i)) else nat_str (nat i))"

text \<open>\<open>str(v)\<close> where the code applies it to an integer or a string.\<close>

fun py_str :: "pyval \<Rightarrow> string option" where
  "py_str (PInt i) = Some (int_str i)"
| "py_str (PStr s) = Some s"
| "py_str (PBool b) = Some (if b then ''True'' else ''False'')"
| "py_str PNone = Some ''None''"
| "py_str _ = None"

definition digits_val :: "string \<Rightarrow> nat" where
  "digits_val s = foldl (\<lambda>a c. 10 * a + (code c - 48)) 0 s"

text \<open>
  \<open>int(s)\<close> on ASCII text: surrounding white space is dropped, one sign is allowed, and single
  underscores may stand between digits.
\<close>

definition is_space :: "char \<Rightarrow> bool" where
  "is_space c \<longleftrightarrow> code c = 32 \<or> (9 \<le> code c \<and> code c \<le> 13) \<or> (28 \<le> code c \<and> code c \<le> 31)"

definition strip :: "string \<Rightarrow> string" where
  "strip s = rev (dropWhile is_space (rev (dropWhile is_space s)))"

fun digits_us :: "string \<Rightarrow> bool" where
  "digits_us [] = False"
| "digits_us [c] = is_digit c"
| "digits_us (c # d # cs) =
     (is_digit c \<and> (if d = CHR ''_'' then digits_us cs else digits_us (d # cs)))"

definition py_int :: "string \<Rightarrow> int option" where
  "py_int s =
     (let t = strip s;
          neg = (case t of c # _ \<Rightarrow> c = CHR ''-'' | [] \<Rightarrow> False);
          body = (case t of c # cs \<Rightarrow> if c = CHR ''-'' \<or> c = CHR ''+'' then cs else t | [] \<Rightarrow> t)
      in if digits_us body
         then Some ((if neg then -1 else 1) * int (digits_val (filter is_digit body)))
         else None)"

lemma code_digit_char: "n < 10 \<Longrightarrow> code (digit_char n) = 48 + n"
  by (simp add: code_def digit_char_def)

lemma is_digit_digit_char: "n < 10 \<Longrightarrow> is_digit (digit_char n)"
  by (simp add: is_digit_def code_digit_char)

lemma nat_str_digits: "\<forall>c \<in> set (nat_str n). is_digit c"
proof (induction n rule: nat_str.induct)
  case (1 n)
  then show ?case
    by (cases "n < 10") (simp_all add: nat_str.simps [of n] is_digit_digit_char)
qed

lemma nat_str_not_Nil [simp]: "nat_str n \<noteq> []"
  by (simp add: nat_str.simps [of n])

lemma digits_val_append: "digits_val (s @ [c]) = 10 * digits_val s + (code c - 48)"
  by (simp add: digits_val_def)

lemma digits_val_nat_str: "digits_val (nat_str n) = n"
proof (induction n rule: nat_str.induct)
  case (1 n)
  show ?case
  proof (cases "n < 10")
    case True
    then show ?thesis by (simp add: nat_str.simps [of n] digits_val_def code_digit_char)
  next
    case False
    with 1 have "digits_val (nat_str (n div 10)) = n div 10" by simp
    with False show ?thesis
      by (simp add: nat_str.simps [of n] digits_val_append code_digit_char)
  qed
qed

lemma digits_us_digits: "s \<noteq> [] \<Longrightarrow> \<forall>c \<in> set s. is_digit c \<Longrightarrow> digits_us s"
  by (induction s rule: digits_us.induct) (auto simp: is_digit_def code_def)

lemma digit_not_space: "is_digit c \<Longrightarrow> \<not> is_space c"
  by (auto simp: is_digit_def is_space_def)

lemma digit_not_sign: "is_digit c \<Longrightarrow> c \<noteq> CHR ''-'' \<and> c \<noteq> CHR ''+''"
  by (auto simp: is_digit_def code_def)

lemma strip_id:
  assumes "s \<noteq> []" and "\<not> is_space (hd s)" and "\<not> is_space (last s)"
  shows "strip s = s"
proof -
  have front: "dropWhile is_space s = s" using assms(1,2) by (cases s) simp_all
  have "dropWhile is_space (rev s) = rev s"
    using assms(1,3) by (cases s rule: rev_cases) simp_all
  with front show ?thesis by (simp add: strip_def)
qed

lemma nat_str_hd_last: "is_digit (hd (nat_str n)) \<and> is_digit (last (nat_str n))"
  using nat_str_digits [of n] by simp

lemma py_int_nat_str: "py_int (nat_str n) = Some (int n)"
proof -
  obtain c cs where eq: "nat_str n = c # cs" by (cases "nat_str n") simp_all
  have st: "strip (nat_str n) = nat_str n"
    using nat_str_hd_last [of n] by (intro strip_id) (auto dest: digit_not_space)
  have d: "digits_us (nat_str n)" and f: "filter is_digit (nat_str n) = nat_str n"
    using nat_str_digits [of n] by (auto intro: digits_us_digits)
  have "is_digit c" using nat_str_digits [of n] eq by simp
  then have "c \<noteq> CHR ''-''" "c \<noteq> CHR ''+''" by (auto dest: digit_not_sign)
  then show ?thesis
    using d f st digits_val_nat_str [of n] by (simp add: py_int_def eq Let_def)
qed

lemma py_int_neg_str: "py_int (CHR ''-'' # nat_str n) = Some (- int n)"
proof -
  have ms: "\<not> is_space (CHR ''-'')" by (simp add: is_space_def code_def)
  have st: "strip (CHR ''-'' # nat_str n) = CHR ''-'' # nat_str n"
    using nat_str_hd_last [of n] ms by (intro strip_id) (auto dest: digit_not_space)
  have d: "digits_us (nat_str n)" and f: "filter is_digit (nat_str n) = nat_str n"
    using nat_str_digits [of n] by (auto intro: digits_us_digits)
  then show ?thesis
    using st digits_val_nat_str [of n] by (simp add: py_int_def Let_def)
qed

lemma py_int_int_str: "py_int (int_str i) = Some i"
  by (simp add: int_str_def py_int_nat_str py_int_neg_str)

lemma int_str_inject: "int_str i = int_str j \<longleftrightarrow> i = j"
  by (metis option.inject py_int_int_str)

section \<open>Exceptions\<close>

text \<open>
  \<open>HttpExc\<close> is FastAPI's \<open>HTTPException\<close> with its status and the code and message of its
  detail; \<open>RedisExc\<close> an error of redis-py, a \<open>ResponseError\<close> (the server refused the
  command) or any other of its exceptions (connection, timeout); \<open>PyExc\<close> a Python exception
  by the name of its class.
\<close>

datatype rerr = ResponseError string | OtherRedisError string

datatype exc = HttpExc nat string string | RedisExc rerr | PyExc string

end
