(* ===== verification/Config.thy ===== *)
theory Config
  imports PyValues
begin

text \<open>
  \<open>app/config.py\<close>: the settings tree with its defaults, the environment overrides, the loader
  and the start-up validation. A dict of the configuration is an association list (its keys
  are distinct), \<open>os.environ\<close> an association list of names and values (names are ASCII).
  Reading the YAML file and pydantic's conversion of it are the parameter \<open>file\<close> of the
  loader: nothing when the path does not exist, else the parsed settings or the exception.
  A \<open>SystemExit\<close> is \<open>PyExc ''SystemExit''\<close>, its text is not modelled.
\<close>

section \<open>Settings\<close>

record server_config =
  server_host :: string
  server_port :: int
  server_workers :: int
  cors_origins :: "string list"
  server_docs :: bool

record redis_config =
  redis_url :: string
  max_connections :: int
  decode_responses :: bool
  socket_timeout :: int
  retry_on_timeout :: bool

record client_config =
  client_api_key :: string
  client_description :: string
  client_namespaces :: "(string \<times> string list) list"

record defaults_config =
  default_ttl :: int
  max_list_length :: int
  max_stream_length :: int
  max_value_size :: int

record admin_config =
  admin_api_key :: string

record logging_config =
  log_level :: string
  access_log :: bool

record audit_config =
  audit_level :: int
  audit_directory :: string
  max_file_size_mb :: int
  retention_days :: int
  max_total_size_mb :: int
  disk_min_free_pct :: int
  payload_prefix_bytes :: int
  exclude_paths :: "string list"
  per_worker_files :: bool
  correlation :: bool
  correlation_ttl_seconds :: int

record settings =
  server :: server_config
  redis_cfg :: redis_config
  clients :: "(string \<times> client_config) list"
  defaults :: defaults_config
  admin :: admin_config
  logging :: logging_config
  audit :: audit_config

definition default_settings :: settings where
  "default_settings =
     \<lparr>server = \<lparr>server_host = ''0.0.0.0'', server_port = 8080, server_workers = 4,
                cors_origins = [], server_docs = False\<rparr>,
      redis_cfg = \<lparr>redis_url = ''redis://localhost:6379/0'', max_connections = 50,
                decode_responses = True, socket_timeout = 5, retry_on_timeout = True\<rparr>,
      clients = [],
      defaults = \<lparr>default_ttl = 86400, max_list_length = 10000, max_stream_length = 50000,
                max_value_size = 1048576\<rparr>,
      admin = \<lparr>admin_api_key = []\<rparr>,
      logging = \<lparr>log_level = ''INFO'', access_log = True\<rparr>,
      audit = \<lparr>audit_level = 1, audit_directory = ''/app/audit'', max_file_size_mb = 10,
                retention_days = 30, max_total_size_mb = 1024, disk_min_free_pct = 10,
                payload_prefix_bytes = 0,
                exclude_paths = [''/health'', ''/metrics'', ''/api/v1/metrics'', ''/''],
                per_worker_files = False, correlation = False,
                correlation_ttl_seconds = 86400\<rparr>\<rparr>"

section \<open>Environment overrides\<close>

type_synonym environ = "(string \<times> string) list"

text \<open>\<open>if v := os.environ.get(name)\<close>: the value when it is set and not empty.\<close>

definition env_get :: "environ \<Rightarrow> string \<Rightarrow> string option" where
  "env_get env name = (case map_of env name of Some v \<Rightarrow> if v = [] then None else Some v | None \<Rightarrow> None)"

definition client_env_key :: "string \<Rightarrow> string" where
  "client_env_key cid = ''REDGW_CLIENT_'' @ cid @ ''_API_KEY''"

text \<open>\<open>s.split(",")\<close> and \<open>s.lower()\<close> (ASCII).\<close>

fun split_on :: "char \<Rightarrow> string \<Rightarrow> string list" where
  "split_on c [] = [[]]"
| "split_on c (x # xs) =
     (if x = c then [] # split_on c xs
      else (case split_on c xs of y # ys \<Rightarrow> (x # y) # ys | [] \<Rightarrow> [[x]]))"

lemma split_on_sep: "c \<notin> set a \<Longrightarrow> split_on c (a @ c # b) = a # split_on c b"
  by (induction a) auto

lemma split_on_not_Nil [simp]: "split_on c s \<noteq> []"
  by (cases s) (auto split: list.splits)

lemma split_on_free: "c \<notin> set a \<Longrightarrow> split_on c a = [a]"
  by (induction a) auto

definition lower :: "string \<Rightarrow> string" where
  "lower s = map (\<lambda>c. if is_upper c then char_of (code c + 32) else c) s"

definition upper :: "string \<Rightarrow> string" where
  "upper s = map (\<lambda>c. if is_lower c then char_of (code c - 32) else c) s"

definition sys_exit :: exc where
  "sys_exit = PyExc ''SystemExit''"

definition env_int :: "environ \<Rightarrow> string \<Rightarrow> int \<Rightarrow> exc + int" where
  "env_int env name old =
     (case env_get env name of None \<Rightarrow> Inr old
      | Some v \<Rightarrow> (case py_int v of None \<Rightarrow> Inl sys_exit | Some n \<Rightarrow> Inr n))"

definition override_client_keys :: "environ \<Rightarrow> (string \<times> client_config) list \<Rightarrow> (string \<times> client_config) list" where
  "override_client_keys env cs =
     map (\<lambda>(cid, cfg). (cid, case env_get env (client_env_key cid) of
            Some v \<Rightarrow> cfg\<lparr>client_api_key := v\<rparr> | None \<Rightarrow> cfg)) cs"

definition env_audit_level :: "environ \<Rightarrow> int \<Rightarrow> exc + int" where
  "env_audit_level env old =
     (case env_get env ''REDGW_AUDIT_LEVEL'' of None \<Rightarrow> Inr old
      | Some v \<Rightarrow> (case py_int v of None \<Rightarrow> Inl sys_exit
          | Some lv \<Rightarrow> if lv \<notin> set [0, 1, 2] then Inl sys_exit else Inr lv))"

definition apply_env_overrides :: "environ \<Rightarrow> settings \<Rightarrow> exc + settings" where
  "apply_env_overrides env s =
     (let s1 = (case env_get env ''REDGW_REDIS_URL'' of
            Some v \<Rightarrow> s\<lparr>redis_cfg := (redis_cfg s)\<lparr>redis_url := v\<rparr>\<rparr> | None \<Rightarrow> s);
          s2 = (case env_get env ''REDGW_HOST'' of
            Some v \<Rightarrow> s1\<lparr>server := (server s1)\<lparr>server_host := v\<rparr>\<rparr> | None \<Rightarrow> s1)
      in ebind (env_int env ''REDGW_PORT'' (server_port (server s2))) (\<lambda>port.
      let s3 = s2\<lparr>server := (server s2)\<lparr>server_port := port\<rparr>\<rparr>;
          s4 = (case env_get env ''REDGW_LOG_LEVEL'' of
            Some v \<Rightarrow> s3\<lparr>logging := (logging s3)\<lparr>log_level := v\<rparr>\<rparr> | None \<Rightarrow> s3);
          s5 = (case env_get env ''REDGW_CORS_ORIGINS'' of
            Some v \<Rightarrow> s4\<lparr>server := (server s4)\<lparr>cors_origins :=
                filter (\<lambda>o'. o' \<noteq> []) (map strip (split_on (CHR '','') v))\<rparr>\<rparr> | None \<Rightarrow> s4);
          s6 = s5\<lparr>clients := override_client_keys env (clients s5)\<rparr>;
          s7 = (case env_get env ''REDGW_ADMIN_API_KEY'' of
            Some v \<Rightarrow> s6\<lparr>admin := (admin s6)\<lparr>admin_api_key := v\<rparr>\<rparr> | None \<Rightarrow> s6);
          s8 = (case env_get env ''REDGW_DOCS_ENABLED'' of
            Some v \<Rightarrow> s7\<lparr>server := (server s7)\<lparr>server_docs :=
                lower v \<in> set [''1'', ''true'', ''yes'']\<rparr>\<rparr> | None \<Rightarrow> s7)
      in ebind (env_audit_level env (audit_level (audit s8))) (\<lambda>lv.
      let s9 = s8\<lparr>audit := (audit s8)\<lparr>audit_level := lv\<rparr>\<rparr>;
          s10 = (case env_get env ''REDGW_AUDIT_DIRECTORY'' of
            Some v \<Rightarrow> s9\<lparr>audit := (audit s9)\<lparr>audit_directory := v\<rparr>\<rparr> | None \<Rightarrow> s9)
      in ebind (env_int env ''REDGW_AUDIT_MAX_TOTAL_MB'' (max_total_size_mb (audit s10))) (\<lambda>mt.
         ebind (env_int env ''REDGW_AUDIT_RETENTION_DAYS'' (retention_days (audit s10))) (\<lambda>rd.
         Inr (s10\<lparr>audit := (audit s10)\<lparr>max_total_size_mb := mt, retention_days := rd\<rparr>\<rparr>))))))"

definition load_config ::
    "(string \<Rightarrow> (exc + settings) option) \<Rightarrow> environ \<Rightarrow> string option \<Rightarrow> exc + settings" where
  "load_config file env path =
     (let explicit = path \<noteq> None \<or> map_of env ''REDGW_CONFIG'' \<noteq> None;
          p = (case path of Some p \<Rightarrow> p
               | None \<Rightarrow> (case map_of env ''REDGW_CONFIG'' of Some p \<Rightarrow> p | None \<Rightarrow> ''config/config.yaml''))
      in case file p of
           None \<Rightarrow> if explicit then Inl sys_exit else apply_env_overrides env default_settings
         | Some r \<Rightarrow> ebind r (apply_env_overrides env))"

text \<open>\<open>get_settings\<close>: the cached settings of the process, else what \<open>load_config\<close> gives (\<open>loads\<close>).\<close>

definition get_settings_cached :: "exc + settings \<Rightarrow> settings option \<Rightarrow> (exc + settings) \<times> settings option" where
  "get_settings_cached loads cached = (case cached of
       Some s \<Rightarrow> (Inr s, cached)
     | None \<Rightarrow> (loads, case loads of Inr s \<Rightarrow> Some s | Inl x \<Rightarrow> None))"


section \<open>Validation at start-up\<close>

definition em_dash :: string where
  "em_dash = [CHR '' '', CHR 0xE2, CHR 0x80, CHR 0x94, CHR '' '']"

definition quoted :: "string \<Rightarrow> string" where
  "quoted s = CHR 0x27 # s @ [CHR 0x27]"

definition configured_keys :: "settings \<Rightarrow> string list" where
  "configured_keys s =
     map (client_api_key \<circ> snd) (clients s) @
     (if admin_api_key (admin s) \<noteq> [] then [admin_api_key (admin s)] else [])"

text \<open>The loop over \<open>api_keys\<close> with its \<open>seen\<close> and \<open>duplicates\<close>.\<close>

fun find_duplicates :: "string list \<Rightarrow> string list \<Rightarrow> string list \<Rightarrow> string list" where
  "find_duplicates seen dups [] = dups"
| "find_duplicates seen dups (k # ks) =
     (if k \<in> set seen
      then find_duplicates seen (if k \<in> set dups then dups else dups @ [k]) ks
      else find_duplicates (k # seen) dups ks)"

definition looks_placeholder :: "string \<Rightarrow> bool" where
  "looks_placeholder k \<longleftrightarrow> contains ''xxxxxxxx'' k \<or> contains ''CHANGE_ME'' k"

definition is_word :: "char \<Rightarrow> bool" where
  "is_word c \<longleftrightarrow> is_alnum c \<or> c = CHR ''_''"

text \<open>\<open>re.fullmatch(r"REDGW_CLIENT_(\w+)_API_KEY", name).group(1)\<close>.\<close>

definition env_client_id :: "string \<Rightarrow> string option" where
  "env_client_id name =
     (let n = length name; mid = take (n - 13 - 8) (drop 13 name)
      in if 21 < n \<and> name = client_env_key mid \<and> list_all is_word mid then Some mid else None)"

definition validate_config :: "environ \<Rightarrow> settings \<Rightarrow> exc + string list" where
  "validate_config env s =
     (let w1 = (if admin_api_key (admin s) = []
                then [''admin.api_key is empty'' @ em_dash @ ''admin endpoints are unprotected''] else [])
      in if find_duplicates [] [] (configured_keys s) \<noteq> [] then Inl sys_exit else
      (let w3 = (if clients s = []
                then [''No clients defined'' @ em_dash @ ''only admin access will work''] else []);
           w4 = concat (map (\<lambda>(cid, cfg). if looks_placeholder (client_api_key cfg)
                then [''Client '' @ quoted cid @ '' API key looks like a placeholder'' @ em_dash @
                      ''set REDGW_CLIENT_'' @ cid @ ''_API_KEY in .env''] else []) (clients s));
           w4a = (if admin_api_key (admin s) \<noteq> [] \<and> looks_placeholder (admin_api_key (admin s))
                then [''Admin API key looks like a placeholder'' @ em_dash @
                      ''set REDGW_ADMIN_API_KEY in .env''] else []);
           w5 = concat (map (\<lambda>(cid, cfg). if env_get env (client_env_key cid) = None
                then [''Environment variable '' @ client_env_key cid @ '' not set'' @ em_dash @
                      ''client '' @ quoted cid @ '' uses config.yaml default key''] else []) (clients s));
           w5a = (if env_get env ''REDGW_ADMIN_API_KEY'' = None
                then [''Environment variable REDGW_ADMIN_API_KEY not set'' @ em_dash @
                      ''admin uses config.yaml default key''] else []);
           w6 = concat (map (\<lambda>(name, _). case env_client_id name of
                  Some cid \<Rightarrow> if cid \<notin> set (map fst (clients s))
                    then [''Environment variable '' @ name @ '' is set but client '' @ quoted cid @
                          '' is not defined in config.yaml''] else []
                | None \<Rightarrow> []) env)
       in Inr (w1 @ w3 @ w4 @ w4a @ w5 @ w5a @ w6)))"

section \<open>Facts on the overrides and on the duplicate check\<close>

lemma find_duplicates_Nil:
  "find_duplicates seen dups ks = [] \<longleftrightarrow> dups = [] \<and> distinct ks \<and> set seen \<inter> set ks = {}"
  by (induction seen dups ks rule: find_duplicates.induct) auto

lemma find_duplicates_set:
  "set dups \<subseteq> set seen \<Longrightarrow>
   set (find_duplicates seen dups ks) =
     set dups \<union> {k \<in> set ks. k \<in> set seen \<or> 1 < count_list ks k}"
proof (induction seen dups ks rule: find_duplicates.induct)
  case (1 seen dups)
  then show ?case by simp
next
  case (2 seen dups k ks)
  show ?case
  proof (cases "k \<in> set seen")
    case True
    then show ?thesis using 2 by auto
  next
    case False
    with 2 have "set (find_duplicates (k # seen) dups ks) =
        set dups \<union> {x \<in> set ks. x \<in> set (k # seen) \<or> 1 < count_list ks x}"
      by (auto simp: subset_insertI2)
    moreover have "0 < count_list ks x \<longleftrightarrow> x \<in> set ks" for x
      by (metis count_list_0_iff neq0_conv)
    ultimately show ?thesis
      using False by auto
  qed
qed

lemma validate_config_ok:
  "(\<exists>ws. validate_config env s = Inr ws) \<longleftrightarrow> distinct (configured_keys s)"
  by (simp add: validate_config_def Let_def find_duplicates_Nil)

lemma override_client_ids [simp]:
  "map fst (override_client_keys env cs) = map fst cs"
  by (simp add: override_client_keys_def case_prod_beta comp_def)

lemma override_client_lookup:
  "map_of (override_client_keys env cs) cid =
     map_option (\<lambda>cfg. case env_get env (client_env_key cid) of
        Some v \<Rightarrow> cfg\<lparr>client_api_key := v\<rparr> | None \<Rightarrow> cfg) (map_of cs cid)"
  by (induction cs) (auto simp: override_client_keys_def split: option.splits)

lemma client_env_key_id [simp]: "list_all is_word cid \<Longrightarrow> cid \<noteq> [] \<Longrightarrow> env_client_id (client_env_key cid) = Some cid"
  by (simp add: env_client_id_def client_env_key_def Let_def)

section \<open>The type of the loaded settings\<close>

lemma env_audit_level_valid: "env_audit_level env old = Inr lv \<Longrightarrow> old \<in> {0, 1, 2} \<Longrightarrow> lv \<in> {0, 1, 2}"
  by (auto simp: env_audit_level_def split: option.splits if_splits)

text \<open>One override after the other: each keeps what is compared below.\<close>

definition keeps :: "settings \<Rightarrow> settings \<Rightarrow> bool" where
  "keeps s x \<longleftrightarrow> map fst (clients x) = map fst (clients s) \<and> defaults x = defaults s \<and> audit x = audit s"

lemma keeps_refl: "keeps s s"
  by (simp add: keeps_def)

lemma keeps_case: "keeps s a \<Longrightarrow> (\<And>v. keeps s (b v)) \<Longrightarrow> keeps s (case x of None \<Rightarrow> a | Some v \<Rightarrow> b v)"
  by (simp split: option.split)

lemma keeps_override:
  "keeps s x \<Longrightarrow> keeps s (x\<lparr>redis_cfg := r\<rparr>)" "keeps s x \<Longrightarrow> keeps s (x\<lparr>server := v\<rparr>)"
  "keeps s x \<Longrightarrow> keeps s (x\<lparr>logging := l\<rparr>)" "keeps s x \<Longrightarrow> keeps s (x\<lparr>admin := a\<rparr>)"
  "keeps s x \<Longrightarrow> keeps s (x\<lparr>clients := override_client_keys env (clients x)\<rparr>)"
  by (simp_all add: keeps_def)

lemma let_keeps: "Let a f = Inr r \<Longrightarrow> keeps s a \<Longrightarrow> (\<And>x. keeps s x \<Longrightarrow> f x = Inr r \<Longrightarrow> Q) \<Longrightarrow> Q"
  by (simp add: Let_def)

lemma ebindE: "ebind m f = Inr r \<Longrightarrow> (\<And>a. m = Inr a \<Longrightarrow> f a = Inr r \<Longrightarrow> Q) \<Longrightarrow> Q"
  by (auto simp: ebind_eq_Inr)

lemmas keeps_intros = keeps_refl keeps_case keeps_override

lemma apply_env_typed:
  assumes "apply_env_overrides env s = Inr s'" and "audit_level (audit s) \<in> {0, 1, 2}"
  shows "audit_level (audit s') \<in> {0, 1, 2}" and "map fst (clients s') = map fst (clients s)"
    and "defaults s' = defaults s"
proof -
  have "\<exists>lv. env_audit_level env (audit_level (audit s)) = Inr lv \<and> audit_level (audit s') = lv \<and>
    map fst (clients s') = map fst (clients s) \<and> defaults s' = defaults s"
    using assms(1) unfolding apply_env_overrides_def
    apply -
    apply ((erule let_keeps [where s = s], (intro keeps_intros; assumption?)) | erule ebindE)+
    apply (auto simp: keeps_def Let_def elim!: ebindE split: option.splits)
    done
  with assms(2) env_audit_level_valid show "audit_level (audit s') \<in> {0, 1, 2}"
    and "map fst (clients s') = map fst (clients s)" and "defaults s' = defaults s" by metis+
qed

text \<open>C31: whatever the environment says, the settings that are loaded stay inside the type of the file: the
  audit level is 0, 1 or 2, the clients are those of the file (or none), and the defaults are the file's.\<close>

theorem loaded_settings_typed:
  assumes "\<forall>p r. file p = Some (Inr r) \<longrightarrow> audit_level (audit r) \<in> {0, 1, 2}" and "load_config file env path = Inr s"
  shows "audit_level (audit s) \<in> {0, 1, 2} \<and>
    (\<exists>r. (r = default_settings \<or> (\<exists>p. file p = Some (Inr r))) \<and>
      map fst (clients s) = map fst (clients r) \<and> defaults s = defaults r)"
proof -
  have d: "audit_level (audit default_settings) \<in> {0, 1, 2}" by (simp add: default_settings_def)
  obtain r where r: "apply_env_overrides env r = Inr s" "r = default_settings \<or> (\<exists>p. file p = Some (Inr r))"
    using assms(2) by (auto simp: load_config_def Let_def ebind_eq_Inr split: option.splits if_splits)
  then have "audit_level (audit r) \<in> {0, 1, 2}" using assms(1) d by blast
  from apply_env_typed [OF r(1) this] r(2) show ?thesis by blast
qed

lemma two_is_int: "py_int ''2'' = Some 2"
  by code_simp

theorem loaded_settings_typed_witness:
  "\<exists>s. load_config (\<lambda>p. Some (Inr default_settings)) [(''REDGW_AUDIT_LEVEL'', ''2'')] None = Inr s \<and>
     audit_level (audit s) \<in> {0, 1, 2}"
proof -
  have f: "\<forall>p r. Some (Inr default_settings) = Some (Inr r) \<longrightarrow> audit_level (audit r) \<in> {0, 1, 2}"
    by (simp add: default_settings_def)
  obtain s where s: "load_config (\<lambda>p. Some (Inr default_settings)) [(''REDGW_AUDIT_LEVEL'', ''2'')] None = Inr s"
    using two_is_int by (simp add: load_config_def Let_def apply_env_overrides_def env_get_def env_int_def env_audit_level_def client_env_key_def default_settings_def)
  from loaded_settings_typed [OF _ s] f s show ?thesis by blast
qed

text \<open>The file is read once: after a first success the settings stay what they are.\<close>

lemma settings_cached:
  assumes "get_settings_cached loads cached = (Inr s, cached')"
  shows "cached' = Some s" and "get_settings_cached other cached' = (Inr s, cached')"
  using assms by (auto simp: get_settings_cached_def split: option.splits)

end
