(* ===== verification/Gateway.thy ===== *)
theory Gateway
  imports Config
begin

text \<open>
  The setting every endpoint runs in. A request handler is a computation that reads the
  environment (the settings and the Redis client), may raise, and changes the world: the
  state of the Redis server and the module state of the application. Redis and redis-py are
  not part of the repository: they are the record \<open>redis\<close> of functions, a parameter of
  everything below, over an arbitrary type \<open>'r\<close> of server states. What other clients do
  between two calls is part of what these functions may do.
\<close>

section \<open>The Redis commands the gateway sends\<close>

datatype direction = DLeft | DRight

text \<open>The Lua scripts of \<open>app/routers/queue.py\<close>, by mode and direction.\<close>

datatype lua_script = SinglePush direction | BatchPush direction

text \<open>Commands on a key of any type.\<close>

datatype key_op =
    Exists
  | Ttl
  | Expire int
  | Persist
  | KeyType
  | ObjectEncoding

text \<open>Strings; \<open>Set\<close> carries the value, \<open>ex\<close> and \<open>nx\<close>.\<close>

datatype str_op =
    Get
  | Set string "int option" bool
  | Setex int string
  | Incrby int
  | Incrbyfloat pyfloat
  | Strlen

text \<open>Hashes.\<close>

datatype hash_op =
    Hgetall
  | Hget string
  | Hset "(string \<times> string) list"
  | Hdel string
  | Hlen

text \<open>Lists.\<close>

datatype list_op =
    Lpush string
  | Rpush string
  | Lpop
  | Rpop
  | Lrange int int
  | Llen
  | Ltrim int int

text \<open>Sets.\<close>

datatype set_op =
    Sadd "string list"
  | Srem string
  | Smembers
  | Sismember string
  | Scard

text \<open>Sorted sets.\<close>

datatype zset_op =
    Zadd "(string \<times> pyfloat) list"
  | Zrange int int
  | Zrevrange int int
  | Zscore string
  | Zrangebyscore pyfloat pyfloat
  | Zrem string
  | Zincrby pyfloat string
  | Zpopmin int
  | Zpopmax int
  | Zcard

text \<open>Streams; \<open>Xreadgroup\<close> carries group, consumer, ID and count.\<close>

datatype stream_op =
    Xadd "(string \<times> string) list" int
  | Xrange string string int
  | XgroupCreate string string bool
  | Xreadgroup string string string int
  | Xack string "string list"
  | XinfoStream
  | XinfoGroups
  | Xlen

text \<open>Commands on several keys, and commands on the server or a channel.\<close>

datatype many_op = Mget | Del | Sinter | Sunion | Sdiff

datatype server_op =
    Publish string string
  | Scan int string int
  | Info string
  | Dbsize

datatype cmd =
    OnKey string key_op
  | OnStr string str_op
  | OnHash string hash_op
  | OnList string list_op
  | OnSet string set_op
  | OnZset string zset_op
  | OnStream string stream_op
  | OnMany many_op "string list"
  | OnServer server_op
  | EVALSHA lua_script "string list" "string list"

text \<open>The commands by their Redis names, the key first.\<close>

abbreviation "EXISTS k \<equiv> OnKey k Exists"
abbreviation "TTL k \<equiv> OnKey k Ttl"
abbreviation "EXPIRE k a \<equiv> OnKey k (Expire a)"
abbreviation "PERSIST k \<equiv> OnKey k Persist"
abbreviation "KEYTYPE k \<equiv> OnKey k KeyType"
abbreviation "OBJECT_ENCODING k \<equiv> OnKey k ObjectEncoding"
abbreviation "GET k \<equiv> OnStr k Get"
abbreviation "SET k a b c \<equiv> OnStr k (Set a b c)"
abbreviation "SETEX k a b \<equiv> OnStr k (Setex a b)"
abbreviation "INCRBY k a \<equiv> OnStr k (Incrby a)"
abbreviation "INCRBYFLOAT k a \<equiv> OnStr k (Incrbyfloat a)"
abbreviation "STRLEN k \<equiv> OnStr k Strlen"
abbreviation "HGETALL k \<equiv> OnHash k Hgetall"
abbreviation "HGET k a \<equiv> OnHash k (Hget a)"
abbreviation "HSET k a \<equiv> OnHash k (Hset a)"
abbreviation "HDEL k a \<equiv> OnHash k (Hdel a)"
abbreviation "HLEN k \<equiv> OnHash k Hlen"
abbreviation "LPUSH k a \<equiv> OnList k (Lpush a)"
abbreviation "RPUSH k a \<equiv> OnList k (Rpush a)"
abbreviation "LPOP k \<equiv> OnList k Lpop"
abbreviation "RPOP k \<equiv> OnList k Rpop"
abbreviation "LRANGE k a b \<equiv> OnList k (Lrange a b)"
abbreviation "LLEN k \<equiv> OnList k Llen"
abbreviation "LTRIM k a b \<equiv> OnList k (Ltrim a b)"
abbreviation "SADD k a \<equiv> OnSet k (Sadd a)"
abbreviation "SREM k a \<equiv> OnSet k (Srem a)"
abbreviation "SMEMBERS k \<equiv> OnSet k Smembers"
abbreviation "SISMEMBER k a \<equiv> OnSet k (Sismember a)"
abbreviation "SCARD k \<equiv> OnSet k Scard"
abbreviation "ZADD k a \<equiv> OnZset k (Zadd a)"
abbreviation "ZRANGE k a b \<equiv> OnZset k (Zrange a b)"
abbreviation "ZREVRANGE k a b \<equiv> OnZset k (Zrevrange a b)"
abbreviation "ZSCORE k a \<equiv> OnZset k (Zscore a)"
abbreviation "ZRANGEBYSCORE k a b \<equiv> OnZset k (Zrangebyscore a b)"
abbreviation "ZREM k a \<equiv> OnZset k (Zrem a)"
abbreviation "ZINCRBY k a b \<equiv> OnZset k (Zincrby a b)"
abbreviation "ZPOPMIN k a \<equiv> OnZset k (Zpopmin a)"
abbreviation "ZPOPMAX k a \<equiv> OnZset k (Zpopmax a)"
abbreviation "ZCARD k \<equiv> OnZset k Zcard"
abbreviation "XADD k a b \<equiv> OnStream k (Xadd a b)"
abbreviation "XRANGE k a b c \<equiv> OnStream k (Xrange a b c)"
abbreviation "XGROUP_CREATE k a b c \<equiv> OnStream k (XgroupCreate a b c)"
abbreviation "XREADGROUP k a b c d \<equiv> OnStream k (Xreadgroup a b c d)"
abbreviation "XACK k a b \<equiv> OnStream k (Xack a b)"
abbreviation "XINFO_STREAM k \<equiv> OnStream k XinfoStream"
abbreviation "XINFO_GROUPS k \<equiv> OnStream k XinfoGroups"
abbreviation "XLEN k \<equiv> OnStream k Xlen"
abbreviation "MGET ks \<equiv> OnMany Mget ks"
abbreviation "DEL ks \<equiv> OnMany Del ks"
abbreviation "SINTER ks \<equiv> OnMany Sinter ks"
abbreviation "SUNION ks \<equiv> OnMany Sunion ks"
abbreviation "SDIFF ks \<equiv> OnMany Sdiff ks"
abbreviation "PUBLISH ch msg \<equiv> OnServer (Publish ch msg)"
abbreviation "SCAN cur pat n \<equiv> OnServer (Scan cur pat n)"
abbreviation "INFO sec \<equiv> OnServer (Info sec)"
abbreviation "DBSIZE \<equiv> OnServer Dbsize"

text \<open>The keys a command names. A channel is not a key.\<close>

primrec cmd_keys :: "cmd \<Rightarrow> string list" where
  "cmd_keys (OnKey k op) = [k]"
| "cmd_keys (OnStr k op) = [k]"
| "cmd_keys (OnHash k op) = [k]"
| "cmd_keys (OnList k op) = [k]"
| "cmd_keys (OnSet k op) = [k]"
| "cmd_keys (OnZset k op) = [k]"
| "cmd_keys (OnStream k op) = [k]"
| "cmd_keys (OnMany op ks) = ks"
| "cmd_keys (OnServer op) = []"
| "cmd_keys (EVALSHA scr ks args) = ks"

text \<open>Commands that never change the stored data.\<close>

primrec key_read :: "key_op \<Rightarrow> bool" where
  "key_read Exists = True"
| "key_read Ttl = True"
| "key_read (Expire a) = False"
| "key_read Persist = False"
| "key_read KeyType = True"
| "key_read ObjectEncoding = True"

primrec str_read :: "str_op \<Rightarrow> bool" where
  "str_read Get = True"
| "str_read (Set a b c) = False"
| "str_read (Setex a b) = False"
| "str_read (Incrby a) = False"
| "str_read (Incrbyfloat a) = False"
| "str_read Strlen = True"

primrec hash_read :: "hash_op \<Rightarrow> bool" where
  "hash_read Hgetall = True"
| "hash_read (Hget a) = True"
| "hash_read (Hset a) = False"
| "hash_read (Hdel a) = False"
| "hash_read Hlen = True"

primrec list_read :: "list_op \<Rightarrow> bool" where
  "list_read (Lpush a) = False"
| "list_read (Rpush a) = False"
| "list_read Lpop = False"
| "list_read Rpop = False"
| "list_read (Lrange a b) = True"
| "list_read Llen = True"
| "list_read (Ltrim a b) = False"

primrec set_read :: "set_op \<Rightarrow> bool" where
  "set_read (Sadd a) = False"
| "set_read (Srem a) = False"
| "set_read Smembers = True"
| "set_read (Sismember a) = True"
| "set_read Scard = True"

primrec zset_read :: "zset_op \<Rightarrow> bool" where
  "zset_read (Zadd a) = False"
| "zset_read (Zrange a b) = True"
| "zset_read (Zrevrange a b) = True"
| "zset_read (Zscore a) = True"
| "zset_read (Zrangebyscore a b) = True"
| "zset_read (Zrem a) = False"
| "zset_read (Zincrby a b) = False"
| "zset_read (Zpopmin a) = False"
| "zset_read (Zpopmax a) = False"
| "zset_read Zcard = True"

primrec stream_read :: "stream_op \<Rightarrow> bool" where
  "stream_read (Xadd a b) = False"
| "stream_read (Xrange a b c) = True"
| "stream_read (XgroupCreate a b c) = False"
| "stream_read (Xreadgroup a b c d) = False"
| "stream_read (Xack a b) = False"
| "stream_read XinfoStream = True"
| "stream_read XinfoGroups = True"
| "stream_read Xlen = True"

primrec is_read :: "cmd \<Rightarrow> bool" where
  "is_read (OnKey k op) = key_read op"
| "is_read (OnStr k op) = str_read op"
| "is_read (OnHash k op) = hash_read op"
| "is_read (OnList k op) = list_read op"
| "is_read (OnSet k op) = set_read op"
| "is_read (OnZset k op) = zset_read op"
| "is_read (OnStream k op) = stream_read op"
| "is_read (OnMany op ks) = (op \<noteq> Del)"
| "is_read (OnServer op) = True"
| "is_read (EVALSHA scr ks args) = False"

section \<open>The Redis client as a parameter\<close>

type_synonym 'r reply = "(rerr + pyval) \<times> 'r"

text \<open>
  \<open>call\<close>: one awaited command. \<open>pipeline\<close>: \<open>execute()\<close> of a pipeline, transactional or
  not, with the replies in order or the error it raises. \<open>lua_call\<close>: \<open>redis.call\<close> inside a
  script; \<open>evalsha\<close>: running a registered script, given what its body does to the server.
  \<open>scan_iter\<close>: the keys a \<open>SCAN\<close> iteration yields for a pattern and the error that ends it.
\<close>

record 'r redis =
  call :: "cmd \<Rightarrow> 'r \<Rightarrow> 'r reply"
  pipeline :: "bool \<Rightarrow> cmd list \<Rightarrow> 'r \<Rightarrow> (rerr + pyval list) \<times> 'r"
  lua_call :: "cmd \<Rightarrow> 'r \<Rightarrow> 'r reply"
  evalsha :: "('r \<Rightarrow> 'r reply) \<Rightarrow> 'r \<Rightarrow> 'r reply"
  scan_iter :: "string \<Rightarrow> int \<Rightarrow> 'r \<Rightarrow> (string list \<times> rerr option) \<times> 'r"

section \<open>Environment, world and computations\<close>

text \<open>\<open>ClientInfo\<close> of \<open>app/schemas/common.py\<close>: an authenticated client.\<close>

record client_info =
  client_id :: string
  description :: string
  namespaces :: "(string \<times> string list) list"

record 'r env =
  redis :: "'r redis"
  conf :: settings
  environ :: environ
  use_rust :: bool

text \<open>
  \<open>use_rust\<close> says whether the native module was loaded (\<open>_USE_RUST\<close>).
  \<open>rstate\<close> is the server; \<open>sent\<close> the commands sent to it so far, in order; \<open>connected\<close>
  whether the connection manager holds a client; \<open>key_map\<close> the cache of
  \<open>app/auth/api_key.py\<close>; \<open>pending\<close> the audit context variable; \<open>bg_metrics\<close> the labels
  of the metric tasks scheduled in the background; \<open>scope_client\<close> the entry
  \<open>redgw_client_id\<close> of the request's ASGI scope.
\<close>

record 'r world =
  rstate :: 'r
  sent :: "cmd list"
  connected :: bool
  key_map :: "(string \<times> client_info) list option"
  pending :: "(string \<times> string option) option"
  bg_metrics :: "string list"
  scope_client :: "string option"

type_synonym ('r, 'a) act = "'r env \<Rightarrow> 'r world \<Rightarrow> (exc + 'a) \<times> 'r world"

definition ret :: "'a \<Rightarrow> ('r, 'a) act" where
  "ret a = (\<lambda>e w. (Inr a, w))"

definition raise :: "exc \<Rightarrow> ('r, 'a) act" where
  "raise x = (\<lambda>e w. (Inl x, w))"

definition bnd :: "('r, 'a) act \<Rightarrow> ('a \<Rightarrow> ('r, 'b) act) \<Rightarrow> ('r, 'b) act" where
  "bnd m f = (\<lambda>e w. case m e w of (Inl x, w') \<Rightarrow> (Inl x, w') | (Inr a, w') \<Rightarrow> f a e w')"

definition lift :: "exc + 'a \<Rightarrow> ('r, 'a) act" where
  "lift r = (\<lambda>e w. (r, w))"

definition get_settings :: "('r, settings) act" where
  "get_settings = (\<lambda>e w. (Inr (conf e), w))"

text \<open>\<open>await r.<command>(...)\<close>, \<open>await pipe.execute()\<close>, \<open>await script(...)\<close>.\<close>

definition send :: "cmd \<Rightarrow> ('r, pyval) act" where
  "send c = (\<lambda>e w. case call (redis e) c (rstate w) of (r, s) \<Rightarrow>
     (case r of Inl x \<Rightarrow> Inl (RedisExc x) | Inr v \<Rightarrow> Inr v,
      w\<lparr>rstate := s, sent := sent w @ [c]\<rparr>))"

definition pipe :: "bool \<Rightarrow> cmd list \<Rightarrow> ('r, pyval list) act" where
  "pipe tx cs = (\<lambda>e w. case pipeline (redis e) tx cs (rstate w) of (r, s) \<Rightarrow>
     (case r of Inl x \<Rightarrow> Inl (RedisExc x) | Inr vs \<Rightarrow> Inr vs,
      w\<lparr>rstate := s, sent := sent w @ cs\<rparr>))"

definition run_script :: "cmd \<Rightarrow> ('r redis \<Rightarrow> 'r \<Rightarrow> 'r reply) \<Rightarrow> ('r, pyval) act" where
  "run_script c body = (\<lambda>e w. case evalsha (redis e) (body (redis e)) (rstate w) of (r, s) \<Rightarrow>
     (case r of Inl x \<Rightarrow> Inl (RedisExc x) | Inr v \<Rightarrow> Inr v,
      w\<lparr>rstate := s, sent := sent w @ [c]\<rparr>))"

text \<open>\<open>try: ... except aioredis.ResponseError as e: ...\<close> and \<open>except Exception: pass\<close>.\<close>

definition catch_response :: "('r, 'a) act \<Rightarrow> (string \<Rightarrow> ('r, 'a) act) \<Rightarrow> ('r, 'a) act" where
  "catch_response m h = (\<lambda>e w. case m e w of
       (Inl (RedisExc (ResponseError msg)), w') \<Rightarrow> h msg e w' | r \<Rightarrow> r)"

definition ignore_errors :: "('r, 'a) act \<Rightarrow> ('r, unit) act" where
  "ignore_errors m = (\<lambda>e w. (Inr (), snd (m e w)))"

definition catch_any :: "('r, 'a) act \<Rightarrow> ('r, 'a) act \<Rightarrow> ('r, 'a) act" where
  "catch_any m h = (\<lambda>e w. case m e w of (Inl x, w') \<Rightarrow> h e w' | r \<Rightarrow> r)"

text \<open>\<open>async for key in r.scan_iter(match, count)\<close>, every key consumed.\<close>

definition scan_all :: "string \<Rightarrow> int \<Rightarrow> ('r, string list) act" where
  "scan_all pattern count = (\<lambda>e w. case scan_iter (redis e) pattern count (rstate w) of ((ks, err), s) \<Rightarrow>
     (case err of Some x \<Rightarrow> Inl (RedisExc x) | None \<Rightarrow> Inr ks,
      w\<lparr>rstate := s, sent := sent w @ [SCAN 0 pattern count]\<rparr>))"

text \<open>
  The same with a body that may break out of the loop: what the iteration would have yielded
  or raised after the break is not seen.
\<close>

fun scan_loop :: "(string \<Rightarrow> 's \<Rightarrow> 's \<times> bool) \<Rightarrow> string list \<Rightarrow> 's \<Rightarrow> 's \<times> bool" where
  "scan_loop f [] s = (s, False)"
| "scan_loop f (k # ks) s = (case f k s of (s', stop) \<Rightarrow> if stop then (s', True) else scan_loop f ks s')"

definition scan_fold :: "string \<Rightarrow> int \<Rightarrow> (string \<Rightarrow> 's \<Rightarrow> 's \<times> bool) \<Rightarrow> 's \<Rightarrow> ('r, 's) act" where
  "scan_fold pattern count f init =
     (\<lambda>e w. case scan_iter (redis e) pattern count (rstate w) of ((ks, err), s) \<Rightarrow>
       (case (scan_loop f ks init, err) of
          ((res, False), Some x) \<Rightarrow> Inl (RedisExc x)
        | ((res, _), _) \<Rightarrow> Inr res,
        w\<lparr>rstate := s, sent := sent w @ [SCAN 0 pattern count]\<rparr>))"

text \<open>A value of the wrong shape: what unpacking or indexing raises.\<close>

definition bad_unpack :: "('r, 'a) act" where
  "bad_unpack = raise (PyExc ''ValueError'')"

text \<open>\<open>get_redis\<close> of \<open>app/dependencies.py\<close>: it needs a connected client.\<close>

definition get_redis :: "('r, unit) act" where
  "get_redis = (\<lambda>e w. if connected w then (Inr (), w) else (Inl (PyExc ''RuntimeError''), w))"

section \<open>Running computations\<close>

lemma ret_apply [act_simps]: "ret a e w = (Inr a, w)"
  by (simp add: ret_def)

lemma raise_apply [act_simps]: "raise x e w = (Inl x, w)"
  by (simp add: raise_def)

lemma lift_apply [act_simps]: "lift r e w = (r, w)"
  by (simp add: lift_def)

lemma get_settings_apply [act_simps]: "get_settings e w = (Inr (conf e), w)"
  by (simp add: get_settings_def)

lemma bnd_apply [act_simps]:
  "bnd m f e w = (case m e w of (Inl x, w') \<Rightarrow> (Inl x, w') | (Inr a, w') \<Rightarrow> f a e w')"
  by (simp add: bnd_def)

lemmas prim_defs = send_def pipe_def run_script_def catch_response_def ignore_errors_def
  catch_any_def scan_all_def scan_fold_def
  bad_unpack_def get_redis_def

lemma bnd_ret [simp]: "bnd (ret a) f = f a"
  by (intro ext) (simp add: act_simps)

lemma bnd_raise [simp]: "bnd (raise x) f = raise x"
  by (intro ext) (simp add: act_simps)

lemma bnd_assoc: "bnd (bnd m f) g = bnd m (\<lambda>a. bnd (f a) g)"
  by (intro ext) (simp add: act_simps split: prod.splits sum.splits)

lemma bnd_lift_Inr [simp]: "bnd (lift (Inr a)) f = f a"
  by (intro ext) (simp add: act_simps)

lemma bnd_lift_Inl [simp]: "bnd (lift (Inl x)) f = raise x"
  by (intro ext) (simp add: act_simps)

lemma lift_Inr: "lift (Inr a) = ret a"
  by (simp add: lift_def ret_def)

lemma lift_Inl: "lift (Inl x) = raise x"
  by (simp add: lift_def raise_def)

lemma scan_loop_inv:
  "I s \<Longrightarrow> (\<And>k s. k \<in> set ks \<Longrightarrow> I s \<Longrightarrow> I (fst (f k s))) \<Longrightarrow> I (fst (scan_loop f ks s))"
proof (induction ks arbitrary: s)
  case (Cons k ks)
  obtain s' stop where f: "f k s = (s', stop)" by fastforce
  have "I s'" using Cons.prems(2) [of k s] Cons.prems(1) f by simp
  then show ?case using Cons.IH [of s'] Cons.prems(2) f by auto
qed simp

section \<open>The commands a computation may send\<close>

text \<open>
  \<open>confined P m\<close>: whatever the server does and whatever the world is, every command \<open>m\<close>
  sends satisfies \<open>P\<close>. It is closed under the combinators, so it is proved by following the
  code.
\<close>

definition confined :: "(cmd \<Rightarrow> bool) \<Rightarrow> ('r, 'a) act \<Rightarrow> bool" where
  "confined P m \<longleftrightarrow> (\<forall>e w. \<exists>cs. sent (snd (m e w)) = sent w @ cs \<and> list_all P cs)"

lemma confinedI:
  assumes "\<And>e w. \<exists>cs. sent (snd (m e w)) = sent w @ cs \<and> list_all P cs"
  shows "confined P m"
  using assms by (simp add: confined_def)

lemma confinedE:
  assumes "confined P m"
  obtains cs where "sent (snd (m e w)) = sent w @ cs" and "list_all P cs"
  using assms unfolding confined_def by blast

lemma confined_mono: "confined P m \<Longrightarrow> (\<And>c. P c \<Longrightarrow> Q c) \<Longrightarrow> confined Q m"
  unfolding confined_def by (metis list.pred_mono_strong)

lemma confined_ret [confined_intros]: "confined P (ret a)"
  by (simp add: confined_def ret_def)

lemma confined_raise [confined_intros]: "confined P (raise x)"
  by (simp add: confined_def raise_def)

lemma confined_lift [confined_intros]: "confined P (lift r)"
  by (simp add: confined_def lift_def)

lemma confined_bad_unpack [confined_intros]: "confined P bad_unpack"
  by (simp add: bad_unpack_def confined_raise)

lemma confined_get_settings [confined_intros]: "confined P get_settings"
  by (simp add: confined_def get_settings_def)

lemma confined_get_redis [confined_intros]: "confined P get_redis"
  by (simp add: confined_def get_redis_def)

lemma confined_send [confined_intros]: "P c \<Longrightarrow> confined P (send c)"
  by (auto simp: confined_def send_def split: prod.splits)

lemma confined_pipe [confined_intros]: "list_all P cs \<Longrightarrow> confined P (pipe tx cs)"
  by (auto simp: confined_def pipe_def split: prod.splits)

lemma confined_run_script [confined_intros]: "P c \<Longrightarrow> confined P (run_script c body)"
  by (auto simp: confined_def run_script_def split: prod.splits)

lemma confined_scan_all [confined_intros]: "P (SCAN 0 pattern n) \<Longrightarrow> confined P (scan_all pattern n)"
  by (auto simp: confined_def scan_all_def split: prod.splits)

lemma confined_scan_fold [confined_intros]:
  "P (SCAN 0 pattern n) \<Longrightarrow> confined P (scan_fold pattern n f init)"
  by (auto simp: confined_def scan_fold_def split: prod.splits)

lemma confined_bnd_gen:
  assumes m: "confined P m"
    and f: "\<And>a e w. fst (m e w) = Inr a \<Longrightarrow> confined P (f a)"
  shows "confined P (bnd m f)"
proof (rule confinedI)
  fix e w
  obtain r w' where eq: "m e w = (r, w')" by fastforce
  obtain cs where cs: "sent w' = sent w @ cs" "list_all P cs"
    using m eq by (metis confinedE snd_conv)
  show "\<exists>cs. sent (snd (bnd m f e w)) = sent w @ cs \<and> list_all P cs"
  proof (cases r)
    case (Inl x)
    then show ?thesis using eq cs by (simp add: act_simps)
  next
    case (Inr a)
    then have "confined P (f a)" using f [of e w] eq by simp
    then obtain ds where "sent (snd (f a e w')) = sent w' @ ds" "list_all P ds"
      by (rule confinedE)
    then show ?thesis using eq cs Inr by (simp add: act_simps)
  qed
qed

lemma confined_bnd [confined_intros]:
  "confined P m \<Longrightarrow> (\<And>a. confined P (f a)) \<Longrightarrow> confined P (bnd m f)"
  by (rule confined_bnd_gen)

lemma confined_bnd_lift:
  "(\<And>a. r = Inr a \<Longrightarrow> confined P (f a)) \<Longrightarrow> confined P (bnd (lift r) f)"
  by (rule confined_bnd_gen [OF confined_lift]) (simp add: lift_apply)

lemma confined_catch [confined_intros]:
  assumes m: "confined P m" and h: "\<And>msg. confined P (h msg)"
  shows "confined P (catch_response m h)"
proof (rule confinedI)
  fix e w
  obtain r w' where eq: "m e w = (r, w')" by fastforce
  obtain cs where cs: "sent w' = sent w @ cs" "list_all P cs"
    using m eq by (metis confinedE snd_conv)
  show "\<exists>cs. sent (snd (catch_response m h e w)) = sent w @ cs \<and> list_all P cs"
  proof (cases "\<exists>msg. r = Inl (RedisExc (ResponseError msg))")
    case True
    then obtain msg where r: "r = Inl (RedisExc (ResponseError msg))" by blast
    obtain ds where "sent (snd (h msg e w')) = sent w' @ ds" "list_all P ds"
      using h by (rule confinedE)
    then show ?thesis using eq cs r by (simp add: catch_response_def)
  next
    case False
    then have "catch_response m h e w = (r, w')"
      using eq by (auto simp: catch_response_def split: sum.splits exc.splits rerr.splits)
    then show ?thesis using cs by auto
  qed
qed

lemma confined_catch_any [confined_intros]:
  assumes m: "confined P m" and h: "confined P h"
  shows "confined P (catch_any m h)"
proof (rule confinedI)
  fix e w
  obtain r w' where eq: "m e w = (r, w')" by fastforce
  obtain cs where cs: "sent w' = sent w @ cs" "list_all P cs"
    using m eq by (metis confinedE snd_conv)
  obtain ds where "sent (snd (h e w')) = sent w' @ ds" "list_all P ds"
    using h by (rule confinedE)
  then show "\<exists>cs. sent (snd (catch_any m h e w)) = sent w @ cs \<and> list_all P cs"
    using eq cs by (cases r) (simp_all add: catch_any_def)
qed

lemma confined_ignore [confined_intros]: "confined P m \<Longrightarrow> confined P (ignore_errors m)"
  by (simp add: confined_def ignore_errors_def)

lemma confined_if [confined_intros]:
  "(b \<Longrightarrow> confined P m) \<Longrightarrow> (\<not> b \<Longrightarrow> confined P n) \<Longrightarrow> confined P (if b then m else n)"
  by simp

lemma confined_list_case [confined_intros]:
  "confined P a \<Longrightarrow> (\<And>x xs. confined P (b x xs)) \<Longrightarrow> confined P (case l of [] \<Rightarrow> a | x # xs \<Rightarrow> b x xs)"
  by (cases l) simp_all

lemma confined_option_case [confined_intros]:
  "confined P a \<Longrightarrow> (\<And>x. confined P (b x)) \<Longrightarrow> confined P (case l of None \<Rightarrow> a | Some x \<Rightarrow> b x)"
  by (cases l) simp_all

lemma confined_prod_case [confined_intros]:
  "(\<And>x y. confined P (f x y)) \<Longrightarrow> confined P (case p of (x, y) \<Rightarrow> f x y)"
  by (cases p) simp

section \<open>The answers a computation may give\<close>

text \<open>\<open>answers Q m\<close>: whatever happens, a value \<open>m\<close> returns satisfies \<open>Q\<close>.\<close>

definition answers :: "('a \<Rightarrow> bool) \<Rightarrow> ('r, 'a) act \<Rightarrow> bool" where
  "answers Q m \<longleftrightarrow> (\<forall>e w v. fst (m e w) = Inr v \<longrightarrow> Q v)"

lemma answersD: "answers Q m \<Longrightarrow> fst (m e w) = Inr v \<Longrightarrow> Q v"
  by (simp add: answers_def)

lemma answers_ret [answers_intros]: "Q a \<Longrightarrow> answers Q (ret a)"
  by (simp add: answers_def ret_def)

lemma answers_raise [answers_intros]: "answers Q (raise x)"
  by (simp add: answers_def raise_def)

lemma answers_bad_unpack [answers_intros]: "answers Q bad_unpack"
  by (simp add: bad_unpack_def answers_raise)

lemma answers_bnd [answers_intros]: "(\<And>a. answers Q (f a)) \<Longrightarrow> answers Q (bnd m f)"
  by (auto simp: answers_def bnd_def split: prod.splits sum.splits)

lemma answers_if [answers_intros]:
  "(b \<Longrightarrow> answers Q m) \<Longrightarrow> (\<not> b \<Longrightarrow> answers Q n) \<Longrightarrow> answers Q (if b then m else n)"
  by simp

end
