(* ===== verification/Response.thy ===== *)
theory Response
  imports Gateway
begin

text \<open>
  \<open>app/utils/response.py\<close>: the bodies of successful answers and the exceptions of refused
  ones; and what the framework and the global handler of \<open>app/main.py\<close> make of a handler's
  outcome: a status and a body.
\<close>

definition ok :: "pyval \<Rightarrow> string \<Rightarrow> string \<Rightarrow> string \<Rightarrow> pyval \<Rightarrow> pyval" where
  "ok data ns key typ ttl =
     PDict [(''ok'', PBool True), (''data'', data),
            (''meta'', PDict [(''ns'', PStr ns), (''key'', PStr key), (''type'', PStr typ), (''ttl'', ttl)])]"

text \<open>The call without \<open>ttl\<close>: its default is -1.\<close>

definition ok_no_ttl :: "pyval \<Rightarrow> string \<Rightarrow> string \<Rightarrow> string \<Rightarrow> pyval" where
  "ok_no_ttl data ns key typ = ok data ns key typ (PInt (-1))"

definition ok_simple :: "pyval \<Rightarrow> pyval" where
  "ok_simple data = PDict [(''ok'', PBool True), (''data'', data), (''meta'', PNone)]"

definition error :: "string \<Rightarrow> string \<Rightarrow> nat \<Rightarrow> exc" where
  "error c message status = HttpExc status c message"

definition not_found :: "string \<Rightarrow> string \<Rightarrow> exc" where
  "not_found key ns =
     error ''KEY_NOT_FOUND'' (''Key '' @ quoted key @ '' not found in namespace '' @ quoted ns) 404"

text \<open>Reading an answer: the TTL in its metadata, a field of its data.\<close>

fun dict_get :: "pyval \<Rightarrow> string \<Rightarrow> pyval option" where
  "dict_get (PDict kvs) k = map_of kvs k"
| "dict_get _ k = None"

definition meta_ttl :: "pyval \<Rightarrow> pyval option" where
  "meta_ttl v = Option.bind (dict_get v ''meta'') (\<lambda>m. dict_get m ''ttl'')"

definition data_field :: "pyval \<Rightarrow> string \<Rightarrow> pyval option" where
  "data_field v k = Option.bind (dict_get v ''data'') (\<lambda>d. dict_get d k)"

text \<open>
  The answer on the wire. FastAPI puts the detail of an \<open>HTTPException\<close> under
  \<open>detail\<close>; every other exception reaches \<open>global_exception_handler\<close>.
\<close>

definition error_body :: "string \<Rightarrow> string \<Rightarrow> pyval" where
  "error_body c message =
     PDict [(''ok'', PBool False), (''error'', PDict [(''code'', PStr c), (''message'', PStr message)])]"

definition global_exception_handler :: "exc \<Rightarrow> nat \<times> pyval" where
  "global_exception_handler x = (500, error_body ''INTERNAL_ERROR'' ''Internal server error'')"

definition respond :: "exc + pyval \<Rightarrow> nat \<times> pyval" where
  "respond r = (case r of
       Inr v \<Rightarrow> (200, v)
     | Inl (HttpExc status c message) \<Rightarrow> (status, PDict [(''detail'', error_body c message)])
     | Inl x \<Rightarrow> global_exception_handler x)"

text \<open>\<open>v[k]\<close> and \<open>v.get(k)\<close> of a dict.\<close>

definition dict_item :: "pyval \<Rightarrow> string \<Rightarrow> exc + pyval" where
  "dict_item v k = (case v of
       PDict kvs \<Rightarrow> (case map_of kvs k of Some x \<Rightarrow> Inr x | None \<Rightarrow> Inl (PyExc ''KeyError''))
     | _ \<Rightarrow> Inl (PyExc ''TypeError''))"

definition dict_get_none :: "pyval \<Rightarrow> string \<Rightarrow> exc + pyval" where
  "dict_get_none v k = (case v of
       PDict kvs \<Rightarrow> Inr (case map_of kvs k of Some x \<Rightarrow> x | None \<Rightarrow> PNone)
     | _ \<Rightarrow> Inl (PyExc ''AttributeError''))"

lemma meta_ttl_ok [simp]: "meta_ttl (ok data ns key typ ttl) = Some ttl"
  by (simp add: meta_ttl_def ok_def)

lemma meta_ttl_ok_no_ttl [simp]: "meta_ttl (ok_no_ttl data ns key typ) = Some (PInt (-1))"
  by (simp add: ok_no_ttl_def)

lemma data_field_ok [simp]: "data_field (ok (PDict kvs) ns key typ ttl) k = map_of kvs k"
  by (simp add: data_field_def ok_def)

lemma data_field_ok_no_ttl [simp]: "data_field (ok_no_ttl (PDict kvs) ns key typ) k = map_of kvs k"
  by (simp add: ok_no_ttl_def)

lemma data_field_ok_simple [simp]: "data_field (ok_simple (PDict kvs)) k = map_of kvs k"
  by (simp add: data_field_def ok_simple_def)

lemma respond_error [simp]: "fst (respond (Inl (error c msg n))) = n"
  by (simp add: respond_def error_def)

end
