(* ===== verification/Metrics.thy ===== *)
theory Metrics
  imports Response
begin

text \<open>
  \<open>app/utils/metrics.py\<close>: the counters every worker keeps in Redis, one key per label, and
  the snapshot read back from them. A duration is a finite number of milliseconds (\<open>rat\<close>).
  The clock (\<open>uptime\<close>) and \<open>float()\<close> of a string are parameters of the snapshot.
\<close>

section \<open>Keys of the counters\<close>

definition METRICS_PREFIX :: string where
  "METRICS_PREFIX = ''redgw:metrics''"

definition total_key :: string where
  "total_key = METRICS_PREFIX @ '':total_requests''"

definition latency_buckets :: "int list" where
  "latency_buckets = [5, 10, 25, 50, 100, 250, 500, 1000, 5000]"

definition status_key :: "int \<Rightarrow> string" where
  "status_key status_code = METRICS_PREFIX @ '':status:'' @ int_str status_code"

definition ns_req_key :: "string \<Rightarrow> string" where
  "ns_req_key ns = METRICS_PREFIX @ '':ns:'' @ ns"

definition client_req_key :: "string \<Rightarrow> string" where
  "client_req_key cid = METRICS_PREFIX @ '':client:'' @ cid"

definition latency_bucket_key :: "string \<Rightarrow> string" where
  "latency_bucket_key bucket = METRICS_PREFIX @ '':latency:'' @ bucket"

definition auth_fail_key :: "string \<Rightarrow> string" where
  "auth_fail_key reason = METRICS_PREFIX @ '':auth_failures:'' @ reason"

definition audit_dropped_key :: "string \<Rightarrow> string" where
  "audit_dropped_key cause = METRICS_PREFIX @ '':audit_dropped:'' @ cause"

definition latency_sum_key :: string where
  "latency_sum_key = METRICS_PREFIX @ '':latency_sum''"

definition latency_count_key :: string where
  "latency_count_key = METRICS_PREFIX @ '':latency_count''"

lemmas metric_key_defs = METRICS_PREFIX_def total_key_def status_key_def ns_req_key_def
  client_req_key_def latency_bucket_key_def auth_fail_key_def audit_dropped_key_def
  latency_sum_key_def latency_count_key_def

section \<open>Recording\<close>

definition record_auth_failure_async :: "string \<Rightarrow> ('r, unit) act" where
  "record_auth_failure_async reason =
     ignore_errors (bnd get_redis (\<lambda>_. send (INCRBY (auth_fail_key reason) 1)))"

definition record_audit_dropped_async :: "string \<Rightarrow> ('r, unit) act" where
  "record_audit_dropped_async cause =
     ignore_errors (bnd get_redis (\<lambda>_. send (INCRBY (audit_dropped_key cause) 1)))"

text \<open>The commands queued for one request.\<close>

definition request_cmds :: "int \<Rightarrow> rat \<Rightarrow> string \<Rightarrow> string \<Rightarrow> cmd list" where
  "request_cmds status_code duration_ms ns cid =
     [INCRBY total_key 1, INCRBY (status_key status_code) 1] @
     (if ns \<noteq> [] then [INCRBY (ns_req_key ns) 1] else []) @
     (if cid \<noteq> [] then [INCRBY (client_req_key cid) 1] else []) @
     (if duration_ms > 0
      then [INCRBYFLOAT latency_sum_key (Flt duration_ms), INCRBY latency_count_key 1] @
           map (\<lambda>b. INCRBY (latency_bucket_key (int_str b)) 1)
             (filter (\<lambda>b. duration_ms \<le> of_int b) latency_buckets) @
           [INCRBY (latency_bucket_key ''inf'') 1]
      else [])"

definition record_request_async :: "int \<Rightarrow> rat \<Rightarrow> string \<Rightarrow> string \<Rightarrow> ('r, unit) act" where
  "record_request_async status_code duration_ms ns cid =
     ignore_errors (bnd get_redis (\<lambda>_. pipe False (request_cmds status_code duration_ms ns cid)))"

section \<open>The snapshot\<close>

text \<open>\<open>k.rsplit(":", 1)[-1]\<close>.\<close>

definition last_segment :: "string \<Rightarrow> string" where
  "last_segment k = rev (takeWhile (\<lambda>c. c \<noteq> CHR '':'') (rev k))"

text \<open>\<open>int(v or 0)\<close>.\<close>

definition int_or_zero :: "pyval \<Rightarrow> exc + int" where
  "int_or_zero v = (if \<not> truthy v then Inr 0 else
     (case v of PInt i \<Rightarrow> Inr i
      | PStr s \<Rightarrow> (case py_int s of Some i \<Rightarrow> Inr i | None \<Rightarrow> Inl (PyExc ''ValueError''))
      | PBool b \<Rightarrow> Inr 1
      | _ \<Rightarrow> Inl (PyExc ''TypeError'')))"

definition float_or_zero :: "(string \<Rightarrow> pyfloat option) \<Rightarrow> pyval \<Rightarrow> exc + pyfloat" where
  "float_or_zero pyfl v = (if \<not> truthy v then Inr (Flt 0) else
     (case v of PInt i \<Rightarrow> Inr (Flt (of_int i))
      | PFloat x \<Rightarrow> Inr x
      | PStr s \<Rightarrow> (case pyfl s of Some x \<Rightarrow> Inr x | None \<Rightarrow> Inl (PyExc ''ValueError''))
      | PBool b \<Rightarrow> Inr (Flt 1)
      | _ \<Rightarrow> Inl (PyExc ''TypeError'')))"

text \<open>The values of the keys, labelled, into a dict; a later pair replaces an earlier one.\<close>

fun fill_counts :: "(string \<times> pyval) list \<Rightarrow> (string \<times> pyval) list \<Rightarrow> exc + (string \<times> pyval) list" where
  "fill_counts acc [] = Inr acc"
| "fill_counts acc ((label, v) # rest) =
     ebind (int_or_zero v) (\<lambda>i. fill_counts (AList.update label (PInt i) acc) rest)"

fun as_list :: "pyval \<Rightarrow> exc + pyval list" where
  "as_list (PList vs) = Inr vs"
| "as_list _ = Inl (PyExc ''TypeError'')"

text \<open>One labelled family of counters: scan its keys, \<open>MGET\<close> them when there are any.\<close>

definition read_family :: "string \<Rightarrow> int \<Rightarrow> ('r, pyval) act" where
  "read_family pattern count =
     bnd (scan_all pattern count) (\<lambda>ks.
     if ks = [] then ret (PDict []) else
     bnd (send (MGET ks)) (\<lambda>r.
     bnd (lift (as_list r)) (\<lambda>vs.
     bnd (lift (fill_counts [] (zip (map last_segment ks) vs))) (\<lambda>d. ret (PDict d)))))"

definition bucket_labels :: "string list" where
  "bucket_labels = map int_str latency_buckets @ [''+Inf'']"

definition bucket_keys :: "string list" where
  "bucket_keys = map (\<lambda>b. latency_bucket_key (int_str b)) latency_buckets @ [latency_bucket_key ''inf'']"

definition empty_metrics :: "pyval \<Rightarrow> pyval" where
  "empty_metrics uptime =
     PDict [(''total_requests'', PInt 0), (''status_codes'', PDict []), (''uptime_seconds'', uptime),
            (''ns_requests'', PDict []), (''client_requests'', PDict []),
            (''latency'', PDict [(''sum'', PInt 0), (''count'', PInt 0), (''buckets'', PDict [])]),
            (''auth_failures'', PDict []), (''audit_dropped'', PDict [])]"

definition read_metrics :: "(string \<Rightarrow> pyfloat option) \<Rightarrow> pyval \<Rightarrow> ('r, pyval) act" where
  "read_metrics pyfl uptime =
     bnd get_redis (\<lambda>_.
     bnd (send (GET total_key)) (\<lambda>total.
     bnd (read_family (METRICS_PREFIX @ '':status:*'') 500) (\<lambda>status_codes.
     bnd (read_family (METRICS_PREFIX @ '':ns:*'') 500) (\<lambda>ns_requests.
     bnd (read_family (METRICS_PREFIX @ '':client:*'') 500) (\<lambda>client_requests.
     bnd (send (GET latency_sum_key)) (\<lambda>lsum.
     bnd (send (GET latency_count_key)) (\<lambda>lcount.
     bnd (send (MGET bucket_keys)) (\<lambda>bvals.
     bnd (lift (as_list bvals)) (\<lambda>bvs.
     bnd (lift (fill_counts [] (zip bucket_labels bvs))) (\<lambda>buckets.
     bnd (read_family (METRICS_PREFIX @ '':auth_failures:*'') 200) (\<lambda>auth_failures.
     bnd (read_family (METRICS_PREFIX @ '':audit_dropped:*'') 200) (\<lambda>audit_dropped.
     bnd (lift (int_or_zero total)) (\<lambda>t.
     bnd (lift (float_or_zero pyfl lsum)) (\<lambda>s.
     bnd (lift (int_or_zero lcount)) (\<lambda>n.
     ret (PDict [(''total_requests'', PInt t), (''status_codes'', status_codes), (''uptime_seconds'', uptime),
        (''ns_requests'', ns_requests), (''client_requests'', client_requests),
        (''latency'', PDict [(''sum'', PFloat s), (''count'', PInt n), (''buckets'', PDict buckets)]),
        (''auth_failures'', auth_failures), (''audit_dropped'', audit_dropped)]))))))))))))))))"

definition get_metrics_async :: "(string \<Rightarrow> pyfloat option) \<Rightarrow> pyval \<Rightarrow> ('r, pyval) act" where
  "get_metrics_async pyfl uptime = catch_any (read_metrics pyfl uptime) (ret (empty_metrics uptime))"

section \<open>What recording does to the counters\<close>

text \<open>The total a list of commands adds to a counter.\<close>

fun added :: "string \<Rightarrow> cmd \<Rightarrow> int" where
  "added k (OnStr k' (Incrby n)) = (if k = k' then n else 0)"
| "added k _ = 0"

definition total_added :: "string \<Rightarrow> cmd list \<Rightarrow> int" where
  "total_added k cs = sum_list (map (added k) cs)"

lemma total_added_append [simp]: "total_added k (xs @ ys) = total_added k xs + total_added k ys"
  by (simp add: total_added_def)

lemma total_added_Nil [simp]: "total_added k [] = 0"
  by (simp add: total_added_def)

lemma total_added_Cons [simp]: "total_added k (c # cs) = added k c + total_added k cs"
  by (simp add: total_added_def)

lemma latency_keys_differ:
  "latency_bucket_key b \<noteq> total_key" "latency_bucket_key b \<noteq> status_key n"
  "latency_bucket_key b \<noteq> ns_req_key ns" "latency_bucket_key b \<noteq> client_req_key cid"
  "latency_bucket_key b \<noteq> latency_count_key" "latency_count_key \<noteq> total_key"
  "latency_count_key \<noteq> status_key n" "latency_count_key \<noteq> ns_req_key ns"
  "latency_count_key \<noteq> client_req_key cid"
  by (simp_all add: metric_key_defs)

lemma latency_bucket_key_inject [simp]: "latency_bucket_key a = latency_bucket_key b \<longleftrightarrow> a = b"
  by (simp add: latency_bucket_key_def)

lemma int_str_not_inf: "int_str i \<noteq> ''inf''"
proof -
  have "py_int (int_str i) \<noteq> py_int ''inf''"
    by (simp add: py_int_int_str) (simp add: py_int_def strip_def is_space_def is_digit_def code_def Let_def)
  then show ?thesis by metis
qed

lemma total_added_buckets:
  "distinct bs \<Longrightarrow> total_added (latency_bucket_key (int_str x))
     (map (\<lambda>b. INCRBY (latency_bucket_key (int_str b)) 1) bs) = (if x \<in> set bs then 1 else 0)"
  by (induction bs) (auto simp: int_str_inject)

lemma total_added_inf_buckets:
  "total_added (latency_bucket_key ''inf'') (map (\<lambda>b. INCRBY (latency_bucket_key (int_str b)) 1) bs) = 0"
  by (induction bs) (simp_all add: int_str_not_inf [symmetric])

lemma total_added_count_buckets:
  "total_added latency_count_key (map (\<lambda>b. INCRBY (latency_bucket_key (int_str b)) 1) bs) = 0"
  by (induction bs) (simp_all add: latency_keys_differ(5) [symmetric])

lemma distinct_latency_buckets: "distinct latency_buckets"
  by (simp add: latency_buckets_def)

lemma request_adds_bucket:
  "total_added (latency_bucket_key (int_str b)) (request_cmds st d ns cid) =
     (if b \<in> set latency_buckets \<and> 0 < d \<and> d \<le> of_int b then 1 else 0)"
  using distinct_latency_buckets int_str_not_inf [of b] latency_keys_differ
  by (auto simp: request_cmds_def total_added_buckets distinct_filter)

lemma request_adds_inf:
  "total_added (latency_bucket_key ''inf'') (request_cmds st d ns cid) = (if 0 < d then 1 else 0)"
  using latency_keys_differ
  by (auto simp: request_cmds_def total_added_inf_buckets)

lemma request_adds_count:
  "total_added latency_count_key (request_cmds st d ns cid) = (if 0 < d then 1 else 0)"
  using latency_keys_differ(5) [symmetric] latency_keys_differ(6-9)
  by (auto simp: request_cmds_def total_added_count_buckets)

end
