(* ===== verification/Auth.thy ===== *)
theory Auth
  imports Metrics
begin

text \<open>
  \<open>app/auth/api_key.py\<close>, \<open>app/auth/namespace_guard.py\<close> and the audit context variable of
  \<open>app/audit/logger.py\<close>: which client an API key stands for, whether it may read or write
  a namespace, and what a refusal leaves behind (the pending audit event, a counter).
\<close>

section \<open>The audit context variable\<close>

definition set_pending_event :: "string \<Rightarrow> string option \<Rightarrow> ('r, unit) act" where
  "set_pending_event event error_code = (\<lambda>e w. (Inr (), w\<lparr>pending := Some (event, error_code)\<rparr>))"

definition consume_pending_event :: "('r, (string \<times> string option) option) act" where
  "consume_pending_event = (\<lambda>e w. (Inr (pending w), w\<lparr>pending := None\<rparr>))"

section \<open>API keys\<close>

definition admin_client :: client_info where
  "admin_client = \<lparr>client_id = ''admin'', description = ''Administrator'',
     namespaces = [(''*'', [''read'', ''write''])]\<rparr>"

text \<open>One turn of the loop over \<open>settings.clients\<close>: the reserved id and an empty key are skipped.\<close>

definition add_client :: "(string \<times> client_info) list \<Rightarrow> string \<times> client_config \<Rightarrow> (string \<times> client_info) list" where
  "add_client mapping entry = (case entry of (cid, cfg) \<Rightarrow>
     if cid = ''admin'' then mapping
     else if client_api_key cfg = [] then mapping
     else AList.update (client_api_key cfg)
       \<lparr>client_id = cid, description = client_description cfg, namespaces = client_namespaces cfg\<rparr> mapping)"

definition build_key_map :: "settings \<Rightarrow> (string \<times> client_info) list" where
  "build_key_map s =
     (let mapping = (if admin_api_key (admin s) \<noteq> []
                     then AList.update (admin_api_key (admin s)) admin_client [] else [])
      in foldl add_client mapping (clients s))"

definition resolve_client :: "string \<Rightarrow> ('r, client_info option) act" where
  "resolve_client api_key = (\<lambda>e w.
     case key_map w of
       Some m \<Rightarrow> (Inr (map_of m api_key), w)
     | None \<Rightarrow> (let m = build_key_map (conf e) in (Inr (map_of m api_key), w\<lparr>key_map := Some m\<rparr>)))"

definition reset_key_map :: "('r, unit) act" where
  "reset_key_map = (\<lambda>e w. (Inr (), w\<lparr>key_map := None\<rparr>))"

text \<open>\<open>reset_settings\<close> of \<open>app/config.py\<close>: nothing is cached then, and the key map is built again.\<close>

definition reset_settings :: "('r, settings option) act" where
  "reset_settings = bnd reset_key_map (\<lambda>_. ret None)"


text \<open>\<open>request.scope["redgw_client_id"] = client.client_id\<close>.\<close>

definition set_scope_client :: "string \<Rightarrow> ('r, unit) act" where
  "set_scope_client cid = (\<lambda>e w. (Inr (), w\<lparr>scope_client := Some cid\<rparr>))"

definition verify_api_key :: "string \<Rightarrow> ('r, client_info) act" where
  "verify_api_key x_api_key =
     bnd (resolve_client x_api_key) (\<lambda>c.
     case c of
       None \<Rightarrow>
         bnd (set_pending_event ''auth_fail'' (Some ''UNAUTHORIZED'')) (\<lambda>_.
         bnd (record_auth_failure_async ''auth_fail'') (\<lambda>_.
         raise (error ''UNAUTHORIZED'' ''Invalid API key'' 401)))
     | Some client \<Rightarrow> bnd (set_scope_client (client_id client)) (\<lambda>_. ret client))"

section \<open>Namespace permissions\<close>

text \<open>A background task that will count the refusal.\<close>

definition fire_metric :: "string \<Rightarrow> ('r, unit) act" where
  "fire_metric reason = (\<lambda>e w. (Inr (), w\<lparr>bg_metrics := bg_metrics w @ [reason]\<rparr>))"

definition require_admin :: "client_info \<Rightarrow> ('r, unit) act" where
  "require_admin client =
     (if client_id client \<noteq> ''admin''
      then bnd (set_pending_event ''admin_required'' (Some ''ADMIN_REQUIRED'')) (\<lambda>_.
           bnd (fire_metric ''admin_required'') (\<lambda>_.
           raise (error ''ADMIN_REQUIRED'' ''Admin privileges required'' 403)))
      else ret ())"

definition granted :: "client_info \<Rightarrow> string \<Rightarrow> string \<Rightarrow> bool" where
  "granted client ns operation =
     (case map_of (namespaces client) ns of None \<Rightarrow> False | Some ops \<Rightarrow> operation \<in> set ops)"

definition check_access :: "client_info \<Rightarrow> string \<Rightarrow> string \<Rightarrow> bool" where
  "check_access client ns operation =
     (if granted client ''*'' operation then True
      else if granted client ns operation then True
      else False)"

definition access_denied :: "client_info \<Rightarrow> string \<Rightarrow> string \<Rightarrow> exc" where
  "access_denied client ns operation =
     error ''NAMESPACE_DENIED''
       (''Access to namespace '' @ quoted ns @ '' with '' @ quoted operation @
        '' permission is not allowed for client '' @ quoted (client_id client)) 403"

definition require_access :: "client_info \<Rightarrow> string \<Rightarrow> string \<Rightarrow> ('r, unit) act" where
  "require_access client ns operation =
     (if \<not> check_access client ns operation
      then bnd (set_pending_event ''namespace_denied'' (Some ''NAMESPACE_DENIED'')) (\<lambda>_.
           bnd (fire_metric ''namespace_denied'') (\<lambda>_.
           raise (access_denied client ns operation)))
      else ret ())"

definition require_read :: "client_info \<Rightarrow> string \<Rightarrow> ('r, unit) act" where
  "require_read client ns = require_access client ns ''read''"

definition require_write :: "client_info \<Rightarrow> string \<Rightarrow> ('r, unit) act" where
  "require_write client ns = require_access client ns ''write''"

section \<open>Endpoints\<close>

text \<open>
  A data endpoint: FastAPI resolves \<open>get_client\<close> (which is \<open>verify_api_key\<close>), then
  \<open>get_redis\<close>, then runs the handler.
\<close>

definition endpoint :: "string \<Rightarrow> (client_info \<Rightarrow> ('r, 'a) act) \<Rightarrow> ('r, 'a) act" where
  "endpoint x_api_key handler =
     bnd (verify_api_key x_api_key) (\<lambda>client. bnd get_redis (\<lambda>_. handler client))"

section \<open>Facts on authentication\<close>

lemma confined_set_pending [confined_intros]: "confined P (set_pending_event ev c)"
  by (simp add: confined_def set_pending_event_def)

lemma confined_fire_metric [confined_intros]: "confined P (fire_metric reason)"
  by (simp add: confined_def fire_metric_def)

lemma confined_set_scope [confined_intros]: "confined P (set_scope_client cid)"
  by (simp add: confined_def set_scope_client_def)

lemma confined_resolve [confined_intros]: "confined P (resolve_client k)"
  by (auto simp: confined_def resolve_client_def Let_def split: option.splits)

lemma confined_require_access [confined_intros]: "confined P (require_access cl ns opr)"
  unfolding require_access_def by (intro confined_intros)

lemma confined_require_read [confined_intros]: "confined P (require_read cl ns)"
  unfolding require_read_def by (intro confined_intros)

lemma confined_require_write [confined_intros]: "confined P (require_write cl ns)"
  unfolding require_write_def by (intro confined_intros)

lemma confined_require_admin [confined_intros]: "confined P (require_admin cl)"
  unfolding require_admin_def by (intro confined_intros)

text \<open>What a refusal does to the world: an audit event, a scheduled metric, nothing else.\<close>

definition after_denial :: "string \<Rightarrow> string \<Rightarrow> 'r world \<Rightarrow> 'r world" where
  "after_denial event ecode w = w\<lparr>pending := Some (event, Some ecode), bg_metrics := bg_metrics w @ [event]\<rparr>"

lemma require_access_apply:
  "require_access cl ns opr e w =
     (if check_access cl ns opr then (Inr (), w)
      else (Inl (access_denied cl ns opr), after_denial ''namespace_denied'' ''NAMESPACE_DENIED'' w))"
  by (simp add: require_access_def act_simps set_pending_event_def fire_metric_def after_denial_def)

lemma require_admin_apply:
  "require_admin cl e w =
     (if client_id cl = ''admin'' then (Inr (), w)
      else (Inl (error ''ADMIN_REQUIRED'' ''Admin privileges required'' 403),
            after_denial ''admin_required'' ''ADMIN_REQUIRED'' w))"
  by (simp add: require_admin_def act_simps set_pending_event_def fire_metric_def after_denial_def)

lemma require_access_granted [simp]: "check_access cl ns opr \<Longrightarrow> require_access cl ns opr = ret ()"
  by (simp add: require_access_def)

lemma after_denial_simps [simp]:
  "rstate (after_denial ev c w) = rstate w" "sent (after_denial ev c w) = sent w"
  "connected (after_denial ev c w) = connected w" "key_map (after_denial ev c w) = key_map w"
  by (simp_all add: after_denial_def)

subsection \<open>The key map\<close>

lemma add_client_lookup:
  "map_of (add_client m (cid, cfg)) k =
     (if cid \<noteq> ''admin'' \<and> client_api_key cfg \<noteq> [] \<and> k = client_api_key cfg
      then Some \<lparr>client_id = cid, description = client_description cfg, namespaces = client_namespaces cfg\<rparr>
      else map_of m k)"
  by (simp add: add_client_def update_conv')

text \<open>Where an entry of the map can come from.\<close>

lemma foldl_add_client_origin:
  assumes "map_of (foldl add_client m cs) k = Some c"
  shows "map_of m k = Some c \<or>
    (\<exists>cid cfg. (cid, cfg) \<in> set cs \<and> cid \<noteq> ''admin'' \<and> k \<noteq> [] \<and> k = client_api_key cfg \<and>
      c = \<lparr>client_id = cid, description = client_description cfg, namespaces = client_namespaces cfg\<rparr>)"
  using assms
proof (induction cs arbitrary: m)
  case Nil
  then show ?case by simp
next
  case (Cons entry cs)
  obtain cid cfg where entry: "entry = (cid, cfg)" by fastforce
  from Cons.prems have "map_of (foldl add_client (add_client m entry) cs) k = Some c" by simp
  from Cons.IH [OF this] show ?case
    by (auto simp: entry add_client_lookup split: if_splits)
qed

lemma build_key_map_origin:
  assumes "map_of (build_key_map s) k = Some c"
  shows "k \<noteq> [] \<and>
    (c = admin_client \<and> k = admin_api_key (admin s) \<or>
     (\<exists>cid cfg. (cid, cfg) \<in> set (clients s) \<and> cid \<noteq> ''admin'' \<and> k = client_api_key cfg \<and>
      c = \<lparr>client_id = cid, description = client_description cfg, namespaces = client_namespaces cfg\<rparr>))"
proof -
  define m where "m = (if admin_api_key (admin s) \<noteq> []
     then AList.update (admin_api_key (admin s)) admin_client [] else [])"
  have "map_of (foldl add_client m (clients s)) k = Some c"
    using assms by (simp add: build_key_map_def m_def Let_def)
  moreover have "map_of m k = Some c \<Longrightarrow> k \<noteq> [] \<and> c = admin_client \<and> k = admin_api_key (admin s)"
    by (simp add: m_def split: if_splits)
  ultimately show ?thesis
    using foldl_add_client_origin [of m "clients s" k c] by blast
qed

text \<open>With distinct keys every client keeps its own.\<close>

lemma foldl_add_client_other:
  "k \<notin> client_api_key ` snd ` set cs \<Longrightarrow> map_of (foldl add_client m cs) k = map_of m k"
  by (induction cs arbitrary: m) (auto simp: add_client_lookup)

lemma foldl_add_client_own:
  assumes "distinct (map (client_api_key \<circ> snd) cs)" and "(cid, cfg) \<in> set cs"
    and "cid \<noteq> ''admin''" and "client_api_key cfg \<noteq> []"
  shows "map_of (foldl add_client m cs) (client_api_key cfg) =
    Some \<lparr>client_id = cid, description = client_description cfg, namespaces = client_namespaces cfg\<rparr>"
  using assms
proof (induction cs arbitrary: m)
  case Nil
  then show ?case by simp
next
  case (Cons entry cs)
  show ?case
  proof (cases "entry = (cid, cfg)")
    case True
    with Cons.prems have "client_api_key cfg \<notin> client_api_key ` snd ` set cs"
      by (auto simp: image_image)
    with Cons.prems True show ?thesis
      by (simp add: foldl_add_client_other add_client_lookup)
  next
    case False
    with Cons show ?thesis by simp
  qed
qed

lemma build_key_map_client:
  assumes "distinct (configured_keys s)" and "(cid, cfg) \<in> set (clients s)"
    and "cid \<noteq> ''admin''" and "client_api_key cfg \<noteq> []"
  shows "map_of (build_key_map s) (client_api_key cfg) =
    Some \<lparr>client_id = cid, description = client_description cfg, namespaces = client_namespaces cfg\<rparr>"
  using assms foldl_add_client_own by (simp add: build_key_map_def Let_def configured_keys_def)

lemma build_key_map_admin:
  assumes "distinct (configured_keys s)" and "admin_api_key (admin s) \<noteq> []"
  shows "map_of (build_key_map s) (admin_api_key (admin s)) = Some admin_client"
proof -
  have "admin_api_key (admin s) \<notin> client_api_key ` snd ` set (clients s)"
    using assms by (auto simp: configured_keys_def image_image)
  then show ?thesis using assms(2) by (simp add: build_key_map_def Let_def foldl_add_client_other)
qed

subsection \<open>Authentication leaves the rest of the world alone\<close>

text \<open>The cache is coherent when it is empty or holds the map of the settings.\<close>

definition cache_ok :: "settings \<Rightarrow> 'r world \<Rightarrow> bool" where
  "cache_ok s w \<longleftrightarrow> key_map w = None \<or> key_map w = Some (build_key_map s)"

lemma resolve_client_apply:
  "cache_ok (conf e) w \<Longrightarrow>
   resolve_client k e w = (Inr (map_of (build_key_map (conf e)) k), w\<lparr>key_map := Some (build_key_map (conf e))\<rparr>)"
  by (auto simp: cache_ok_def resolve_client_def Let_def)

lemma verify_api_key_known:
  assumes "cache_ok (conf e) w" and "map_of (build_key_map (conf e)) k = Some c"
  shows "verify_api_key k e w =
    (Inr c, w\<lparr>key_map := Some (build_key_map (conf e)), scope_client := Some (client_id c)\<rparr>)"
  using assms by (simp add: verify_api_key_def act_simps resolve_client_apply set_scope_client_def)

lemma verify_api_key_unknown:
  assumes "cache_ok (conf e) w" and "map_of (build_key_map (conf e)) k = None"
  shows "fst (verify_api_key k e w) = Inl (error ''UNAUTHORIZED'' ''Invalid API key'' 401)"
    and "pending (snd (verify_api_key k e w)) = Some (''auth_fail'', Some ''UNAUTHORIZED'')"
  using assms
  by (auto simp: verify_api_key_def act_simps resolve_client_apply set_pending_event_def
        record_auth_failure_async_def prim_defs split: prod.splits sum.splits)

lemma confined_verify:
  "confined (\<lambda>c. c = INCRBY (auth_fail_key ''auth_fail'') 1) (verify_api_key k)"
  unfolding verify_api_key_def record_auth_failure_async_def
  by (intro confined_intros) simp_all

end
