(* ===== verification/Schemas.thy ===== *)
theory Schemas
  imports Auth
begin

text \<open>
  \<open>app/schemas\<close>: the request bodies and the constraints pydantic checks before a handler
  runs (a body that breaks one is answered with status 422 by the framework), and the same
  for the query parameters with bounds. A dict of a body is an association list with distinct
  keys, in the order of the JSON text.
\<close>

section \<open>Constraints\<close>

definition MAX_TTL :: int where
  "MAX_TTL = 9999999999"

definition ttl_ok :: "int option \<Rightarrow> bool" where
  "ttl_ok t = (case t of None \<Rightarrow> True | Some n \<Rightarrow> 0 \<le> n \<and> n \<le> MAX_TTL)"

definition between :: "nat \<Rightarrow> nat \<Rightarrow> 'a list \<Rightarrow> bool" where
  "between lo hi xs \<longleftrightarrow> lo \<le> length xs \<and> length xs \<le> hi"

definition is_dict :: "(string \<times> 'a) list \<Rightarrow> bool" where
  "is_dict kvs \<longleftrightarrow> distinct (map fst kvs)"

definition in_int64 :: "int \<Rightarrow> bool" where
  "in_int64 n \<longleftrightarrow> - 9223372036854775808 \<le> n \<and> n \<le> 9223372036854775807"

section \<open>Key and TTL\<close>

record ttl_set_request =
  touch_ttl :: int

definition valid_ttl_set :: "ttl_set_request \<Rightarrow> bool" where
  "valid_ttl_set b \<longleftrightarrow> ttl_ok (Some (touch_ttl b))"

section \<open>Strings\<close>

record kv_set_request =
  kv_value :: string
  kv_ttl :: "int option"

record kv_incr_request =
  kv_delta :: int

record kv_batch_get_request =
  kv_keys :: "string list"

record kv_batch_set_request =
  kv_items :: "(string \<times> string) list"
  kv_items_ttl :: "int option"

definition valid_kv_set :: "kv_set_request \<Rightarrow> bool" where
  "valid_kv_set b \<longleftrightarrow> kv_value b \<noteq> [] \<and> ttl_ok (kv_ttl b)"

definition valid_kv_incr :: "kv_incr_request \<Rightarrow> bool" where
  "valid_kv_incr b \<longleftrightarrow> in_int64 (kv_delta b)"

definition valid_kv_batch_get :: "kv_batch_get_request \<Rightarrow> bool" where
  "valid_kv_batch_get b \<longleftrightarrow> between 1 100 (kv_keys b)"

definition valid_kv_batch_set :: "kv_batch_set_request \<Rightarrow> bool" where
  "valid_kv_batch_set b \<longleftrightarrow> is_dict (kv_items b) \<and> between 1 100 (kv_items b) \<and> ttl_ok (kv_items_ttl b) \<and>
     list_all (\<lambda>(k, v). \<not> length v < 1) (kv_items b)"

section \<open>Hashes\<close>

record map_set_request =
  map_fields :: "(string \<times> string) list"
  map_ttl :: "int option"

record map_field_set_request =
  field_value :: string
  field_ttl :: "int option"

record map_batch_get_request =
  map_keys :: "string list"

record map_batch_set_request =
  map_items :: "(string \<times> (string \<times> string) list) list"
  map_items_ttl :: "int option"

definition valid_map_set :: "map_set_request \<Rightarrow> bool" where
  "valid_map_set b \<longleftrightarrow> is_dict (map_fields b) \<and> 1 \<le> length (map_fields b) \<and> ttl_ok (map_ttl b) \<and>
     list_all (\<lambda>(f, v). \<not> length v < 1) (map_fields b)"

definition valid_map_field_set :: "map_field_set_request \<Rightarrow> bool" where
  "valid_map_field_set b \<longleftrightarrow> field_value b \<noteq> [] \<and> ttl_ok (field_ttl b)"

definition valid_map_batch_get :: "map_batch_get_request \<Rightarrow> bool" where
  "valid_map_batch_get b \<longleftrightarrow> between 1 100 (map_keys b)"

definition valid_map_batch_set :: "map_batch_set_request \<Rightarrow> bool" where
  "valid_map_batch_set b \<longleftrightarrow> is_dict (map_items b) \<and> between 1 100 (map_items b) \<and> ttl_ok (map_items_ttl b) \<and>
     list_all (\<lambda>(k, fields). is_dict fields \<and> \<not> length fields < 1 \<and> list_all (\<lambda>(f, v). \<not> length v < 1) fields)
       (map_items b)"

section \<open>Lists\<close>

record queue_push_request =
  push_value :: string
  push_direction :: direction
  push_ttl :: "int option"

record queue_batch_push_request =
  push_values :: "string list"
  batch_direction :: direction
  batch_push_ttl :: "int option"

record queue_trim_request =
  trim_keep :: int

definition valid_queue_push :: "queue_push_request \<Rightarrow> bool" where
  "valid_queue_push b \<longleftrightarrow> push_value b \<noteq> [] \<and> ttl_ok (push_ttl b)"

definition valid_queue_batch_push :: "queue_batch_push_request \<Rightarrow> bool" where
  "valid_queue_batch_push b \<longleftrightarrow> between 1 100 (push_values b) \<and> ttl_ok (batch_push_ttl b) \<and>
     list_all (\<lambda>v. \<not> length v < 1) (push_values b)"

definition valid_queue_trim :: "queue_trim_request \<Rightarrow> bool" where
  "valid_queue_trim b \<longleftrightarrow> 1 \<le> trim_keep b"

section \<open>Sets\<close>

record group_add_request =
  add_members :: "string list"
  add_ttl :: "int option"

record group_batch_get_request =
  group_keys :: "string list"

record group_batch_add_request =
  group_items :: "(string \<times> string list) list"
  group_items_ttl :: "int option"

record group_ops_request =
  ops_keys :: "string list"

definition valid_group_add :: "group_add_request \<Rightarrow> bool" where
  "valid_group_add b \<longleftrightarrow> 1 \<le> length (add_members b) \<and> ttl_ok (add_ttl b)"

definition valid_group_batch_get :: "group_batch_get_request \<Rightarrow> bool" where
  "valid_group_batch_get b \<longleftrightarrow> between 1 100 (group_keys b)"

definition valid_group_batch_add :: "group_batch_add_request \<Rightarrow> bool" where
  "valid_group_batch_add b \<longleftrightarrow> is_dict (group_items b) \<and> between 1 100 (group_items b) \<and> ttl_ok (group_items_ttl b) \<and>
     list_all (\<lambda>(k, members). \<not> length members < 1 \<and> list_all (\<lambda>m. \<not> length m < 1) members) (group_items b)"

definition valid_group_ops :: "group_ops_request \<Rightarrow> bool" where
  "valid_group_ops b \<longleftrightarrow> between 2 100 (ops_keys b)"

section \<open>Sorted sets\<close>

record rank_add_request =
  rank_member :: string
  rank_score :: pyfloat
  rank_ttl :: "int option"

record rank_batch_add_request =
  rank_members :: "(string \<times> pyfloat) list"
  rank_members_ttl :: "int option"

record rank_batch_get_request =
  rank_keys :: "string list"
  rank_start :: int
  rank_stop :: int
  rank_reverse :: bool

record rank_incr_request =
  incr_member :: string
  incr_delta :: pyfloat

definition valid_rank_add :: "rank_add_request \<Rightarrow> bool" where
  "valid_rank_add b \<longleftrightarrow> rank_member b \<noteq> [] \<and> ttl_ok (rank_ttl b)"

definition valid_rank_batch_add :: "rank_batch_add_request \<Rightarrow> bool" where
  "valid_rank_batch_add b \<longleftrightarrow> between 1 100 (rank_members b) \<and> ttl_ok (rank_members_ttl b) \<and>
     list_all (\<lambda>(m, s). m \<noteq> []) (rank_members b)"

definition valid_rank_batch_get :: "rank_batch_get_request \<Rightarrow> bool" where
  "valid_rank_batch_get b \<longleftrightarrow> between 1 100 (rank_keys b)"

definition valid_rank_incr :: "rank_incr_request \<Rightarrow> bool" where
  "valid_rank_incr b \<longleftrightarrow> incr_member b \<noteq> []"

section \<open>Streams and channels\<close>

record event_publish_request =
  event_data :: "(string \<times> string) list"

record event_group_create_request =
  create_group_name :: string

record event_batch_publish_request =
  batch_events :: "(string \<times> string) list list"

record event_ack_request =
  ack_ids :: "string list"

record publish_request =
  publish_text :: string

definition valid_event_publish :: "event_publish_request \<Rightarrow> bool" where
  "valid_event_publish b \<longleftrightarrow> is_dict (event_data b) \<and> 1 \<le> length (event_data b)"

definition valid_event_group_create :: "event_group_create_request \<Rightarrow> bool" where
  "valid_event_group_create b \<longleftrightarrow> create_group_name b \<noteq> []"

definition valid_event_batch_publish :: "event_batch_publish_request \<Rightarrow> bool" where
  "valid_event_batch_publish b \<longleftrightarrow> between 1 100 (batch_events b) \<and>
     list_all (\<lambda>evt. is_dict evt \<and> \<not> length evt < 1) (batch_events b)"

definition valid_event_ack :: "event_ack_request \<Rightarrow> bool" where
  "valid_event_ack b \<longleftrightarrow> 1 \<le> length (ack_ids b)"

definition valid_publish :: "publish_request \<Rightarrow> bool" where
  "valid_publish b \<longleftrightarrow> publish_text b \<noteq> []"

definition valid_count_query :: "int \<Rightarrow> bool" where
  "valid_count_query n \<longleftrightarrow> 1 \<le> n \<and> n \<le> 1000"

lemmas schema_defs = ttl_ok_def between_def is_dict_def

end
