(* ===== verification/Keys.thy ===== *)
theory Keys
  imports Response
begin

text \<open>
  \<open>app/utils/key_builder.py\<close> and its native twin \<open>redgw_core/src/key_builder.rs\<close>: checking a
  namespace and a key, building the Redis key \<open>ns:prefix:key\<close> and taking it apart again, the
  type tokens of the URLs, and the pattern of a scan. Both implementations are modelled; the
  interface \<open>key_codec\<close> states what the rest of the gateway relies on, and both provide it.
\<close>

section \<open>Prefixes\<close>

definition KV_PREFIX :: string where "KV_PREFIX = ''kv''"
definition MAP_PREFIX :: string where "MAP_PREFIX = ''map''"
definition QUEUE_PREFIX :: string where "QUEUE_PREFIX = ''q''"
definition GROUP_PREFIX :: string where "GROUP_PREFIX = ''grp''"
definition RANK_PREFIX :: string where "RANK_PREFIX = ''rank''"
definition EVENT_PREFIX :: string where "EVENT_PREFIX = ''evt''"

definition STORAGE_PREFIXES :: "string list" where
  "STORAGE_PREFIXES = [KV_PREFIX, MAP_PREFIX, QUEUE_PREFIX, GROUP_PREFIX, RANK_PREFIX, EVENT_PREFIX]"

lemmas prefix_defs = KV_PREFIX_def MAP_PREFIX_def QUEUE_PREFIX_def GROUP_PREFIX_def
  RANK_PREFIX_def EVENT_PREFIX_def

section \<open>The Python implementation\<close>

definition ns_char :: "char \<Rightarrow> bool" where
  "ns_char c \<longleftrightarrow> is_alnum c \<or> c = CHR ''_'' \<or> c = CHR ''-''"

definition key_char :: "char \<Rightarrow> bool" where
  "key_char c \<longleftrightarrow> is_alnum c \<or> c = CHR ''_'' \<or> c = CHR ''.'' \<or> c = CHR '':'' \<or> c = CHR ''-'' \<or> c = CHR ''/''"

text \<open>\<open>_NS_RE.fullmatch\<close> and \<open>_KEY_RE.fullmatch\<close>.\<close>

definition ns_matches :: "string \<Rightarrow> bool" where
  "ns_matches s \<longleftrightarrow> 1 \<le> length s \<and> length s \<le> 64 \<and> list_all ns_char s"

definition key_matches :: "string \<Rightarrow> bool" where
  "key_matches s \<longleftrightarrow> 1 \<le> length s \<and> length s \<le> 256 \<and> list_all key_char s"

definition invalid_ns_msg :: "string \<Rightarrow> string" where
  "invalid_ns_msg ns = ''Namespace '' @ quoted ns @
     '' contains invalid characters. Allowed: A-Z, a-z, 0-9, _, - (max 64 chars)''"

definition invalid_key_msg :: "string \<Rightarrow> string" where
  "invalid_key_msg key = ''Key '' @ quoted key @
     '' contains invalid characters. Allowed: A-Z, a-z, 0-9, _, ., :, -, / (max 256 chars)''"

definition py_validate_ns :: "string \<Rightarrow> exc + string" where
  "py_validate_ns ns =
     (if \<not> ns_matches ns then Inl (error ''INVALID_NAMESPACE'' (invalid_ns_msg ns) 400) else Inr ns)"

definition py_validate_key :: "string \<Rightarrow> exc + string" where
  "py_validate_key key =
     (if \<not> key_matches key then Inl (error ''INVALID_KEY'' (invalid_key_msg key) 400) else Inr key)"

definition join_key :: "string \<Rightarrow> string \<Rightarrow> string \<Rightarrow> string" where
  "join_key ns prefix key = ns @ CHR '':'' # prefix @ CHR '':'' # key"

definition py_build_key :: "string \<Rightarrow> string \<Rightarrow> string \<Rightarrow> exc + string" where
  "py_build_key ns type_prefix key =
     ebind (py_validate_ns ns) (\<lambda>_. ebind (py_validate_key key) (\<lambda>_. Inr (join_key ns type_prefix key)))"

text \<open>\<open>s.split(c, n)\<close>.\<close>

fun split_max :: "char \<Rightarrow> nat \<Rightarrow> string \<Rightarrow> string list" where
  "split_max c 0 s = [s]"
| "split_max c (Suc n) s = (case cut c s of None \<Rightarrow> [s] | Some (a, r) \<Rightarrow> a # split_max c n r)"

definition value_error :: exc where
  "value_error = PyExc ''ValueError''"

definition py_parse_key :: "string \<Rightarrow> exc + string \<times> string \<times> string" where
  "py_parse_key redis_key =
     (let parts = split_max (CHR '':'') 2 redis_key
      in if length parts \<noteq> 3 then Inl value_error else Inr (parts ! 0, parts ! 1, parts ! 2))"

definition py_build_keys_batch :: "string \<Rightarrow> string \<Rightarrow> string list \<Rightarrow> exc + string list" where
  "py_build_keys_batch ns prefix keys =
     ebind (py_validate_ns ns) (\<lambda>_. emap (\<lambda>k. ebind (py_validate_key k) (\<lambda>k. Inr (join_key ns prefix k))) keys)"

section \<open>The Rust implementation\<close>

text \<open>Over the bytes of the strings; a \<open>PyValueError\<close> is its message on the left.\<close>

definition validate_ns_inner :: "string \<Rightarrow> bool" where
  "validate_ns_inner ns \<longleftrightarrow> ns \<noteq> [] \<and> length ns \<le> 64 \<and>
     list_all (\<lambda>b. is_alnum b \<or> b = CHR ''_'' \<or> b = CHR ''-'') ns"

definition validate_key_inner :: "string \<Rightarrow> bool" where
  "validate_key_inner key \<longleftrightarrow> key \<noteq> [] \<and> length key \<le> 256 \<and>
     list_all (\<lambda>b. is_alnum b \<or> b = CHR ''_'' \<or> b = CHR ''.'' \<or> b = CHR '':'' \<or> b = CHR ''-'' \<or> b = CHR ''/'') key"

definition rust_validate_ns :: "string \<Rightarrow> string + unit" where
  "rust_validate_ns ns = (if \<not> validate_ns_inner ns then Inl (invalid_ns_msg ns) else Inr ())"

definition rust_validate_key :: "string \<Rightarrow> string + unit" where
  "rust_validate_key key = (if \<not> validate_key_inner key then Inl (invalid_key_msg key) else Inr ())"

definition rust_build_key :: "string \<Rightarrow> string \<Rightarrow> string \<Rightarrow> string + string" where
  "rust_build_key ns prefix key =
     ebind (rust_validate_ns ns) (\<lambda>_. ebind (rust_validate_key key) (\<lambda>_. Inr (join_key ns prefix key)))"

text \<open>The loop pushing onto \<open>result\<close>.\<close>

fun rust_batch_loop :: "string \<Rightarrow> string \<Rightarrow> string list \<Rightarrow> string list \<Rightarrow> string + string list" where
  "rust_batch_loop ns prefix result [] = Inr result"
| "rust_batch_loop ns prefix result (k # ks) =
     ebind (rust_validate_key k) (\<lambda>_. rust_batch_loop ns prefix (result @ [join_key ns prefix k]) ks)"

definition rust_build_keys_batch :: "string \<Rightarrow> string \<Rightarrow> string list \<Rightarrow> string + string list" where
  "rust_build_keys_batch ns prefix keys =
     ebind (rust_validate_ns ns) (\<lambda>_. rust_batch_loop ns prefix [] keys)"

text \<open>\<open>str::find\<close> for a character: the index of its first occurrence.\<close>

fun rust_find :: "char \<Rightarrow> string \<Rightarrow> nat option" where
  "rust_find c [] = None"
| "rust_find c (x # xs) = (if x = c then Some 0 else map_option Suc (rust_find c xs))"

definition invalid_format_msg :: "string \<Rightarrow> string" where
  "invalid_format_msg k = ''Invalid redis key format: '' @ k"

definition rust_parse_key :: "string \<Rightarrow> string + string \<times> string \<times> string" where
  "rust_parse_key redis_key =
     (case rust_find (CHR '':'') redis_key of None \<Rightarrow> Inl (invalid_format_msg redis_key)
      | Some first_colon \<Rightarrow>
          (let rest = drop (first_colon + 1) redis_key
           in case rust_find (CHR '':'') rest of None \<Rightarrow> Inl (invalid_format_msg redis_key)
              | Some second_colon \<Rightarrow>
                  Inr (take first_colon redis_key, take second_colon rest, drop (second_colon + 1) rest)))"

section \<open>The public functions\<close>

text \<open>
  \<open>REDGW_DISABLE_RUST\<close> and the import decide which implementation is public. With Rust, a
  \<open>ValueError\<close> is turned into the HTTP error by looking for a word in its message.
\<close>

definition use_rust_at_import :: "environ \<Rightarrow> bool \<Rightarrow> bool" where
  "use_rust_at_import env importable \<longleftrightarrow>
     lower (case map_of env ''REDGW_DISABLE_RUST'' of Some v \<Rightarrow> v | None \<Rightarrow> []) \<notin> set [''true'', ''1'', ''yes''] \<and>
     importable"

definition key_error :: "string \<Rightarrow> exc" where
  "key_error msg = (if contains ''Namespace'' msg then error ''INVALID_NAMESPACE'' msg 400
                    else error ''INVALID_KEY'' msg 400)"

definition validate_ns :: "bool \<Rightarrow> string \<Rightarrow> exc + string" where
  "validate_ns rust ns = (if rust
     then (case rust_validate_ns ns of Inl msg \<Rightarrow> Inl (error ''INVALID_NAMESPACE'' msg 400) | Inr _ \<Rightarrow> Inr ns)
     else py_validate_ns ns)"

definition validate_key :: "bool \<Rightarrow> string \<Rightarrow> exc + string" where
  "validate_key rust key = (if rust
     then (case rust_validate_key key of Inl msg \<Rightarrow> Inl (error ''INVALID_KEY'' msg 400) | Inr _ \<Rightarrow> Inr key)
     else py_validate_key key)"

definition build_key :: "bool \<Rightarrow> string \<Rightarrow> string \<Rightarrow> string \<Rightarrow> exc + string" where
  "build_key rust ns type_prefix key = (if rust
     then (case rust_build_key ns type_prefix key of Inl msg \<Rightarrow> Inl (key_error msg) | Inr k \<Rightarrow> Inr k)
     else py_build_key ns type_prefix key)"

definition parse_key :: "bool \<Rightarrow> string \<Rightarrow> exc + string \<times> string \<times> string" where
  "parse_key rust redis_key = (if rust
     then (case rust_parse_key redis_key of Inl _ \<Rightarrow> Inl value_error | Inr t \<Rightarrow> Inr t)
     else py_parse_key redis_key)"

definition build_keys_batch :: "bool \<Rightarrow> string \<Rightarrow> string \<Rightarrow> string list \<Rightarrow> exc + string list" where
  "build_keys_batch rust ns prefix keys = (if rust
     then (case rust_build_keys_batch ns prefix keys of Inl msg \<Rightarrow> Inl (key_error msg) | Inr ks \<Rightarrow> Inr ks)
     else py_build_keys_batch ns prefix keys)"

text \<open>As a step of a handler.\<close>

definition key_act :: "string \<Rightarrow> string \<Rightarrow> string \<Rightarrow> ('r, string) act" where
  "key_act ns prefix key = (\<lambda>e w. (build_key (use_rust e) ns prefix key, w))"

definition keys_act :: "string \<Rightarrow> string \<Rightarrow> string list \<Rightarrow> ('r, string list) act" where
  "keys_act ns prefix keys = (\<lambda>e w. (emap (build_key (use_rust e) ns prefix) keys, w))"

section \<open>Type tokens and scan patterns\<close>

definition TYPE_PREFIX_MAP :: "(string \<times> string) list" where
  "TYPE_PREFIX_MAP =
     [(''string'', KV_PREFIX), (''kv'', KV_PREFIX), (''hash'', MAP_PREFIX), (''map'', MAP_PREFIX),
      (''list'', QUEUE_PREFIX), (''queue'', QUEUE_PREFIX), (''set'', GROUP_PREFIX), (''group'', GROUP_PREFIX),
      (''zset'', RANK_PREFIX), (''rank'', RANK_PREFIX), (''stream'', EVENT_PREFIX), (''event'', EVENT_PREFIX),
      (QUEUE_PREFIX, QUEUE_PREFIX), (GROUP_PREFIX, GROUP_PREFIX), (EVENT_PREFIX, EVENT_PREFIX)]"

fun join_strs :: "string \<Rightarrow> string list \<Rightarrow> string" where
  "join_strs sep [] = []"
| "join_strs sep [x] = x"
| "join_strs sep (x # xs) = x @ sep @ join_strs sep xs"

definition resolve_type_prefix :: "string \<Rightarrow> exc + string" where
  "resolve_type_prefix type_name =
     (case map_of TYPE_PREFIX_MAP type_name of
        None \<Rightarrow> Inl (error ''INVALID_TYPE'' (''Unknown type '' @ quoted type_name @ ''. Valid types: '' @
                  join_strs '', '' (sort (map fst TYPE_PREFIX_MAP))) 400)
      | Some prefix \<Rightarrow> Inr prefix)"

definition scan_char :: "char \<Rightarrow> bool" where
  "scan_char c \<longleftrightarrow> is_alnum c \<or> c \<in> set ''_.:/*?-''"

text \<open>\<open>re.match(r"^...*$", s)\<close>: \<open>$\<close> also matches before a final line feed.\<close>

definition scan_pattern_matches :: "string \<Rightarrow> bool" where
  "scan_pattern_matches s \<longleftrightarrow> list_all scan_char s \<or>
     (s \<noteq> [] \<and> last s = newline \<and> list_all scan_char (butlast s))"

definition build_scan_pattern :: "string option \<Rightarrow> string option \<Rightarrow> string \<Rightarrow> exc + string" where
  "build_scan_pattern ns type_name pattern =
     (if \<not> scan_pattern_matches pattern
      then Inl (error ''INVALID_KEY'' (''Invalid scan pattern: only key chars and '' @ quoted ''*'' @ ''/'' @
             quoted ''?'' @ '' are allowed'') 400)
      else ebind (case type_name of Some t \<Rightarrow> if t = [] then Inr ''*'' else resolve_type_prefix t | None \<Rightarrow> Inr ''*'')
        (\<lambda>prefix. Inr ((case ns of Some n \<Rightarrow> if n = [] then ''*'' else n | None \<Rightarrow> ''*'') @
           CHR '':'' # prefix @ CHR '':'' # pattern)))"

section \<open>The interface of a key codec\<close>

abbreviation colon :: char where
  "colon \<equiv> CHR '':''"

text \<open>
  What the gateway relies on: a key is built exactly for a well-formed namespace and key, a
  refusal is a client error, and parsing finds the two parts before the colons.
\<close>

locale key_codec =
  fixes build :: "string \<Rightarrow> string \<Rightarrow> string \<Rightarrow> exc + string"
    and parse :: "string \<Rightarrow> exc + string \<times> string \<times> string"
  assumes build_Inr: "build ns p k = Inr r \<longleftrightarrow> ns_matches ns \<and> key_matches k \<and> r = join_key ns p k"
    and build_Inl: "build ns p k = Inl x \<Longrightarrow> \<exists>c m. x = HttpExc 400 c m"
    and parse_Inr: "parse s = Inr (a, b, c) \<longleftrightarrow> s = join_key a b c \<and> colon \<notin> set a \<and> colon \<notin> set b"
    and parse_Inl: "parse s = Inl x \<Longrightarrow> x = value_error"
begin

lemma ns_no_colon: "ns_matches ns \<Longrightarrow> colon \<notin> set ns"
  by (auto simp: ns_matches_def list_all_iff ns_char_def is_alnum_def is_upper_def is_lower_def
        is_digit_def code_def)

lemma roundtrip:
  assumes "build ns p k = Inr r" and "colon \<notin> set p"
  shows "parse r = Inr (ns, p, k)"
  using assms ns_no_colon by (simp add: build_Inr parse_Inr)

lemma inject:
  assumes "build ns p k = Inr r" and "build ns' p' k' = Inr r"
    and "colon \<notin> set p" and "colon \<notin> set p'"
  shows "ns = ns' \<and> p = p' \<and> k = k'"
  using roundtrip [OF assms(1,3)] roundtrip [OF assms(2,4)] by simp

lemma parse_build:
  assumes "parse r = Inr (ns, p, k)" and "ns_matches ns" and "key_matches k"
  shows "build ns p k = Inr r"
  using assms by (simp add: build_Inr parse_Inr)

end

subsection \<open>Both implementations provide it\<close>

lemma ns_inner_matches: "validate_ns_inner ns \<longleftrightarrow> ns_matches ns"
  by (cases ns) (simp_all add: validate_ns_inner_def ns_matches_def flip: ns_char_def)

lemma key_inner_matches: "validate_key_inner key \<longleftrightarrow> key_matches key"
  by (cases key) (simp_all add: validate_key_inner_def key_matches_def flip: key_char_def)

lemma py_parse_key_cut:
  "py_parse_key s = (case cut colon s of None \<Rightarrow> Inl value_error
     | Some (a, r) \<Rightarrow> (case cut colon r of None \<Rightarrow> Inl value_error | Some (b, c) \<Rightarrow> Inr (a, b, c)))"
  by (simp add: py_parse_key_def numeral_2_eq_2 Let_def split: option.split prod.split)

lemma rust_find_cut:
  "cut c s = (case rust_find c s of None \<Rightarrow> None | Some i \<Rightarrow> Some (take i s, drop (i + 1) s))"
  by (induction s) (auto simp: cut_Cons split: option.splits)

lemma rust_parse_key_cut:
  "rust_parse_key s = (case cut colon s of None \<Rightarrow> Inl (invalid_format_msg s)
     | Some (a, r) \<Rightarrow> (case cut colon r of None \<Rightarrow> Inl (invalid_format_msg s) | Some (b, c) \<Rightarrow> Inr (a, b, c)))"
  by (simp add: rust_parse_key_def rust_find_cut Let_def split: option.split prod.split)

lemma parse_key_cut:
  "parse_key rust s = (case cut colon s of None \<Rightarrow> Inl value_error
     | Some (a, r) \<Rightarrow> (case cut colon r of None \<Rightarrow> Inl value_error | Some (b, c) \<Rightarrow> Inr (a, b, c)))"
  by (cases rust) (simp_all add: parse_key_def py_parse_key_cut rust_parse_key_cut split: option.split prod.split)

lemma parse_key_Inr [key_simps]:
  "parse_key rust s = Inr (a, b, c) \<longleftrightarrow> s = join_key a b c \<and> colon \<notin> set a \<and> colon \<notin> set b"
proof
  assume "parse_key rust s = Inr (a, b, c)"
  then obtain r where "cut colon s = Some (a, r)" and "cut colon r = Some (b, c)"
    by (auto simp: parse_key_cut split: option.splits)
  then show "s = join_key a b c \<and> colon \<notin> set a \<and> colon \<notin> set b"
    by (simp add: cut_Some join_key_def)
next
  assume "s = join_key a b c \<and> colon \<notin> set a \<and> colon \<notin> set b"
  then show "parse_key rust s = Inr (a, b, c)"
    by (simp add: parse_key_cut join_key_def cut_append)
qed

lemma parse_key_Inl: "parse_key rust s = Inl x \<Longrightarrow> x = value_error"
  by (auto simp: parse_key_cut split: option.splits)

lemma build_key_Inr [key_simps]:
  "build_key rust ns p k = Inr r \<longleftrightarrow> ns_matches ns \<and> key_matches k \<and> r = join_key ns p k"
  by (cases rust)
     (auto simp: build_key_def py_build_key_def py_validate_ns_def py_validate_key_def rust_build_key_def
        rust_validate_ns_def rust_validate_key_def ns_inner_matches key_inner_matches)

lemma build_key_Inl: "build_key rust ns p k = Inl x \<Longrightarrow> \<exists>c m. x = HttpExc 400 c m"
  by (cases rust)
     (auto simp: build_key_def py_build_key_def py_validate_ns_def py_validate_key_def rust_build_key_def
        rust_validate_ns_def rust_validate_key_def key_error_def error_def split: if_splits)

interpretation pub: key_codec "build_key rust" "parse_key rust" for rust
  by unfold_locales (auto simp: build_key_Inr build_key_Inl parse_key_Inr parse_key_Inl)

interpretation py: key_codec py_build_key py_parse_key
  using pub.key_codec_axioms [of False] by (simp add: build_key_def parse_key_def key_codec_def)

lemma validate_ns_Inr: "validate_ns rust ns = Inr r \<longleftrightarrow> ns_matches ns \<and> r = ns"
  by (auto simp: validate_ns_def py_validate_ns_def rust_validate_ns_def ns_inner_matches)

lemma validate_key_Inr: "validate_key rust u = Inr r \<longleftrightarrow> key_matches u \<and> r = u"
  by (auto simp: validate_key_def py_validate_key_def rust_validate_key_def key_inner_matches)

text \<open>A batch of keys is refused for the first ill-formed one.\<close>

abbreviation first_ill_formed :: "string list \<Rightarrow> string option" where
  "first_ill_formed us \<equiv> List.find (\<lambda>u. \<not> key_matches u) us"

lemma rust_batch_loop_find:
  "rust_batch_loop ns p acc us = (case first_ill_formed us of
     Some u \<Rightarrow> Inl (invalid_key_msg u) | None \<Rightarrow> Inr (acc @ map (join_key ns p) us))"
  by (induction us arbitrary: acc) (auto simp: rust_validate_key_def key_inner_matches split: option.splits)

lemma py_batch_find:
  "emap (\<lambda>k. ebind (py_validate_key k) (\<lambda>k. Inr (join_key ns p k))) us = (case first_ill_formed us of
     Some u \<Rightarrow> Inl (error ''INVALID_KEY'' (invalid_key_msg u) 400) | None \<Rightarrow> Inr (map (join_key ns p) us))"
  by (induction us) (auto simp: py_validate_key_def split: option.splits)

lemma build_keys_batch_find:
  "build_keys_batch rust ns p us =
     (if \<not> ns_matches ns
      then Inl (if rust then key_error (invalid_ns_msg ns) else error ''INVALID_NAMESPACE'' (invalid_ns_msg ns) 400)
      else case first_ill_formed us of
        Some u \<Rightarrow> Inl (if rust then key_error (invalid_key_msg u) else error ''INVALID_KEY'' (invalid_key_msg u) 400)
      | None \<Rightarrow> Inr (map (join_key ns p) us))"
  by (simp add: build_keys_batch_def rust_build_keys_batch_def py_build_keys_batch_def rust_validate_ns_def py_validate_ns_def
      ns_inner_matches rust_batch_loop_find py_batch_find split: option.split)

lemma parse_key_rust: "parse_key rust k = parse_key True k"
  by (simp add: parse_key_cut)

lemma ns_no_slash: "ns_matches ns \<Longrightarrow> CHR ''/'' \<notin> set ns \<and> ns \<noteq> []"
  by (auto simp: ns_matches_def list_all_iff ns_char_def is_alnum_def is_upper_def is_lower_def is_digit_def code_def)

end
