(* ===== verification/Policy.thy ===== *)
theory Policy
  imports Schemas Keys
begin

text \<open>
  \<open>app/utils/validation.py\<close> (with \<open>redgw_core/src/validation.rs\<close>) and \<open>app/utils/ttl.py\<close>:
  the size limit on values, the default TTL, and the touch operation every type shares; and
  the interface \<open>data_plane\<close>, which every router of a data type provides.
\<close>

section \<open>Value sizes\<close>

text \<open>
  The native check takes the limit as a \<open>usize\<close> (64 bits): a limit outside its range makes
  the call raise. A \<open>str\<close> is its UTF-8 bytes here, so \<open>value.encode()\<close> and \<open>value.len()\<close>
  are both the length.
\<close>

definition check_utf8_byte_len :: "string \<Rightarrow> nat \<Rightarrow> bool" where
  "check_utf8_byte_len value max_size \<longleftrightarrow> length value \<le> max_size"

definition exceeds_size :: "bool \<Rightarrow> string \<Rightarrow> int \<Rightarrow> exc + bool" where
  "exceeds_size rust value max_size =
     (if rust
      then (if max_size < 0 \<or> 2 ^ 64 \<le> max_size then Inl (PyExc ''OverflowError'')
            else Inr (\<not> check_utf8_byte_len value (nat max_size)))
      else Inr (int (length value) > max_size))"

definition too_large :: "string \<Rightarrow> int \<Rightarrow> exc" where
  "too_large label max_size =
     error ''VALUE_TOO_LARGE'' (label @ '' exceeds max size ('' @ int_str max_size @ '' bytes)'') 400"

definition size_check :: "bool \<Rightarrow> int \<Rightarrow> string \<Rightarrow> string \<Rightarrow> exc + unit" where
  "size_check rust max_size label value =
     ebind (exceeds_size rust value max_size) (\<lambda>ex. if ex then Inl (too_large label max_size) else Inr ())"

definition check_value_size :: "string \<Rightarrow> string \<Rightarrow> ('r, unit) act" where
  "check_value_size value label =
     (\<lambda>e w. (size_check (use_rust e) (max_value_size (defaults (conf e))) label value, w))"

definition check_values_size :: "(string \<times> string) list \<Rightarrow> ('r, unit) act" where
  "check_values_size labelled =
     (\<lambda>e w. (eiter (\<lambda>(label, v). size_check (use_rust e) (max_value_size (defaults (conf e))) label v) labelled, w))"

definition field_label :: "string \<Rightarrow> string" where
  "field_label name = ''Field '' @ quoted name"

definition check_dict_values_size :: "(string \<times> string) list \<Rightarrow> ('r, unit) act" where
  "check_dict_values_size data = check_values_size (map (\<lambda>(name, value). (field_label name, value)) data)"

section \<open>TTL\<close>

definition resolve_ttl :: "int option \<Rightarrow> ('r, int) act" where
  "resolve_ttl body_ttl = bnd get_settings (\<lambda>s.
     ret (case body_ttl of Some t \<Rightarrow> t | None \<Rightarrow> default_ttl (defaults s)))"

text \<open>\<open>ttl if ttl != -2 else -1\<close>.\<close>

definition norm_ttl :: "pyval \<Rightarrow> pyval" where
  "norm_ttl v = (if eq_int v (-2) then PInt (-1) else v)"

text \<open>The second command of a write: set a positive TTL, else drop it.\<close>

definition ttl_cmd :: "string \<Rightarrow> int \<Rightarrow> cmd" where
  "ttl_cmd k ttl = (if ttl > 0 then EXPIRE k ttl else PERSIST k)"

definition touch_key :: "string \<Rightarrow> int \<Rightarrow> string \<Rightarrow> string \<Rightarrow> string \<Rightarrow> ('r, pyval) act" where
  "touch_key redis_key ttl ns key type_name =
     bnd (pipe False [EXISTS redis_key, ttl_cmd redis_key ttl, TTL redis_key]) (\<lambda>results.
     case results of
       [] \<Rightarrow> raise (PyExc ''IndexError'')
     | r0 # rest \<Rightarrow>
         if \<not> truthy r0 \<or> eq_int (last results) (-2) then raise (not_found key ns)
         else ret (ok (PDict [(''touched'', PBool True)]) ns key type_name (last results)))"

section \<open>Facts\<close>

lemma confined_key_act [confined_intros]: "confined P (key_act ns p k)"
  by (simp add: confined_def key_act_def)

lemma confined_keys_act [confined_intros]: "confined P (keys_act ns p ks)"
  by (simp add: confined_def keys_act_def)

lemma confined_check_value_size [confined_intros]: "confined P (check_value_size v l)"
  by (simp add: confined_def check_value_size_def)

lemma confined_check_values_size [confined_intros]: "confined P (check_values_size vs)"
  by (simp add: confined_def check_values_size_def)

lemma confined_check_dict [confined_intros]: "confined P (check_dict_values_size vs)"
  by (simp add: check_dict_values_size_def confined_check_values_size)

lemma confined_resolve_ttl [confined_intros]: "confined P (resolve_ttl t)"
  unfolding resolve_ttl_def by (intro confined_intros)

lemma norm_ttl_not_gone [simp]: "\<not> eq_int (norm_ttl v) (-2)"
  by (simp add: norm_ttl_def)

lemma size_check_python: "size_check False m l v = (if int (length v) > m then Inl (too_large l m) else Inr ())"
  by (simp add: size_check_def exceeds_size_def)

lemma size_check_rust:
  "0 \<le> m \<Longrightarrow> m < 2 ^ 64 \<Longrightarrow> size_check True m l v = size_check False m l v"
  by (auto simp: size_check_def exceeds_size_def check_utf8_byte_len_def)

lemma size_check_Inr: "size_check rust m l v = Inr () \<Longrightarrow> int (length v) \<le> m"
  by (auto simp: size_check_def exceeds_size_def check_utf8_byte_len_def split: if_splits)

lemma size_check_too_large:
  "0 \<le> m \<Longrightarrow> m < 2 ^ 64 \<Longrightarrow> m < int (length v) \<Longrightarrow> size_check rust m l v = Inl (too_large l m)"
  by (cases rust) (simp_all add: size_check_rust size_check_python)

lemma size_check_ok:
  "0 \<le> m \<Longrightarrow> m < 2 ^ 64 \<Longrightarrow> int (length v) \<le> m \<Longrightarrow> size_check rust m l v = Inr ()"
  by (cases rust) (simp_all add: size_check_rust size_check_python)

text \<open>The steps of a handler, evaluated.\<close>

definition effective_ttl :: "settings \<Rightarrow> int option \<Rightarrow> int" where
  "effective_ttl s t = (case t of Some n \<Rightarrow> n | None \<Rightarrow> default_ttl (defaults s))"

lemma resolve_ttl_apply [act_simps]: "resolve_ttl t e w = (Inr (effective_ttl (conf e) t), w)"
  by (simp add: resolve_ttl_def effective_ttl_def act_simps)

lemma key_act_ok: "ns_matches ns \<Longrightarrow> key_matches u \<Longrightarrow> key_act ns p u = ret (join_key ns p u)"
  by (intro ext) (simp add: key_act_def ret_def build_key_Inr)

lemma keys_act_ok:
  assumes "ns_matches ns" and "list_all key_matches us"
  shows "keys_act ns p us = ret (map (join_key ns p) us)"
proof -
  have "emap (build_key rust ns p) us = Inr (map (join_key ns p) us)" for rust
    using assms by (simp add: emap_Inr list_all2_conv_all_nth list_all_length build_key_Inr)
  then show ?thesis by (intro ext) (simp add: keys_act_def ret_def)
qed

lemma check_value_size_apply [act_simps]:
  "check_value_size v l e w = (size_check (use_rust e) (max_value_size (defaults (conf e))) l v, w)"
  by (simp add: check_value_size_def)

text \<open>A value within the configured limit, the limit within what the native check takes.\<close>

definition fits :: "'r env \<Rightarrow> string \<Rightarrow> bool" where
  "fits e v \<longleftrightarrow> int (length v) \<le> max_value_size (defaults (conf e)) \<and> max_value_size (defaults (conf e)) < 2 ^ 64"

lemma fits_size_check: "fits e v \<Longrightarrow> size_check (use_rust e) (max_value_size (defaults (conf e))) l v = Inr ()"
  by (rule size_check_ok) (auto simp: fits_def)

lemma check_values_size_fits:
  "(\<forall>(l, v) \<in> set vs. fits e v) \<Longrightarrow> check_values_size vs e w = (Inr (), w)"
  by (auto simp: check_values_size_def eiter_Inr fits_size_check)

text \<open>An answer that does not report its key as gone (\<open>ttl\<close> -2).\<close>

definition never_gone :: "pyval \<Rightarrow> bool" where
  "never_gone v \<longleftrightarrow> (\<forall>t. meta_ttl v = Some t \<longrightarrow> \<not> eq_int t (-2))"

lemma never_gone_ok [simp]: "never_gone (ok data ns u ty t) \<longleftrightarrow> \<not> eq_int t (-2)"
  by (simp add: never_gone_def)

lemma never_gone_ok_no_ttl [simp]: "never_gone (ok_no_ttl data ns u ty)"
  by (simp add: never_gone_def)

lemma answers_touch_key [answers_intros]: "answers never_gone (touch_key k t ns u ty)"
  unfolding touch_key_def by (auto intro!: answers_intros split: list.split)

section \<open>Keys of a namespace\<close>

text \<open>The Redis keys a request under \<open>ns\<close> for the type \<open>p\<close> may name, and commands that
  name no others.\<close>

definition own_key :: "string \<Rightarrow> string \<Rightarrow> string \<Rightarrow> bool" where
  "own_key ns p k \<longleftrightarrow> (\<exists>u. k = join_key ns p u \<and> ns_matches ns \<and> key_matches u)"

definition own_cmd :: "string \<Rightarrow> string \<Rightarrow> cmd \<Rightarrow> bool" where
  "own_cmd ns p c \<longleftrightarrow> cmd_keys c \<noteq> [] \<and> list_all (own_key ns p) (cmd_keys c)"

lemma build_key_own: "build_key rust ns p u = Inr k \<Longrightarrow> own_key ns p k"
  by (auto simp: build_key_Inr own_key_def)

lemma build_keys_own: "emap (build_key rust ns p) us = Inr ks \<Longrightarrow> list_all (own_key ns p) ks"
  by (auto simp: list_all_iff dest!: emap_Inr_mem build_key_own)

lemma own_cmd_simps [simp]:
  "own_cmd ns p (OnKey k ko) \<longleftrightarrow> own_key ns p k"
  "own_cmd ns p (OnStr k so) \<longleftrightarrow> own_key ns p k"
  "own_cmd ns p (OnHash k ho) \<longleftrightarrow> own_key ns p k"
  "own_cmd ns p (OnList k lo) \<longleftrightarrow> own_key ns p k"
  "own_cmd ns p (OnSet k seto) \<longleftrightarrow> own_key ns p k"
  "own_cmd ns p (OnZset k zo) \<longleftrightarrow> own_key ns p k"
  "own_cmd ns p (OnStream k xo) \<longleftrightarrow> own_key ns p k"
  "own_cmd ns p (OnMany mo ks) \<longleftrightarrow> ks \<noteq> [] \<and> list_all (own_key ns p) ks"
  "own_cmd ns p (EVALSHA scr ks args) \<longleftrightarrow> ks \<noteq> [] \<and> list_all (own_key ns p) ks"
  "own_cmd ns p (OnServer svo) \<longleftrightarrow> False"
  by (simp_all add: own_cmd_def)

lemma own_cmd_ttl [simp]: "own_cmd ns p (ttl_cmd k t) \<longleftrightarrow> own_key ns p k"
  by (simp add: ttl_cmd_def)

lemma confined_key_bnd:
  assumes "\<And>k. own_key ns p k \<Longrightarrow> confined P (f k)"
  shows "confined P (bnd (key_act ns p u) f)"
  by (rule confined_bnd_gen [OF confined_key_act]) (auto simp: key_act_def intro!: assms build_key_own)

lemma confined_keys_bnd:
  assumes "\<And>ks. list_all (own_key ns p) ks \<Longrightarrow> length ks = length us \<Longrightarrow> confined P (f ks)"
  shows "confined P (bnd (keys_act ns p us) f)"
  by (rule confined_bnd_gen [OF confined_keys_act])
     (auto simp: keys_act_def intro!: assms dest: build_keys_own emap_length)

lemma confined_touch_key:
  "own_key ns p k \<Longrightarrow> confined (own_cmd ns p) (touch_key k t ns u ty)"
  unfolding touch_key_def by (intro confined_intros) simp_all

lemma list_all_map2: "list_all P xs \<Longrightarrow> (\<And>x y. P x \<Longrightarrow> Q (f x y)) \<Longrightarrow> list_all Q (map2 f xs ys)"
  by (induction xs arbitrary: ys) (auto split: list.split simp: zip_Cons1)

lemma list_all_keys_map: "list_all (own_key ns p) ks \<Longrightarrow> (\<And>k. own_key ns p k \<Longrightarrow> Q (f k)) \<Longrightarrow> list_all Q (map f ks)"
  by (induction ks) simp_all

lemma list_all_concatI: "list_all (list_all P) xss \<Longrightarrow> list_all P (concat xss)"
  by (induction xss) simp_all

lemmas confined_router = confined_intros confined_key_bnd confined_keys_bnd confined_touch_key
  list_all_map2 list_all_keys_map list_all_concatI

lemma own_key_disjoint:
  assumes "own_key ns p k" and "own_key ns' p' k" and "colon \<notin> set p" and "colon \<notin> set p'"
  shows "ns = ns' \<and> p = p'"
proof -
  from assms obtain u u' where "build_key False ns p u = Inr k" "build_key False ns' p' u' = Inr k"
    by (auto simp: own_key_def build_key_Inr)
  with assms(3,4) show ?thesis using pub.inject by metis
qed

section \<open>The interface of a data router\<close>

text \<open>
  A router answers requests \<open>'q\<close> under a namespace. Each request needs one operation on the
  namespace (\<open>needs\<close>), which is checked before anything else, and its commands name only
  keys of the namespace and of the router's type.
\<close>

locale data_plane =
  fixes handle :: "client_info \<Rightarrow> string \<Rightarrow> 'q \<Rightarrow> ('r, pyval) act"
    and needs :: "'q \<Rightarrow> string"
    and valid :: "'q \<Rightarrow> bool"
    and pfx :: string
  assumes guarded: "\<not> check_access cl ns (needs q) \<Longrightarrow>
      handle cl ns q e w =
        (Inl (access_denied cl ns (needs q)), after_denial ''namespace_denied'' ''NAMESPACE_DENIED'' w)"
    and own: "valid q \<Longrightarrow> confined (own_cmd ns pfx) (handle cl ns q)"
    and pfx_no_colon: "colon \<notin> set pfx"
begin

lemma denied_outcome:
  assumes "\<not> check_access cl ns (needs q)"
  shows "fst (respond (fst (handle cl ns q e w))) = 403"
    and "sent (snd (handle cl ns q e w)) = sent w"
    and "rstate (snd (handle cl ns q e w)) = rstate w"
  using guarded [OF assms, of e w] by (simp_all add: respond_def access_denied_def error_def)

lemma sends_own_keys:
  assumes "valid q"
  shows "\<exists>cs. sent (snd (handle cl ns q e w)) = sent w @ cs \<and> (\<forall>c \<in> set cs. own_cmd ns pfx c)"
  using own [OF assms, of ns cl] by (simp add: confined_def list_all_iff)

text \<open>A command of a request under one namespace names no key of another.\<close>

lemma foreign_keys_untouched:
  assumes "valid q" and "own_key ns' p' k" and "colon \<notin> set p'" and "ns' \<noteq> ns \<or> p' \<noteq> pfx"
  shows "\<exists>cs. sent (snd (handle cl ns q e w)) = sent w @ cs \<and> (\<forall>c \<in> set cs. k \<notin> set (cmd_keys c))"
proof -
  have "k \<notin> set (cmd_keys c)" if "own_cmd ns pfx c" for c
    using that assms(2-4) pfx_no_colon own_key_disjoint [of ns pfx k ns' p']
    by (auto simp: own_cmd_def list_all_iff)
  then show ?thesis using sends_own_keys [OF assms(1), of cl ns e w] by blast
qed

end

end
