(* ===== verification/RedisDoc.thy ===== *)
theory RedisDoc
  imports Policy
begin

text \<open>
  What the functional properties assume of Redis: the documented effect of the commands on
  strings, lists, sets and hashes, as a function on an abstract keyspace, and a hypothesis
  \<open>documented_redis\<close> on any server whose state can be viewed as a keyspace on which its
  commands have that effect (no expiry, eviction or other client in between). Nothing here
  models code of the repository; the properties that need no such assumption do not use it.
\<close>

section \<open>Keyspaces\<close>

datatype rvalue =
    RStr string
  | RList "string list"
  | RSet "string list"
  | RHash "(string \<times> string) list"

text \<open>A value and its remaining time to live.\<close>

datatype entry = Entry rvalue "int option"

type_synonym keyspace = "string \<Rightarrow> entry option"

fun ttl_reply :: "entry option \<Rightarrow> pyval" where
  "ttl_reply None = PInt (-2)"
| "ttl_reply (Some (Entry v None)) = PInt (-1)"
| "ttl_reply (Some (Entry v (Some n))) = PInt n"

definition wrongtype :: rerr where
  "wrongtype = ResponseError ''WRONGTYPE Operation against a key holding the wrong kind of value''"

definition not_integer :: rerr where
  "not_integer = ResponseError ''ERR value is not an integer or out of range''"

definition would_overflow :: rerr where
  "would_overflow = ResponseError ''ERR increment or decrement would overflow''"

text \<open>
  A time to live must be positive. (Redis also refuses one whose milliseconds leave 64 bits, which
  no request reaches: the schemas bound a TTL by \<open>9999999999\<close>. That limit is left out.)
\<close>

definition invalid_expire :: "string \<Rightarrow> rerr" where
  "invalid_expire c = ResponseError (''ERR invalid expire time in '' @ c @ '' command'')"

definition not_covered :: rerr where
  "not_covered = ResponseError ''ERR not covered''"

type_synonym doc_reply = "(rerr + pyval) \<times> keyspace"

text \<open>A container that becomes empty is removed.\<close>

fun empty_container :: "rvalue \<Rightarrow> bool" where
  "empty_container (RStr s) = False"
| "empty_container (RList xs) = (xs = [])"
| "empty_container (RSet xs) = (xs = [])"
| "empty_container (RHash xs) = (xs = [])"

definition store :: "string \<Rightarrow> rvalue \<Rightarrow> int option \<Rightarrow> keyspace \<Rightarrow> keyspace" where
  "store k v t ks = ks(k := (if empty_container v then None else Some (Entry v t)))"

section \<open>The documented effect of a command\<close>

fun key_step :: "string \<Rightarrow> key_op \<Rightarrow> keyspace \<Rightarrow> doc_reply" where
  "key_step k Exists ks = (Inr (PInt (if ks k = None then 0 else 1)), ks)"
| "key_step k Ttl ks = (Inr (ttl_reply (ks k)), ks)"
| "key_step k (Expire n) ks = (case ks k of None \<Rightarrow> (Inr (PBool False), ks)
     | Some (Entry v t) \<Rightarrow> (Inr (PBool True), ks(k := (if n \<le> 0 then None else Some (Entry v (Some n))))))"
| "key_step k Persist ks = (case ks k of None \<Rightarrow> (Inr (PBool False), ks)
     | Some (Entry v t) \<Rightarrow> (Inr (PBool (t \<noteq> None)), ks(k := Some (Entry v None))))"
| "key_step k KeyType ks = (Inr (PStr (case ks k of None \<Rightarrow> ''none''
     | Some (Entry (RStr _) _) \<Rightarrow> ''string'' | Some (Entry (RList _) _) \<Rightarrow> ''list''
     | Some (Entry (RSet _) _) \<Rightarrow> ''set'' | Some (Entry (RHash _) _) \<Rightarrow> ''hash'')), ks)"
| "key_step k ObjectEncoding ks = (Inl not_covered, ks)"

text \<open>Decimal text as the server accepts it for a counter.\<close>

definition counter_value :: "string \<Rightarrow> int option" where
  "counter_value s = (case py_int s of Some i \<Rightarrow> if int_str i = s \<and> in_int64 i then Some i else None | None \<Rightarrow> None)"

fun str_step :: "string \<Rightarrow> str_op \<Rightarrow> keyspace \<Rightarrow> doc_reply" where
  "str_step k Get ks = (case ks k of None \<Rightarrow> (Inr PNone, ks)
     | Some (Entry (RStr s) _) \<Rightarrow> (Inr (PStr s), ks) | _ \<Rightarrow> (Inl wrongtype, ks))"
| "str_step k (Set v ex nx) ks =
     (if (case ex of Some n \<Rightarrow> n \<le> 0 | None \<Rightarrow> False) then (Inl (invalid_expire ''set''), ks)
      else if nx \<and> ks k \<noteq> None then (Inr PNone, ks)
      else (Inr (PBool True), store k (RStr v) ex ks))"
| "str_step k (Setex n v) ks =
     (if n \<le> 0 then (Inl (invalid_expire ''setex''), ks) else (Inr (PBool True), store k (RStr v) (Some n) ks))"
| "str_step k (Incrby n) ks = (case ks k of
       None \<Rightarrow> (Inr (PInt n), store k (RStr (int_str n)) None ks)
     | Some (Entry (RStr s) t) \<Rightarrow> (case counter_value s of
           None \<Rightarrow> (Inl not_integer, ks)
         | Some i \<Rightarrow> if in_int64 (i + n) then (Inr (PInt (i + n)), store k (RStr (int_str (i + n))) t ks)
                    else (Inl would_overflow, ks))
     | _ \<Rightarrow> (Inl wrongtype, ks))"
| "str_step k (Incrbyfloat x) ks = (Inl not_covered, ks)"
| "str_step k Strlen ks = (case ks k of None \<Rightarrow> (Inr (PInt 0), ks)
     | Some (Entry (RStr s) _) \<Rightarrow> (Inr (PInt (int (length s))), ks) | _ \<Rightarrow> (Inl wrongtype, ks))"

text \<open>Lists: the value of a missing key is the empty list.\<close>

definition list_at :: "keyspace \<Rightarrow> string \<Rightarrow> (string list \<times> int option) option" where
  "list_at ks k = (case ks k of None \<Rightarrow> Some ([], None) | Some (Entry (RList xs) t) \<Rightarrow> Some (xs, t) | _ \<Rightarrow> None)"

text \<open>The elements from \<open>start\<close> to \<open>stop\<close>, both included; negative indices count from the end.\<close>

definition redis_range :: "int \<Rightarrow> int \<Rightarrow> 'a list \<Rightarrow> 'a list" where
  "redis_range start stop xs =
     (let n = int (length xs);
          a = (if start < 0 then max 0 (n + start) else start);
          b = (if stop < 0 then n + stop else min stop (n - 1))
      in if a > b then [] else take (nat (b - a + 1)) (drop (nat a) xs))"

fun list_step :: "string \<Rightarrow> list_op \<Rightarrow> keyspace \<Rightarrow> doc_reply" where
  "list_step k (Lpush v) ks = (case list_at ks k of None \<Rightarrow> (Inl wrongtype, ks)
     | Some (xs, t) \<Rightarrow> (Inr (PInt (int (length xs) + 1)), store k (RList (v # xs)) t ks))"
| "list_step k (Rpush v) ks = (case list_at ks k of None \<Rightarrow> (Inl wrongtype, ks)
     | Some (xs, t) \<Rightarrow> (Inr (PInt (int (length xs) + 1)), store k (RList (xs @ [v])) t ks))"
| "list_step k Lpop ks = (case list_at ks k of None \<Rightarrow> (Inl wrongtype, ks)
     | Some ([], t) \<Rightarrow> (Inr PNone, ks) | Some (x # xs, t) \<Rightarrow> (Inr (PStr x), store k (RList xs) t ks))"
| "list_step k Rpop ks = (case list_at ks k of None \<Rightarrow> (Inl wrongtype, ks)
     | Some (xs, t) \<Rightarrow> if xs = [] then (Inr PNone, ks)
                       else (Inr (PStr (last xs)), store k (RList (butlast xs)) t ks))"
| "list_step k (Lrange a b) ks = (case list_at ks k of None \<Rightarrow> (Inl wrongtype, ks)
     | Some (xs, t) \<Rightarrow> (Inr (PList (map PStr (redis_range a b xs))), ks))"
| "list_step k Llen ks = (case list_at ks k of None \<Rightarrow> (Inl wrongtype, ks)
     | Some (xs, t) \<Rightarrow> (Inr (PInt (int (length xs))), ks))"
| "list_step k (Ltrim a b) ks = (case list_at ks k of None \<Rightarrow> (Inl wrongtype, ks)
     | Some (xs, t) \<Rightarrow> (Inr (PBool True), store k (RList (redis_range a b xs)) t ks))"

definition set_at :: "keyspace \<Rightarrow> string \<Rightarrow> (string list \<times> int option) option" where
  "set_at ks k = (case ks k of None \<Rightarrow> Some ([], None) | Some (Entry (RSet xs) t) \<Rightarrow> Some (xs, t) | _ \<Rightarrow> None)"

fun set_step :: "string \<Rightarrow> set_op \<Rightarrow> keyspace \<Rightarrow> doc_reply" where
  "set_step k (Sadd ms) ks = (case set_at ks k of None \<Rightarrow> (Inl wrongtype, ks)
     | Some (xs, t) \<Rightarrow> (let new = remdups (filter (\<lambda>m. m \<notin> set xs) ms)
                       in (Inr (PInt (int (length new))), store k (RSet (xs @ new)) t ks)))"
| "set_step k (Srem m) ks = (case set_at ks k of None \<Rightarrow> (Inl wrongtype, ks)
     | Some (xs, t) \<Rightarrow> (Inr (PInt (if m \<in> set xs then 1 else 0)), store k (RSet (removeAll m xs)) t ks))"
| "set_step k Smembers ks = (case set_at ks k of None \<Rightarrow> (Inl wrongtype, ks)
     | Some (xs, t) \<Rightarrow> (Inr (PSet xs), ks))"
| "set_step k (Sismember m) ks = (case set_at ks k of None \<Rightarrow> (Inl wrongtype, ks)
     | Some (xs, t) \<Rightarrow> (Inr (PInt (if m \<in> set xs then 1 else 0)), ks))"
| "set_step k Scard ks = (case set_at ks k of None \<Rightarrow> (Inl wrongtype, ks)
     | Some (xs, t) \<Rightarrow> (Inr (PInt (int (length xs))), ks))"

definition hash_at :: "keyspace \<Rightarrow> string \<Rightarrow> ((string \<times> string) list \<times> int option) option" where
  "hash_at ks k = (case ks k of None \<Rightarrow> Some ([], None) | Some (Entry (RHash xs) t) \<Rightarrow> Some (xs, t) | _ \<Rightarrow> None)"

definition hash_put :: "(string \<times> string) list \<Rightarrow> (string \<times> string) list \<Rightarrow> (string \<times> string) list" where
  "hash_put kvs h = foldl (\<lambda>a (f, v). AList.update f v a) h kvs"

fun hash_step :: "string \<Rightarrow> hash_op \<Rightarrow> keyspace \<Rightarrow> doc_reply" where
  "hash_step k Hgetall ks = (case hash_at ks k of None \<Rightarrow> (Inl wrongtype, ks)
     | Some (h, t) \<Rightarrow> (Inr (PDict (map (\<lambda>(f, v). (f, PStr v)) h)), ks))"
| "hash_step k (Hget f) ks = (case hash_at ks k of None \<Rightarrow> (Inl wrongtype, ks)
     | Some (h, t) \<Rightarrow> (Inr (case map_of h f of None \<Rightarrow> PNone | Some v \<Rightarrow> PStr v), ks))"
| "hash_step k (Hset kvs) ks = (case hash_at ks k of None \<Rightarrow> (Inl wrongtype, ks)
     | Some (h, t) \<Rightarrow> (Inr (PInt (int (length (remdups (filter (\<lambda>f. f \<notin> set (map fst h)) (map fst kvs)))))),
                       store k (RHash (hash_put kvs h)) t ks))"
| "hash_step k (Hdel f) ks = (case hash_at ks k of None \<Rightarrow> (Inl wrongtype, ks)
     | Some (h, t) \<Rightarrow> (Inr (PInt (if f \<in> set (map fst h) then 1 else 0)), store k (RHash (AList.delete f h)) t ks))"
| "hash_step k Hlen ks = (case hash_at ks k of None \<Rightarrow> (Inl wrongtype, ks)
     | Some (h, t) \<Rightarrow> (Inr (PInt (int (length h))), ks))"

text \<open>\<open>MGET\<close> answers nothing for a key that holds no string; \<open>DEL\<close> counts what it removed.\<close>

definition mget_value :: "keyspace \<Rightarrow> string \<Rightarrow> pyval" where
  "mget_value ks k = (case ks k of Some (Entry (RStr s) _) \<Rightarrow> PStr s | _ \<Rightarrow> PNone)"

definition del_keys :: "string list \<Rightarrow> keyspace \<Rightarrow> keyspace" where
  "del_keys dks ks = (\<lambda>k. if k \<in> set dks then None else ks k)"

fun set_members :: "keyspace \<Rightarrow> string list \<Rightarrow> string list list option" where
  "set_members ks [] = Some []"
| "set_members ks (k # rest) = (case set_at ks k of None \<Rightarrow> None
     | Some (xs, t) \<Rightarrow> map_option ((#) xs) (set_members ks rest))"

fun many_step :: "many_op \<Rightarrow> string list \<Rightarrow> keyspace \<Rightarrow> doc_reply" where
  "many_step Mget mks ks = (Inr (PList (map (mget_value ks) mks)), ks)"
| "many_step Del mks ks =
     (Inr (PInt (int (length (filter (\<lambda>k. ks k \<noteq> None) (remdups mks))))), del_keys mks ks)"
| "many_step Sinter mks ks = (case set_members ks mks of Some (xs # xss) \<Rightarrow>
       (Inr (PSet (filter (\<lambda>m. list_all (\<lambda>ys. m \<in> set ys) xss) xs)), ks) | _ \<Rightarrow> (Inl wrongtype, ks))"
| "many_step Sunion mks ks = (case set_members ks mks of Some xss \<Rightarrow>
       (Inr (PSet (remdups (concat xss))), ks) | _ \<Rightarrow> (Inl wrongtype, ks))"
| "many_step Sdiff mks ks = (case set_members ks mks of Some (xs # xss) \<Rightarrow>
       (Inr (PSet (filter (\<lambda>m. list_all (\<lambda>ys. m \<notin> set ys) xss) xs)), ks) | _ \<Rightarrow> (Inl wrongtype, ks))"

fun covered :: "cmd \<Rightarrow> bool" where
  "covered (OnKey k op) = (op \<noteq> ObjectEncoding)"
| "covered (OnStr k (Incrbyfloat x)) = False"
| "covered (OnStr k op) = True"
| "covered (OnList k op) = True"
| "covered (OnSet k op) = True"
| "covered (OnHash k op) = True"
| "covered (OnMany op ks) = (ks \<noteq> [])"
| "covered _ = False"

fun doc_step :: "cmd \<Rightarrow> keyspace \<Rightarrow> doc_reply" where
  "doc_step (OnKey k op) ks = key_step k op ks"
| "doc_step (OnStr k op) ks = str_step k op ks"
| "doc_step (OnList k op) ks = list_step k op ks"
| "doc_step (OnSet k op) ks = set_step k op ks"
| "doc_step (OnHash k op) ks = hash_step k op ks"
| "doc_step (OnMany op mks) ks = many_step op mks ks"
| "doc_step _ ks = (Inl not_covered, ks)"

text \<open>A pipeline runs all its commands in order; \<open>execute()\<close> then raises the first error.\<close>

fun doc_pipe :: "cmd list \<Rightarrow> keyspace \<Rightarrow> (rerr + pyval list) \<times> keyspace" where
  "doc_pipe [] ks = (Inr [], ks)"
| "doc_pipe (c # cs) ks =
     (case doc_step c ks of (r, ks1) \<Rightarrow> case doc_pipe cs ks1 of (rs, ks2) \<Rightarrow>
       (case r of Inl x \<Rightarrow> Inl x | Inr v \<Rightarrow> map_sum id ((#) v) rs, ks2))"

section \<open>The hypothesis\<close>

text \<open>
  \<open>documented_redis srv view\<close>: the covered commands of the server \<open>srv\<close>, alone, in a pipeline
  or from a script, have the documented effect on the keyspace \<open>view\<close> sees in its state.
\<close>

definition documented_redis :: "'r redis \<Rightarrow> ('r \<Rightarrow> keyspace) \<Rightarrow> bool" where
  "documented_redis srv view \<longleftrightarrow>
     (\<forall>c s. covered c \<longrightarrow> (fst (call srv c s), view (snd (call srv c s))) = doc_step c (view s))
   \<and> (\<forall>tx cs s. list_all covered cs \<longrightarrow>
        (fst (pipeline srv tx cs s), view (snd (pipeline srv tx cs s))) = doc_pipe cs (view s))
   \<and> (\<forall>c s. covered c \<longrightarrow> (fst (lua_call srv c s), view (snd (lua_call srv c s))) = doc_step c (view s))
   \<and> (\<forall>body s. evalsha srv body s = body s)"

lemma send_doc:
  assumes "documented_redis (redis e) view" and "covered c" and "doc_step c (view (rstate w)) = (r, ks)"
  shows "\<exists>s. send c e w = (map_sum RedisExc id r, w\<lparr>rstate := s, sent := sent w @ [c]\<rparr>) \<and> view s = ks"
proof -
  obtain r' s where eq: "call (redis e) c (rstate w) = (r', s)" by fastforce
  have "(fst (call (redis e) c (rstate w)), view (snd (call (redis e) c (rstate w)))) = doc_step c (view (rstate w))"
    using assms(1,2) by (simp add: documented_redis_def)
  with assms(3) eq have "r' = r" "view s = ks" by simp_all
  then show ?thesis using eq by (cases r) (auto simp: send_def)
qed

lemma pipe_doc:
  assumes "documented_redis (redis e) view" and "list_all covered cs"
    and "doc_pipe cs (view (rstate w)) = (r, ks)"
  shows "\<exists>s. pipe tx cs e w = (map_sum RedisExc id r, w\<lparr>rstate := s, sent := sent w @ cs\<rparr>) \<and> view s = ks"
proof -
  obtain r' s where eq: "pipeline (redis e) tx cs (rstate w) = (r', s)" by fastforce
  have "(fst (pipeline (redis e) tx cs (rstate w)), view (snd (pipeline (redis e) tx cs (rstate w)))) = doc_pipe cs (view (rstate w))"
    using assms(1,2) by (simp add: documented_redis_def)
  with assms(3) eq have "r' = r" "view s = ks" by simp_all
  then show ?thesis using eq by (cases r) (auto simp: pipe_def)
qed

lemma send_docE:
  assumes "documented_redis (redis e) view" and "covered c"
  obtains s where "send c e w = (map_sum RedisExc id (fst (doc_step c (view (rstate w)))),
      w\<lparr>rstate := s, sent := sent w @ [c]\<rparr>)"
    and "view s = snd (doc_step c (view (rstate w)))"
  using send_doc [OF assms, of w] by (metis prod.collapse)

lemma pipe_docE:
  assumes "documented_redis (redis e) view" and "list_all covered cs"
  obtains s where "pipe tx cs e w = (map_sum RedisExc id (fst (doc_pipe cs (view (rstate w)))),
      w\<lparr>rstate := s, sent := sent w @ cs\<rparr>)"
    and "view s = snd (doc_pipe cs (view (rstate w)))"
  using pipe_doc [OF assms, of w] by (metis prod.collapse)

text \<open>
  The hypothesis can hold: a server whose state is a keyspace and which does exactly this.
\<close>

definition keyspace_server :: "keyspace redis" where
  "keyspace_server =
     \<lparr>call = doc_step, pipeline = (\<lambda>tx. doc_pipe), lua_call = doc_step, evalsha = (\<lambda>body. body),
      scan_iter = (\<lambda>pattern count ks. (([], None), ks))\<rparr>"

lemma documented_keyspace_server: "documented_redis keyspace_server (\<lambda>ks. ks)"
  by (simp add: documented_redis_def keyspace_server_def)

section \<open>A sample setting\<close>

text \<open>For the witnesses: the default settings, this server, empty, and a client of one namespace.\<close>

definition sample_env :: "keyspace env" where
  "sample_env = \<lparr>redis = keyspace_server, conf = default_settings, environ = [], use_rust = True\<rparr>"

definition sample_world :: "keyspace \<Rightarrow> keyspace world" where
  "sample_world ks = \<lparr>rstate = ks, sent = [], connected = True, key_map = None, pending = None,
     bg_metrics = [], scope_client = None\<rparr>"

definition sample_client :: client_info where
  "sample_client = \<lparr>client_id = ''APP'', description = [], namespaces = [(''A'', [''read'', ''write''])]\<rparr>"

definition sample_settings :: settings where
  "sample_settings = default_settings\<lparr>clients :=
     [(''APP'', \<lparr>client_api_key = ''s3cret'', client_description = [], client_namespaces = [(''A'', [''read'', ''write''])]\<rparr>)],
     admin := \<lparr>admin_api_key = []\<rparr>\<rparr>"

definition sample_auth_env :: "keyspace env" where
  "sample_auth_env = sample_env\<lparr>conf := sample_settings\<rparr>"

lemma sample_doc: "documented_redis (redis sample_env) (\<lambda>ks. ks)"
  by (simp add: sample_env_def documented_keyspace_server)

lemma sample_access: "check_access sample_client ''A'' ''read''" "check_access sample_client ''A'' ''write''"
  by (simp_all add: sample_client_def check_access_def granted_def)

lemma sample_ns: "ns_matches ''A''"
  by code_simp

lemma sample_key: "key_matches ''k''" "key_matches ''l''"
  by code_simp+

lemma sample_fits: "length v \<le> 1048576 \<Longrightarrow> fits sample_env v"
  by (simp add: fits_def sample_env_def default_settings_def)

lemma sample_conf [simp]: "conf sample_env = default_settings"
  by (simp add: sample_env_def)

lemma sample_rstate [simp]: "rstate (sample_world ks) = ks" "sent (sample_world ks) = []"
  by (simp_all add: sample_world_def)

lemmas sample_facts = sample_doc sample_access sample_ns sample_key

section \<open>Facts on the documented effect\<close>

lemma store_apply [simp]: "store k v t ks k' = (if k' = k then (if empty_container v then None else Some (Entry v t)) else ks k')"
  by (simp add: store_def)

text \<open>Frame: a command changes no key it does not name.\<close>

lemma doc_step_frame: "k \<notin> set (cmd_keys c) \<Longrightarrow> snd (doc_step c ks) k = ks k"
proof (induction c ks rule: doc_step.induct)
  case (1 k' op ks)
  then show ?case by (cases op) (auto split: option.splits entry.splits)
next
  case (2 k' op ks)
  then show ?case by (cases op) (auto split: option.splits entry.splits rvalue.splits)
next
  case (3 k' op ks)
  then show ?case by (cases op) (auto split: option.splits prod.splits list.splits)
next
  case (4 k' op ks)
  then show ?case by (cases op) (auto simp: Let_def split: option.splits prod.splits)
next
  case (5 k' op ks)
  then show ?case by (cases op) (auto split: option.splits prod.splits)
next
  case (6 op mks ks)
  then show ?case by (cases op) (auto simp: del_keys_def split: option.splits list.splits)
qed simp_all

lemma doc_pipe_frame: "\<forall>c \<in> set cs. k \<notin> set (cmd_keys c) \<Longrightarrow> snd (doc_pipe cs ks) k = ks k"
proof (induction cs arbitrary: ks)
  case Nil
  then show ?case by simp
next
  case (Cons c cs)
  then show ?case
    using doc_step_frame [of k c ks] by (auto split: prod.splits) (metis snd_conv)+
qed

section \<open>Scanning\<close>

text \<open>What \<open>SCAN\<close> documents of \<open>MATCH\<close>, for patterns of literal characters, \<open>*\<close> and \<open>?\<close>.\<close>

fun glob :: "string \<Rightarrow> string \<Rightarrow> bool" where
  "glob [] s = (s = [])"
| "glob (p # ps) [] = (p = CHR ''*'' \<and> glob ps [])"
| "glob (p # ps) (c # cs) =
     (if p = CHR ''*'' then glob ps (c # cs) \<or> glob (p # ps) cs
      else (p = CHR ''?'' \<or> p = c) \<and> glob ps cs)"

definition scan_documented :: "'r redis \<Rightarrow> bool" where
  "scan_documented srv \<longleftrightarrow> (\<forall>p n s. list_all (glob p) (fst (fst (scan_iter srv p n s)))) \<and>
     (\<forall>cur p n s c ks. fst (call srv (SCAN cur p n) s) = Inr (PList [c, PList (map PStr ks)]) \<longrightarrow> list_all (glob p) ks)"

text \<open>It can hold: a server of two keys, one of them internal.\<close>

definition sample_keys :: "string \<Rightarrow> string list" where
  "sample_keys p = filter (glob p) [''A:kv:k'', ''redgw:metrics:total_requests'']"

definition sample_scan_env :: "keyspace env" where
  "sample_scan_env = sample_env\<lparr>redis := keyspace_server\<lparr>
     call := (\<lambda>c ks. case c of
         OnServer (Scan cur p n) \<Rightarrow> (Inr (PList [PInt 0, PList (map PStr (sample_keys p))]), ks)
       | OnServer (Info sec) \<Rightarrow> (Inr (PDict []), ks)
       | _ \<Rightarrow> doc_step c ks),
     scan_iter := (\<lambda>p n ks. ((sample_keys p, None), ks))\<rparr>\<rparr>"

lemma sample_scan_documented: "scan_documented (redis sample_scan_env)"
proof -
  have inj: "map PStr xs = map PStr ys \<Longrightarrow> xs = ys" for xs ys by (simp add: inj_on_def map_injective)
  have "list_all (glob p) (sample_keys p)" for p by (auto simp: sample_keys_def)
  then show ?thesis by (auto simp: scan_documented_def sample_scan_env_def dest: inj)
qed

lemma glob_literal:
  "glob (a @ p) s \<Longrightarrow> CHR ''*'' \<notin> set a \<Longrightarrow> CHR ''?'' \<notin> set a \<Longrightarrow> \<exists>t. s = a @ t \<and> glob p t"
proof (induction a arbitrary: s)
  case (Cons x a)
  then show ?case by (cases s) auto
qed simp

lemma sample_scan_simps [simp]:
  "use_rust sample_scan_env = True" "conf sample_scan_env = default_settings"
  "call (redis sample_scan_env) (INFO sec) ks = (Inr (PDict []), ks)"
  "call (redis sample_scan_env) (SCAN cur p n) ks = (Inr (PList [PInt 0, PList (map PStr (sample_keys p))]), ks)"
  "scan_iter (redis sample_scan_env) p n ks = ((sample_keys p, None), ks)"
  by (simp_all add: sample_scan_env_def sample_env_def)

end
