(* ===== verification/Kv.thy ===== *)
theory Kv
  imports RedisDoc
begin

text \<open>
  \<open>app/routers/kv.py\<close>: the string endpoints under \<open>/ns/{ns}/kv\<close>. One definition per handler,
  the request of each as a constructor of \<open>kv_request\<close>, the interpretation of the
  interface \<open>data_plane\<close>.
\<close>

section \<open>Handlers\<close>

definition batch_get_kv :: "client_info \<Rightarrow> string \<Rightarrow> kv_batch_get_request \<Rightarrow> ('r, pyval) act" where
  "batch_get_kv client ns body =
     bnd (require_read client ns) (\<lambda>_.
     bnd (keys_act ns KV_PREFIX (kv_keys body)) (\<lambda>redis_keys.
     bnd (send (MGET redis_keys)) (\<lambda>values.
     case values of
       PList vs \<Rightarrow>
         (let result = py_dict (filter (\<lambda>(k, v). v \<noteq> PNone) (zip (kv_keys body) vs))
          in ret (ok_no_ttl (PDict [(''values'', PDict result), (''count'', PInt (int (length result)))])
                    ns ''batch'' ''string''))
     | _ \<Rightarrow> bad_unpack)))"

definition kv_set_cmd :: "int \<Rightarrow> string \<Rightarrow> string \<Rightarrow> cmd" where
  "kv_set_cmd ttl redis_key value =
     (if ttl > 0 then SETEX redis_key ttl value else SET redis_key value None False)"

definition batch_set_kv :: "client_info \<Rightarrow> string \<Rightarrow> kv_batch_set_request \<Rightarrow> ('r, pyval) act" where
  "batch_set_kv client ns body =
     bnd (require_write client ns) (\<lambda>_.
     bnd (check_values_size (map (\<lambda>(key_name, value). (''Key '' @ quoted key_name, value)) (kv_items body))) (\<lambda>_.
     bnd (resolve_ttl (kv_items_ttl body)) (\<lambda>ttl.
     bnd (keys_act ns KV_PREFIX (map fst (kv_items body))) (\<lambda>redis_keys.
     bnd (pipe True (map2 (kv_set_cmd ttl) redis_keys (map snd (kv_items body)))) (\<lambda>_.
     ret (ok_no_ttl (PDict [(''stored'', PInt (int (length (kv_items body))))]) ns ''batch'' ''string''))))))"

definition get_kv :: "client_info \<Rightarrow> string \<Rightarrow> string \<Rightarrow> ('r, pyval) act" where
  "get_kv client ns key =
     bnd (require_read client ns) (\<lambda>_.
     bnd (key_act ns KV_PREFIX key) (\<lambda>redis_key.
     bnd (pipe False [GET redis_key, TTL redis_key]) (\<lambda>results.
     case results of
       [value, ttl] \<Rightarrow>
         if value = PNone then raise (not_found key ns)
         else ret (ok (PDict [(''value'', value)]) ns key ''string'' (norm_ttl ttl))
     | _ \<Rightarrow> bad_unpack)))"

definition set_kv :: "client_info \<Rightarrow> string \<Rightarrow> string \<Rightarrow> kv_set_request \<Rightarrow> ('r, pyval) act" where
  "set_kv client ns key body =
     bnd (require_write client ns) (\<lambda>_.
     bnd (check_value_size (kv_value body) ''Value'') (\<lambda>_.
     bnd (key_act ns KV_PREFIX key) (\<lambda>redis_key.
     bnd (resolve_ttl (kv_ttl body)) (\<lambda>ttl.
     bnd (send (if ttl > 0 then SETEX redis_key ttl (kv_value body)
                else SET redis_key (kv_value body) None False)) (\<lambda>_.
     ret (ok (PDict [(''value'', PStr (kv_value body))]) ns key ''string''
            (PInt (if ttl > 0 then ttl else -1))))))))"

definition delete_kv :: "client_info \<Rightarrow> string \<Rightarrow> string \<Rightarrow> ('r, pyval) act" where
  "delete_kv client ns key =
     bnd (require_write client ns) (\<lambda>_.
     bnd (key_act ns KV_PREFIX key) (\<lambda>redis_key.
     bnd (send (DEL [redis_key])) (\<lambda>deleted.
     if \<not> truthy deleted then raise (not_found key ns)
     else ret (ok_no_ttl (PDict [(''deleted'', PBool True)]) ns key ''string''))))"

definition exists_kv :: "client_info \<Rightarrow> string \<Rightarrow> string \<Rightarrow> ('r, pyval) act" where
  "exists_kv client ns key =
     bnd (require_read client ns) (\<lambda>_.
     bnd (key_act ns KV_PREFIX key) (\<lambda>redis_key.
     bnd (send (EXISTS redis_key)) (\<lambda>exists.
     ret (ok_no_ttl (PDict [(''exists'', PBool (truthy exists))]) ns key ''string''))))"

definition incr_rejected :: exc where
  "incr_rejected = error ''INVALID_VALUE''
     ''Existing value is not an integer or the increment is out of int64 range'' 400"

definition incr_kv :: "client_info \<Rightarrow> string \<Rightarrow> string \<Rightarrow> kv_incr_request \<Rightarrow> ('r, pyval) act" where
  "incr_kv client ns key body =
     bnd (require_write client ns) (\<lambda>_.
     bnd (key_act ns KV_PREFIX key) (\<lambda>redis_key.
     bnd (catch_response (pipe False [INCRBY redis_key (kv_delta body), TTL redis_key])
            (\<lambda>msg. raise incr_rejected)) (\<lambda>results.
     case results of
       [new_value, ttl] \<Rightarrow>
         (case py_str new_value of
            Some s \<Rightarrow> ret (ok (PDict [(''value'', PStr s)]) ns key ''string'' (norm_ttl ttl))
          | None \<Rightarrow> bad_unpack)
     | _ \<Rightarrow> bad_unpack)))"

definition touch_kv :: "client_info \<Rightarrow> string \<Rightarrow> string \<Rightarrow> ttl_set_request \<Rightarrow> ('r, pyval) act" where
  "touch_kv client ns key body =
     bnd (require_write client ns) (\<lambda>_.
     bnd (key_act ns KV_PREFIX key) (\<lambda>redis_key.
     touch_key redis_key (touch_ttl body) ns key ''string''))"

definition key_exists_error :: "string \<Rightarrow> string \<Rightarrow> exc" where
  "key_exists_error key ns =
     error ''KEY_EXISTS'' (''Key '' @ quoted key @ '' already exists in namespace '' @ quoted ns) 409"

definition set_kv_nx :: "client_info \<Rightarrow> string \<Rightarrow> string \<Rightarrow> kv_set_request \<Rightarrow> ('r, pyval) act" where
  "set_kv_nx client ns key body =
     bnd (require_write client ns) (\<lambda>_.
     bnd (key_act ns KV_PREFIX key) (\<lambda>redis_key.
     bnd (resolve_ttl (kv_ttl body)) (\<lambda>ttl.
     bnd (send (if ttl > 0 then SET redis_key (kv_value body) (Some ttl) True
                else SET redis_key (kv_value body) None True)) (\<lambda>acquired.
     if \<not> truthy acquired then raise (key_exists_error key ns)
     else ret (ok (PDict [(''acquired'', PBool True), (''value'', PStr (kv_value body))]) ns key ''string''
                 (PInt (if ttl > 0 then ttl else -1)))))))"

section \<open>The router\<close>

datatype kv_request =
    BatchGetKv kv_batch_get_request
  | BatchSetKv kv_batch_set_request
  | GetKv string
  | SetKv string kv_set_request
  | DeleteKv string
  | ExistsKv string
  | IncrKv string kv_incr_request
  | TouchKv string ttl_set_request
  | SetKvNx string kv_set_request

primrec kv_handle :: "client_info \<Rightarrow> string \<Rightarrow> kv_request \<Rightarrow> ('r, pyval) act" where
  "kv_handle client ns (BatchGetKv body) = batch_get_kv client ns body"
| "kv_handle client ns (BatchSetKv body) = batch_set_kv client ns body"
| "kv_handle client ns (GetKv key) = get_kv client ns key"
| "kv_handle client ns (SetKv key body) = set_kv client ns key body"
| "kv_handle client ns (DeleteKv key) = delete_kv client ns key"
| "kv_handle client ns (ExistsKv key) = exists_kv client ns key"
| "kv_handle client ns (IncrKv key body) = incr_kv client ns key body"
| "kv_handle client ns (TouchKv key body) = touch_kv client ns key body"
| "kv_handle client ns (SetKvNx key body) = set_kv_nx client ns key body"

primrec kv_needs :: "kv_request \<Rightarrow> string" where
  "kv_needs (BatchGetKv body) = ''read''"
| "kv_needs (BatchSetKv body) = ''write''"
| "kv_needs (GetKv key) = ''read''"
| "kv_needs (SetKv key body) = ''write''"
| "kv_needs (DeleteKv key) = ''write''"
| "kv_needs (ExistsKv key) = ''read''"
| "kv_needs (IncrKv key body) = ''write''"
| "kv_needs (TouchKv key body) = ''write''"
| "kv_needs (SetKvNx key body) = ''write''"

primrec kv_valid :: "kv_request \<Rightarrow> bool" where
  "kv_valid (BatchGetKv body) = valid_kv_batch_get body"
| "kv_valid (BatchSetKv body) = valid_kv_batch_set body"
| "kv_valid (GetKv key) = True"
| "kv_valid (SetKv key body) = valid_kv_set body"
| "kv_valid (DeleteKv key) = True"
| "kv_valid (ExistsKv key) = True"
| "kv_valid (IncrKv key body) = valid_kv_incr body"
| "kv_valid (TouchKv key body) = valid_ttl_set body"
| "kv_valid (SetKvNx key body) = valid_kv_set body"

section \<open>The router keeps to its keys\<close>

lemmas kv_handler_defs = batch_get_kv_def batch_set_kv_def get_kv_def set_kv_def delete_kv_def
  exists_kv_def incr_kv_def touch_kv_def set_kv_nx_def

lemma own_cmd_kv_set [simp]: "own_cmd ns p (kv_set_cmd ttl k v) \<longleftrightarrow> own_key ns p k"
  by (simp add: kv_set_cmd_def)

lemma kv_handle_own: "kv_valid q \<Longrightarrow> confined (own_cmd ns KV_PREFIX) (kv_handle client ns q)"
  by (cases q)
     (auto simp: kv_handler_defs valid_kv_batch_get_def between_def Let_def
       intro!: confined_intros confined_router
       split: pyval.split list.split option.split)

lemma kv_handle_guarded:
  "\<not> check_access client ns (kv_needs q) \<Longrightarrow> kv_handle client ns q e w =
     (Inl (access_denied client ns (kv_needs q)), after_denial ''namespace_denied'' ''NAMESPACE_DENIED'' w)"
  by (cases q) (simp_all add: kv_handler_defs require_read_def require_write_def bnd_apply require_access_apply)

lemma kv_prefix_no_colon: "colon \<notin> set KV_PREFIX"
  by (simp add: KV_PREFIX_def)

interpretation kv: data_plane kv_handle kv_needs kv_valid KV_PREFIX
  by unfold_locales (simp_all add: kv_handle_guarded kv_handle_own kv_prefix_no_colon)

section \<open>Functional behaviour\<close>

lemma set_kv_doc:
  fixes e :: "'r env" and w :: "'r world" and body :: kv_set_request
  assumes doc: "documented_redis (redis e) view" and acc: "check_access client ns ''write''"
    and key: "ns_matches ns" "key_matches key" and size: "fits e (kv_value body)"
  defines "t \<equiv> effective_ttl (conf e) (kv_ttl body)"
  shows "\<exists>w'. set_kv client ns key body e w =
      (Inr (ok (PDict [(''value'', PStr (kv_value body))]) ns key ''string'' (PInt (if t > 0 then t else -1))), w')
    \<and> view (rstate w') = (view (rstate w))(join_key ns KV_PREFIX key \<mapsto>
         Entry (RStr (kv_value body)) (if t > 0 then Some t else None))"
proof -
  let ?c = "if t > 0 then SETEX (join_key ns KV_PREFIX key) t (kv_value body)
            else SET (join_key ns KV_PREFIX key) (kv_value body) None False"
  have "covered ?c" by simp
  from send_docE [OF doc this, of w] obtain s where
    s: "send ?c e w = (map_sum RedisExc id (fst (doc_step ?c (view (rstate w)))), w\<lparr>rstate := s, sent := sent w @ [?c]\<rparr>)"
    "view s = snd (doc_step ?c (view (rstate w)))" by blast
  then show ?thesis
    using acc key size unfolding t_def
    by (auto simp: set_kv_def require_write_def act_simps key_act_ok fits_size_check store_def split: if_splits)
qed

lemma get_kv_doc:
  assumes doc: "documented_redis (redis e) view" and acc: "check_access client ns ''read''"
    and key: "ns_matches ns" "key_matches key"
    and v: "view (rstate w) (join_key ns KV_PREFIX key) = Some (Entry (RStr v) t)"
  shows "\<exists>w'. get_kv client ns key e w =
      (Inr (ok (PDict [(''value'', PStr v)]) ns key ''string'' (norm_ttl (case t of None \<Rightarrow> PInt (-1) | Some n \<Rightarrow> PInt n))), w')
    \<and> view (rstate w') = view (rstate w)"
proof -
  let ?cs = "[GET (join_key ns KV_PREFIX key), TTL (join_key ns KV_PREFIX key)]"
  have "list_all covered ?cs" by simp
  from pipe_docE [OF doc this, of False w] obtain s where
    s: "pipe False ?cs e w = (map_sum RedisExc id (fst (doc_pipe ?cs (view (rstate w)))), w\<lparr>rstate := s, sent := sent w @ ?cs\<rparr>)"
    "view s = snd (doc_pipe ?cs (view (rstate w)))" by blast
  then show ?thesis
    using acc key v
    by (auto simp: get_kv_def require_read_def act_simps key_act_ok split: option.splits)
qed

text \<open>C9: the value of a \<open>PUT /kv/{key}\<close> is what it and the next \<open>GET\<close> answer, the \<open>GET\<close> to any
  client with the read permission, and the metadata of both names the namespace, the key and the TTL:
  that of the request, else the default of the settings, \<open>-1\<close> where it is not positive. Both succeed
  whenever the permissions are there, the names are well formed, the value fits and the TTL is one
  the schemas admit (at most \<open>9999999999\<close>).\<close>

theorem set_then_get:
  fixes e :: "'r env" and w :: "'r world"
  assumes "documented_redis (redis e) view"
    and "check_access writer ns ''write''" and "check_access reader ns ''read''"
    and "ns_matches ns" and "key_matches key" and "fits e (kv_value body)"
    and "(case kv_ttl body of Some n \<Rightarrow> n | None \<Rightarrow> default_ttl (defaults (conf e))) \<le> 9999999999"
  defines "stored \<equiv> set_kv writer ns key body e w"
    and "t \<equiv> case kv_ttl body of Some n \<Rightarrow> n | None \<Rightarrow> default_ttl (defaults (conf e))"
  defines "a \<equiv> ok (PDict [(''value'', PStr (kv_value body))]) ns key ''string'' (PInt (if t > 0 then t else -1))"
  shows "fst stored = Inr a \<and> fst (get_kv reader ns key e (snd stored)) = Inr a"
proof -
  let ?t = "effective_ttl (conf e) (kv_ttl body)"
  have t: "t = ?t" by (simp add: t_def effective_ttl_def)
  from set_kv_doc [OF assms(1,2,4-6), of w] obtain w' where
    w': "stored = (Inr (ok (PDict [(''value'', PStr (kv_value body))]) ns key ''string'' (PInt (if ?t > 0 then ?t else -1))), w')"
    and v: "view (rstate w') (join_key ns KV_PREFIX key) = Some (Entry (RStr (kv_value body)) (if ?t > 0 then Some ?t else None))"
    unfolding stored_def by auto
  have n: "norm_ttl (case if ?t > 0 then Some ?t else None of None \<Rightarrow> PInt (-1) | Some n \<Rightarrow> PInt n) = PInt (if ?t > 0 then ?t else -1)"
    by (simp add: norm_ttl_def)
  from get_kv_doc [OF assms(1,3-5) v] w' show ?thesis unfolding n a_def t by auto
qed

theorem set_then_get_witness:
  "let body = \<lparr>kv_value = ''v'', kv_ttl = Some 30\<rparr>; w = sample_world Map.empty;
       stored = set_kv sample_client ''A'' ''k'' body sample_env w;
       a = ok (PDict [(''value'', PStr ''v'')]) ''A'' ''k'' ''string'' (PInt 30)
   in fst stored = Inr a \<and> fst (get_kv sample_client ''A'' ''k'' sample_env (snd stored)) = Inr a"
  using set_then_get [OF sample_doc sample_access(2,1) sample_ns sample_key(1),
      of "\<lparr>kv_value = ''v'', kv_ttl = Some 30\<rparr>" "sample_world Map.empty"]
  by (simp add: sample_fits)

lemma set_kv_nx_doc:
  fixes e :: "'r env" and w :: "'r world" and body :: kv_set_request and ns key :: string
  assumes doc: "documented_redis (redis e) view" and acc: "check_access client ns ''write''"
    and key: "ns_matches ns" "key_matches key"
  defines "t \<equiv> effective_ttl (conf e) (kv_ttl body)" and "k \<equiv> join_key ns KV_PREFIX key"
  shows "\<exists>r w'. set_kv_nx client ns key body e w = (r, w') \<and>
     (if view (rstate w) k = None
      then (\<exists>a. r = Inr a \<and> data_field a ''acquired'' = Some (PBool True)) \<and>
           view (rstate w') = (view (rstate w))(k \<mapsto> Entry (RStr (kv_value body)) (if t > 0 then Some t else None))
      else r = Inl (key_exists_error key ns) \<and> view (rstate w') = view (rstate w))"
proof -
  let ?c = "if t > 0 then SET k (kv_value body) (Some t) True else SET k (kv_value body) None True"
  have "covered ?c" by simp
  from send_docE [OF doc this, of w] obtain s where
    s: "send ?c e w = (map_sum RedisExc id (fst (doc_step ?c (view (rstate w)))), w\<lparr>rstate := s, sent := sent w @ [?c]\<rparr>)"
    "view s = snd (doc_step ?c (view (rstate w)))" by blast
  then show ?thesis
    using acc key unfolding t_def k_def
    by (cases "view (rstate w) (join_key ns KV_PREFIX key) = None")
       (auto simp: set_kv_nx_def require_write_def act_simps key_act_ok store_def split: if_splits)
qed

text \<open>C17: \<open>PUT /kv/{key}/nx\<close> is a lock: of two clients that try, the first acquires it and the second
  is answered 409 and changes nothing.\<close>

theorem nx_lock_exclusive:
  fixes e :: "'r env" and w :: "'r world" and b1 b2 :: kv_set_request
  assumes "documented_redis (redis e) view"
    and "check_access c1 ns ''write''" and "check_access c2 ns ''write''"
    and "ns_matches ns" and "key_matches key"
    and "view (rstate w) (join_key ns KV_PREFIX key) = None"
  defines "first \<equiv> set_kv_nx c1 ns key b1 e w"
  defines "second \<equiv> set_kv_nx c2 ns key b2 e (snd first)"
  shows "\<exists>a. fst first = Inr a \<and> data_field a ''acquired'' = Some (PBool True) \<and>
      fst (respond (fst second)) = 409 \<and> view (rstate (snd second)) = view (rstate (snd first))"
proof -
  obtain r1 w1 where 1: "first = (r1, w1)" by fastforce
  with set_kv_nx_doc [OF assms(1,2,4,5), where w = w and body = b1] assms(6) obtain a where
    a: "r1 = Inr a" "data_field a ''acquired'' = Some (PBool True)"
    "view (rstate w1) (join_key ns KV_PREFIX key) \<noteq> None"
    unfolding first_def by auto
  from set_kv_nx_doc [OF assms(1,3,4,5), where w = w1 and body = b2] a(3)
  have "fst second = Inl (key_exists_error key ns)" "view (rstate (snd second)) = view (rstate w1)"
    unfolding second_def 1 by auto
  then show ?thesis using a 1 by (simp add: respond_def key_exists_error_def error_def)
qed

theorem nx_lock_exclusive_witness:
  "let body = \<lparr>kv_value = ''v'', kv_ttl = Some 30\<rparr>;
       first = set_kv_nx sample_client ''A'' ''k'' body sample_env (sample_world Map.empty);
       second = set_kv_nx sample_client ''A'' ''k'' body sample_env (snd first)
   in \<exists>a. fst first = Inr a \<and> data_field a ''acquired'' = Some (PBool True) \<and> fst (respond (fst second)) = 409 \<and>
      rstate (snd second) = rstate (snd first)"
  using nx_lock_exclusive [OF sample_doc sample_access(2,2) sample_ns sample_key(1),
      where w = "sample_world Map.empty" and ?b1.0 = "\<lparr>kv_value = ''v'', kv_ttl = Some 30\<rparr>"
        and ?b2.0 = "\<lparr>kv_value = ''v'', kv_ttl = Some 30\<rparr>"]
  by simp

text \<open>The integer a key counts from: a missing key counts from 0, other text is none.\<close>

definition counter_at :: "keyspace \<Rightarrow> string \<Rightarrow> (int \<times> int option) option" where
  "counter_at ks k = (case ks k of None \<Rightarrow> Some (0, None)
     | Some (Entry (RStr s) t) \<Rightarrow> map_option (\<lambda>i. (i, t)) (counter_value s)
     | _ \<Rightarrow> None)"

text \<open>C18: \<open>POST /kv/{key}/incr\<close> adds exactly the delta to the stored integer (a missing key counts as 0),
  keeps the TTL and answers the sum as text; where the stored text is no integer or the sum
  leaves 64 bits it answers 400 and the keyspace is as before.\<close>

theorem incr_kv_exact:
  fixes e :: "'r env" and w :: "'r world"
  assumes doc: "documented_redis (redis e) view" and acc: "check_access client ns ''write''"
    and key: "ns_matches ns" "key_matches key" and valid: "valid_kv_incr body"
  defines "k \<equiv> join_key ns KV_PREFIX key" and "out \<equiv> incr_kv client ns key body e w"
  shows "case counter_at (view (rstate w)) k of
      Some (i, t) \<Rightarrow>
        if in_int64 (i + kv_delta body)
        then (\<exists>a. fst out = Inr a \<and> data_field a ''value'' = Some (PStr (int_str (i + kv_delta body)))) \<and>
             view (rstate (snd out)) = (view (rstate w))(k \<mapsto> Entry (RStr (int_str (i + kv_delta body))) t)
        else fst out = Inl incr_rejected \<and> view (rstate (snd out)) = view (rstate w)
    | None \<Rightarrow> fst out = Inl incr_rejected \<and> view (rstate (snd out)) = view (rstate w)"
proof -
  let ?cs = "[INCRBY k (kv_delta body), TTL k]"
  have "list_all covered ?cs" by simp
  from pipe_docE [OF doc this, of False w] obtain s where
    s: "pipe False ?cs e w = (map_sum RedisExc id (fst (doc_pipe ?cs (view (rstate w)))), w\<lparr>rstate := s, sent := sent w @ ?cs\<rparr>)"
    "view s = snd (doc_pipe ?cs (view (rstate w)))" by blast
  show ?thesis
    using s acc key valid unfolding out_def k_def
    by (auto simp: incr_kv_def require_write_def act_simps key_act_ok counter_at_def catch_response_def
          valid_kv_incr_def store_def wrongtype_def not_integer_def would_overflow_def
        split: option.splits entry.splits rvalue.splits)
qed

theorem incr_kv_exact_witness:
  "let out = incr_kv sample_client ''A'' ''k'' \<lparr>kv_delta = 5\<rparr> sample_env (sample_world Map.empty)
   in (\<exists>a. fst out = Inr a \<and> data_field a ''value'' = Some (PStr ''5'')) \<and>
      rstate (snd out) (join_key ''A'' KV_PREFIX ''k'') = Some (Entry (RStr ''5'') None)"
proof -
  have "int_str 5 = ''5''" by code_simp
  then show ?thesis
    using incr_kv_exact [OF sample_doc sample_access(2) sample_ns sample_key(1),
        of "\<lparr>kv_delta = 5\<rparr>" "sample_world Map.empty"]
    by (simp add: valid_kv_incr_def in_int64_def counter_at_def Let_def)
qed


lemma kv_set_cmds:
  "length ks = length us \<Longrightarrow>
   map2 (kv_set_cmd ttl) (map (join_key ns KV_PREFIX) (map fst items)) (map snd items)
     = map (\<lambda>(u, v). kv_set_cmd ttl (join_key ns KV_PREFIX u) v) items"
  by (induction items) auto

text \<open>\<open>PUT /kv/batch\<close> either is refused with nothing sent, or sends one command for every item,
  in order, and then the namespace and all keys are well formed and all values within the
  limit: one bad item stores nothing.\<close>

lemma batch_set_all_or_nothing:
  fixes e :: "'r env" and w :: "'r world"
    and client :: client_info and ns :: string
  assumes "valid_kv_batch_set body"
  defines "out \<equiv> batch_set_kv client ns body e w"
  shows "(\<exists>x. fst out = Inl x \<and> sent (snd out) = sent w) \<or>
    (\<exists>ttl. sent (snd out) = sent w @ map (\<lambda>(u, v). kv_set_cmd ttl (join_key ns KV_PREFIX u) v) (kv_items body) \<and>
       check_access client ns ''write'' \<and> ns_matches ns \<and>
       (\<forall>(u, v) \<in> set (kv_items body). key_matches u \<and> int (length v) \<le> max_value_size (defaults (conf e))))"
proof -
  let ?items = "kv_items body" and ?rust = "use_rust e" and ?m = "max_value_size (defaults (conf e))"
  let ?vs = "map (\<lambda>(u, v). (''Key '' @ quoted u, v)) ?items"
  let ?sizes = "eiter (\<lambda>(l, v). size_check ?rust ?m l v) ?vs"
  let ?keys = "emap (build_key ?rust ns KV_PREFIX) (map fst ?items)"
  show ?thesis
  proof (cases "check_access client ns ''write'' \<and> ?sizes = Inr () \<and> (\<exists>ks. ?keys = Inr ks)")
    case True
    then obtain ks where ks: "?keys = Inr ks" by blast
    have len: "\<forall>(u, v) \<in> set ?items. int (length v) \<le> ?m"
      using True by (auto simp: eiter_Inr dest!: size_check_Inr)
    have all2: "list_all2 (\<lambda>u k. build_key ?rust ns KV_PREFIX u = Inr k) (map fst ?items) ks"
      using ks by (simp add: emap_Inr)
    then have ks_eq: "ks = map (join_key ns KV_PREFIX) (map fst ?items)"
      by (auto simp: list_all2_conv_all_nth build_key_Inr intro!: nth_equalityI)
    have keys: "ns_matches ns \<and> key_matches (fst it)" if "it \<in> set ?items" for it
      using all2 that by (auto simp: list_all2_conv_all_nth build_key_Inr in_set_conv_nth)
    have "?items \<noteq> []" using assms(1) by (auto simp: valid_kv_batch_set_def between_def)
    then have "ns_matches ns" using keys by (cases ?items) auto
    then show ?thesis
      using True ks len keys kv_set_cmds [of ks ks] unfolding out_def
      by (auto simp: batch_set_kv_def require_write_def act_simps check_values_size_def keys_act_def
            pipe_def ks_eq ret_def split: prod.splits sum.splits)
  next
    case False
    then show ?thesis unfolding out_def
      by (cases ?sizes; cases ?keys; cases "check_access client ns ''write''")
         (auto simp: batch_set_kv_def require_write_def act_simps require_access_apply check_values_size_def keys_act_def)
  qed
qed

lemma batch_set_all_or_nothing_witness:
  "let body = \<lparr>kv_items = [(''k'', ''v''), (''bad key'', ''v'')], kv_items_ttl = None\<rparr>;
       out = batch_set_kv sample_client ''A'' body sample_env (sample_world Map.empty)
   in \<exists>x. fst out = Inl x \<and> sent (snd out) = []"
proof -
  have bad: "\<not> key_matches ''bad key''" by code_simp
  have "valid_kv_batch_set \<lparr>kv_items = [(''k'', ''v''), (''bad key'', ''v'')], kv_items_ttl = None\<rparr>"
    by (simp add: valid_kv_batch_set_def schema_defs)
  from batch_set_all_or_nothing [OF this, of sample_client "''A''" sample_env "sample_world Map.empty"] bad
  show ?thesis by (simp add: Let_def)
qed

lemma kv_never_gone: "fst (kv_handle client ns q e w) = Inr v \<Longrightarrow> never_gone v"
proof -
  have "answers never_gone (kv_handle client ns q)"
    by (cases q) (auto simp: kv_handler_defs Let_def intro!: answers_intros split: pyval.split list.split option.split if_splits)
  then show "fst (kv_handle client ns q e w) = Inr v \<Longrightarrow> never_gone v" by (rule answersD)
qed

end
