(* ===== verification/MapRouter.thy ===== *)
theory MapRouter
  imports RedisDoc
begin

text \<open>
  \<open>app/routers/map.py\<close>: the hash endpoints under \<open>/ns/{ns}/map\<close>, handler by handler, and
  the interpretation of \<open>data_plane\<close>.
\<close>

section \<open>Handlers\<close>

definition batch_get_map :: "client_info \<Rightarrow> string \<Rightarrow> map_batch_get_request \<Rightarrow> ('r, pyval) act" where
  "batch_get_map client ns body =
     bnd (require_read client ns) (\<lambda>_.
     bnd (keys_act ns MAP_PREFIX (map_keys body)) (\<lambda>redis_keys.
     bnd (pipe False (map (\<lambda>rk. HGETALL rk) redis_keys)) (\<lambda>results.
     let vals = py_dict (filter (\<lambda>(k, v). truthy v) (zip (map_keys body) results))
     in ret (ok_no_ttl (PDict [(''values'', PDict vals), (''count'', PInt (int (length vals)))])
               ns ''batch'' ''hash''))))"

definition batch_set_map :: "client_info \<Rightarrow> string \<Rightarrow> map_batch_set_request \<Rightarrow> ('r, pyval) act" where
  "batch_set_map client ns body =
     bnd (require_write client ns) (\<lambda>_.
     bnd (check_values_size (concat (map (\<lambda>(key_name, flds).
            map (\<lambda>(name, value). (field_label name, value)) flds) (map_items body)))) (\<lambda>_.
     bnd (resolve_ttl (map_items_ttl body)) (\<lambda>ttl.
     bnd (keys_act ns MAP_PREFIX (map fst (map_items body))) (\<lambda>redis_keys.
     bnd (pipe True (concat (map2 (\<lambda>rk flds. [HSET rk flds, ttl_cmd rk ttl])
            redis_keys (map snd (map_items body))))) (\<lambda>_.
     ret (ok_no_ttl (PDict [(''stored'', PInt (int (length (map_items body))))]) ns ''batch'' ''hash''))))))"

definition get_map :: "client_info \<Rightarrow> string \<Rightarrow> string \<Rightarrow> ('r, pyval) act" where
  "get_map client ns key =
     bnd (require_read client ns) (\<lambda>_.
     bnd (key_act ns MAP_PREFIX key) (\<lambda>redis_key.
     bnd (pipe False [HGETALL redis_key, TTL redis_key]) (\<lambda>results.
     case results of
       [flds, ttl] \<Rightarrow>
         if \<not> truthy flds then raise (not_found key ns)
         else ret (ok (PDict [(''fields'', flds)]) ns key ''hash'' (norm_ttl ttl))
     | _ \<Rightarrow> bad_unpack)))"

definition field_not_found :: "string \<Rightarrow> string \<Rightarrow> exc" where
  "field_not_found field key =
     error ''FIELD_NOT_FOUND'' (''Field '' @ quoted field @ '' not found in key '' @ quoted key) 404"

definition get_map_field :: "client_info \<Rightarrow> string \<Rightarrow> string \<Rightarrow> string \<Rightarrow> ('r, pyval) act" where
  "get_map_field client ns key field =
     bnd (require_read client ns) (\<lambda>_.
     bnd (key_act ns MAP_PREFIX key) (\<lambda>redis_key.
     bnd (pipe False [HGET redis_key field, TTL redis_key]) (\<lambda>results.
     case results of
       [value, ttl] \<Rightarrow>
         if value = PNone then raise (field_not_found field key)
         else ret (ok (PDict [(''field'', PStr field), (''value'', value)]) ns key ''hash'' (norm_ttl ttl))
     | _ \<Rightarrow> bad_unpack)))"

text \<open>A dict of strings as an answer.\<close>

definition str_dict :: "(string \<times> string) list \<Rightarrow> pyval" where
  "str_dict kvs = PDict (map (\<lambda>(k, v). (k, PStr v)) kvs)"

text \<open>\<open>results[-1]\<close>: an empty list raises.\<close>

definition last_result :: "pyval list \<Rightarrow> ('r, pyval) act" where
  "last_result results = (if results = [] then raise (PyExc ''IndexError'') else ret (last results))"

definition set_map :: "client_info \<Rightarrow> string \<Rightarrow> string \<Rightarrow> map_set_request \<Rightarrow> ('r, pyval) act" where
  "set_map client ns key body =
     bnd (require_write client ns) (\<lambda>_.
     bnd (check_dict_values_size (map_fields body)) (\<lambda>_.
     bnd (key_act ns MAP_PREFIX key) (\<lambda>redis_key.
     bnd (resolve_ttl (map_ttl body)) (\<lambda>ttl.
     bnd (pipe True [HSET redis_key (map_fields body), ttl_cmd redis_key ttl, TTL redis_key]) (\<lambda>results.
     bnd (last_result results) (\<lambda>t.
     ret (ok (PDict [(''fields'', str_dict (map_fields body))]) ns key ''hash'' t)))))))"

definition touch_map :: "client_info \<Rightarrow> string \<Rightarrow> string \<Rightarrow> ttl_set_request \<Rightarrow> ('r, pyval) act" where
  "touch_map client ns key body =
     bnd (require_write client ns) (\<lambda>_.
     bnd (key_act ns MAP_PREFIX key) (\<lambda>redis_key.
     touch_key redis_key (touch_ttl body) ns key ''hash''))"

definition set_map_field :: "client_info \<Rightarrow> string \<Rightarrow> string \<Rightarrow> string \<Rightarrow> map_field_set_request \<Rightarrow> ('r, pyval) act" where
  "set_map_field client ns key field body =
     bnd (require_write client ns) (\<lambda>_.
     bnd (check_value_size (field_value body) ''Value'') (\<lambda>_.
     bnd (key_act ns MAP_PREFIX key) (\<lambda>redis_key.
     bnd (resolve_ttl (field_ttl body)) (\<lambda>ttl.
     let data = PDict [(''field'', PStr field), (''value'', PStr (field_value body))] in
     if ttl > 0 then
       bnd (pipe True [HSET redis_key [(field, field_value body)], EXPIRE redis_key ttl, TTL redis_key]) (\<lambda>results.
       bnd (last_result results) (\<lambda>t. ret (ok data ns key ''hash'' t)))
     else
       bnd (pipe False [HSET redis_key [(field, field_value body)], PERSIST redis_key, TTL redis_key]) (\<lambda>results.
       bnd (last_result results) (\<lambda>t. ret (ok data ns key ''hash'' (norm_ttl t))))))))"

definition delete_map :: "client_info \<Rightarrow> string \<Rightarrow> string \<Rightarrow> ('r, pyval) act" where
  "delete_map client ns key =
     bnd (require_write client ns) (\<lambda>_.
     bnd (key_act ns MAP_PREFIX key) (\<lambda>redis_key.
     bnd (send (DEL [redis_key])) (\<lambda>deleted.
     if \<not> truthy deleted then raise (not_found key ns)
     else ret (ok_no_ttl (PDict [(''deleted'', PBool True)]) ns key ''hash''))))"

definition delete_map_field :: "client_info \<Rightarrow> string \<Rightarrow> string \<Rightarrow> string \<Rightarrow> ('r, pyval) act" where
  "delete_map_field client ns key field =
     bnd (require_write client ns) (\<lambda>_.
     bnd (key_act ns MAP_PREFIX key) (\<lambda>redis_key.
     bnd (send (HDEL redis_key field)) (\<lambda>deleted.
     if \<not> truthy deleted then raise (field_not_found field key)
     else ret (ok_no_ttl (PDict [(''deleted'', PBool True), (''field'', PStr field)]) ns key ''hash''))))"

section \<open>The router\<close>

datatype map_request =
    BatchGetMap map_batch_get_request
  | BatchSetMap map_batch_set_request
  | GetMap string
  | GetMapField string string
  | SetMap string map_set_request
  | TouchMap string ttl_set_request
  | SetMapField string string map_field_set_request
  | DeleteMap string
  | DeleteMapField string string

primrec map_handle :: "client_info \<Rightarrow> string \<Rightarrow> map_request \<Rightarrow> ('r, pyval) act" where
  "map_handle client ns (BatchGetMap body) = batch_get_map client ns body"
| "map_handle client ns (BatchSetMap body) = batch_set_map client ns body"
| "map_handle client ns (GetMap key) = get_map client ns key"
| "map_handle client ns (GetMapField key field) = get_map_field client ns key field"
| "map_handle client ns (SetMap key body) = set_map client ns key body"
| "map_handle client ns (TouchMap key body) = touch_map client ns key body"
| "map_handle client ns (SetMapField key field body) = set_map_field client ns key field body"
| "map_handle client ns (DeleteMap key) = delete_map client ns key"
| "map_handle client ns (DeleteMapField key field) = delete_map_field client ns key field"

primrec map_needs :: "map_request \<Rightarrow> string" where
  "map_needs (BatchGetMap body) = ''read''"
| "map_needs (BatchSetMap body) = ''write''"
| "map_needs (GetMap key) = ''read''"
| "map_needs (GetMapField key field) = ''read''"
| "map_needs (SetMap key body) = ''write''"
| "map_needs (TouchMap key body) = ''write''"
| "map_needs (SetMapField key field body) = ''write''"
| "map_needs (DeleteMap key) = ''write''"
| "map_needs (DeleteMapField key field) = ''write''"

primrec map_valid :: "map_request \<Rightarrow> bool" where
  "map_valid (BatchGetMap body) = valid_map_batch_get body"
| "map_valid (BatchSetMap body) = valid_map_batch_set body"
| "map_valid (GetMap key) = True"
| "map_valid (GetMapField key field) = True"
| "map_valid (SetMap key body) = valid_map_set body"
| "map_valid (TouchMap key body) = valid_ttl_set body"
| "map_valid (SetMapField key field body) = valid_map_field_set body"
| "map_valid (DeleteMap key) = True"
| "map_valid (DeleteMapField key field) = True"

section \<open>The router keeps to its keys\<close>

lemmas map_handler_defs = batch_get_map_def batch_set_map_def get_map_def get_map_field_def set_map_def
  touch_map_def set_map_field_def delete_map_def delete_map_field_def

lemma confined_last_result [confined_intros]: "confined P (last_result rs)"
  unfolding last_result_def by (intro confined_intros)

lemma map_handle_own: "map_valid q \<Longrightarrow> confined (own_cmd ns MAP_PREFIX) (map_handle client ns q)"
  by (cases q)
     (auto simp: map_handler_defs Let_def
       intro!: confined_intros confined_router
       split: list.split)

lemma map_handle_guarded:
  "\<not> check_access client ns (map_needs q) \<Longrightarrow> map_handle client ns q e w =
     (Inl (access_denied client ns (map_needs q)), after_denial ''namespace_denied'' ''NAMESPACE_DENIED'' w)"
  by (cases q) (simp_all add: map_handler_defs require_read_def require_write_def bnd_apply require_access_apply)

lemma map_prefix_no_colon: "colon \<notin> set MAP_PREFIX"
  by (simp add: MAP_PREFIX_def)

interpretation hm: data_plane map_handle map_needs map_valid MAP_PREFIX
  by unfold_locales (simp_all add: map_handle_guarded map_handle_own map_prefix_no_colon)

section \<open>Functional behaviour\<close>

text \<open>The writes whose answer is the TTL of their own transaction, as it is.\<close>

primrec in_transaction :: "map_request \<Rightarrow> bool" where
  "in_transaction (BatchGetMap body) = False"
| "in_transaction (BatchSetMap body) = False"
| "in_transaction (GetMap key) = False"
| "in_transaction (GetMapField key field) = False"
| "in_transaction (SetMap key body) = True"
| "in_transaction (TouchMap key body) = False"
| "in_transaction (SetMapField key field body) = True"
| "in_transaction (DeleteMap key) = False"
| "in_transaction (DeleteMapField key field) = False"

lemma map_never_gone: "\<not> in_transaction q \<Longrightarrow> fst (map_handle client ns q e w) = Inr v \<Longrightarrow> never_gone v"
proof -
  assume "\<not> in_transaction q"
  then have "answers never_gone (map_handle client ns q)"
    by (cases q) (auto simp: map_handler_defs Let_def intro!: answers_intros split: if_splits list.split)
  then show "fst (map_handle client ns q e w) = Inr v \<Longrightarrow> never_gone v" by (rule answersD)
qed

lemma hash_put_snoc: "hash_put (kvs @ [(f, v)]) h = AList.update f v (hash_put kvs h)"
  by (simp add: hash_put_def)

lemma hash_put_nonempty: "kvs \<noteq> [] \<Longrightarrow> hash_put kvs h \<noteq> []"
  by (cases kvs rule: rev_cases) (auto simp: hash_put_snoc)

lemma map_of_hash_put: "map_of (hash_put kvs h) f = (case map_of (rev kvs) f of Some v \<Rightarrow> Some v | None \<Rightarrow> map_of h f)"
  by (simp add: hash_put_def py_dict_foldl_map_of)

lemma set_map_doc:
  fixes e :: "'r env" and w :: "'r world" and body :: map_set_request
  assumes doc: "documented_redis (redis e) view" and acc: "check_access client ns ''write''"
    and key: "ns_matches ns" "key_matches key" and valid: "valid_map_set body"
    and size: "\<forall>(f, v) \<in> set (map_fields body). fits e v"
    and at: "hash_at (view (rstate w)) (join_key ns MAP_PREFIX key) = Some (h, t0)"
  defines "t \<equiv> effective_ttl (conf e) (map_ttl body)"
  shows "\<exists>w'. set_map client ns key body e w =
      (Inr (ok (PDict [(''fields'', str_dict (map_fields body))]) ns key ''hash'' (PInt (if t > 0 then t else -1))), w')
    \<and> view (rstate w') = (view (rstate w))(join_key ns MAP_PREFIX key \<mapsto>
         Entry (RHash (hash_put (map_fields body) h)) (if t > 0 then Some t else None))"
proof -
  let ?k = "join_key ns MAP_PREFIX key"
  let ?cs = "[HSET ?k (map_fields body), ttl_cmd ?k t, TTL ?k]"
  have "list_all covered ?cs" by (simp add: ttl_cmd_def)
  from pipe_docE [OF doc this, of True w] obtain s where
    s: "pipe True ?cs e w = (map_sum RedisExc id (fst (doc_pipe ?cs (view (rstate w)))), w\<lparr>rstate := s, sent := sent w @ ?cs\<rparr>)"
    "view s = snd (doc_pipe ?cs (view (rstate w)))" by blast
  have ne: "hash_put (map_fields body) h \<noteq> []"
    using valid by (intro hash_put_nonempty) (auto simp: valid_map_set_def)
  have sizes: "check_dict_values_size (map_fields body) e w = (Inr (), w)"
    using size by (auto simp: check_dict_values_size_def intro!: check_values_size_fits)
  show ?thesis
    using acc key at ne s sizes unfolding t_def
    by (auto simp: set_map_def require_write_def act_simps key_act_ok ttl_cmd_def last_result_def split: if_splits)
qed

lemma get_map_field_doc:
  fixes e :: "'r env" and w :: "'r world"
  assumes doc: "documented_redis (redis e) view" and acc: "check_access client ns ''read''"
    and key: "ns_matches ns" "key_matches key"
    and at: "hash_at (view (rstate w)) (join_key ns MAP_PREFIX key) = Some (h, t0)" and f: "map_of h f = Some v"
  shows "\<exists>a w'. get_map_field client ns key f e w = (Inr a, w') \<and> data_field a ''value'' = Some (PStr v)"
proof -
  let ?k = "join_key ns MAP_PREFIX key"
  let ?cs = "[HGET ?k f, TTL ?k]"
  have "list_all covered ?cs" by simp
  from pipe_docE [OF doc this, of False w] obtain s where
    s: "pipe False ?cs e w = (map_sum RedisExc id (fst (doc_pipe ?cs (view (rstate w)))), w\<lparr>rstate := s, sent := sent w @ ?cs\<rparr>)"
    by blast
  then show ?thesis
    using acc key at f by (auto simp: get_map_field_def require_read_def act_simps key_act_ok)
qed

lemma map_of_rev_distinct: "distinct (map fst kvs) \<Longrightarrow> map_of (rev kvs) = map_of kvs"
  by (subst map_of_inject_set) (simp_all add: rev_map [symmetric])

text \<open>A write of several fields merges into the hash: afterwards every field of the request reads
  back with its new value and every other field with its old one.\<close>

theorem map_fields_merge:
  fixes e :: "'r env" and w :: "'r world" and body :: map_set_request
  assumes "documented_redis (redis e) view" and "check_access writer ns ''write''" and "check_access reader ns ''read''"
    and "ns_matches ns" and "key_matches key" and "valid_map_set body"
    and "\<forall>(f, v) \<in> set (map_fields body). fits e v"
    and "hash_at (view (rstate w)) (join_key ns MAP_PREFIX key) = Some (h, t0)"
    and "(case map_of (map_fields body) f of Some v \<Rightarrow> Some v | None \<Rightarrow> map_of h f) = Some v"
  shows "let (r, w') = set_map writer ns key body e w
    in (\<exists>a. r = Inr a) \<and> (\<exists>b. fst (get_map_field reader ns key f e w') = Inr b \<and> data_field b ''value'' = Some (PStr v))"
proof -
  let ?k = "join_key ns MAP_PREFIX key" and ?h = "hash_put (map_fields body) h"
  from set_map_doc [OF assms(1,2,4-8)] obtain a w' t where
    r: "set_map writer ns key body e w = (Inr a, w')" and v: "view (rstate w') ?k = Some (Entry (RHash ?h) t)"
    by fastforce
  have at: "hash_at (view (rstate w')) ?k = Some (?h, t)" by (simp add: v hash_at_def)
  have d: "distinct (map fst (map_fields body))" using assms(6) by (simp add: valid_map_set_def is_dict_def)
  have "map_of ?h f = Some v" using assms(9) d by (simp add: map_of_hash_put map_of_rev_distinct)
  from get_map_field_doc [OF assms(1,3-5) at this] r show ?thesis by auto
qed

theorem map_fields_merge_witness:
  "let ks = [join_key ''A'' MAP_PREFIX ''k'' \<mapsto> Entry (RHash [(''f'', ''old''), (''g'', ''kept'')]) None];
       w' = snd (set_map sample_client ''A'' ''k'' \<lparr>map_fields = [(''f'', ''new'')], map_ttl = None\<rparr> sample_env (sample_world ks))
   in \<exists>b. fst (get_map_field sample_client ''A'' ''k'' ''g'' sample_env w') = Inr b \<and> data_field b ''value'' = Some (PStr ''kept'')"
proof -
  let ?ks = "[join_key ''A'' MAP_PREFIX ''k'' \<mapsto> Entry (RHash [(''f'', ''old''), (''g'', ''kept'')]) None]"
  let ?b = "\<lparr>map_fields = [(''f'', ''new'')], map_ttl = None\<rparr>"
  have "valid_map_set ?b" by (simp add: valid_map_set_def schema_defs)
  from map_fields_merge [OF sample_doc sample_access(2,1) sample_ns sample_key(1) this, where w = "sample_world ?ks"
      and h = "[(''f'', ''old''), (''g'', ''kept'')]" and f = "''g''" and v = "''kept''"]
  show ?thesis by (simp add: sample_fits hash_at_def Let_def case_prod_beta)
qed

end
