(* ===== verification/Queue.thy ===== *)
theory Queue
  imports RedisDoc
begin

text \<open>
  \<open>app/routers/queue.py\<close>: the list endpoints under \<open>/ns/{ns}/queue\<close>, with the two Lua
  scripts that check the bound and push in one step.
\<close>

section \<open>The Lua scripts\<close>

text \<open>
  \<open>tonumber\<close> on the decimal text the handlers pass. A comparison of the length with a value
  that is no number, or a length that is none, is a script error. \<open>return -1\<close> arrives at the
  client as the integer -1.
\<close>

definition script_error :: rerr where
  "script_error = ResponseError ''ERR Error running script''"

definition push_cmd :: "direction \<Rightarrow> string \<Rightarrow> string \<Rightarrow> cmd" where
  "push_cmd d key value = (case d of DLeft \<Rightarrow> LPUSH key value | DRight \<Rightarrow> RPUSH key value)"

definition single_push_lua :: "direction \<Rightarrow> string list \<Rightarrow> string list \<Rightarrow> 'r redis \<Rightarrow> 'r \<Rightarrow> 'r reply" where
  "single_push_lua d keys args srv s0 =
     (case (keys, args) of
        ([key], [value, limit]) \<Rightarrow>
          (case lua_call srv (LLEN key) s0 of
             (Inl err, s1) \<Rightarrow> (Inl err, s1)
           | (Inr (PInt n), s1) \<Rightarrow>
               (case py_int limit of
                  None \<Rightarrow> (Inl script_error, s1)
                | Some m \<Rightarrow> if n \<ge> m then (Inr (PInt (-1)), s1) else lua_call srv (push_cmd d key value) s1)
           | (Inr _, s1) \<Rightarrow> (Inl script_error, s1))
      | _ \<Rightarrow> (Inl script_error, s0))"

text \<open>\<open>for i=3,#ARGV do redis.call(cmd, KEYS[1], ARGV[i]) end\<close>: the first error ends the script.\<close>

fun push_loop :: "'r redis \<Rightarrow> direction \<Rightarrow> string \<Rightarrow> string list \<Rightarrow> 'r \<Rightarrow> (rerr + unit) \<times> 'r" where
  "push_loop srv d key [] s = (Inr (), s)"
| "push_loop srv d key (v # vs) s =
     (case lua_call srv (push_cmd d key v) s of
        (Inl err, s') \<Rightarrow> (Inl err, s')
      | (Inr _, s') \<Rightarrow> push_loop srv d key vs s')"

definition batch_push_lua :: "direction \<Rightarrow> string list \<Rightarrow> string list \<Rightarrow> 'r redis \<Rightarrow> 'r \<Rightarrow> 'r reply" where
  "batch_push_lua d keys args srv s0 =
     (case (keys, args) of
        ([key], limit # count # vs) \<Rightarrow>
          (case lua_call srv (LLEN key) s0 of
             (Inl err, s1) \<Rightarrow> (Inl err, s1)
           | (Inr (PInt cur), s1) \<Rightarrow>
               (case (py_int limit, py_int count) of
                  (Some m, Some cnt) \<Rightarrow>
                    if cur + cnt > m then (Inr (PInt (-1)), s1)
                    else (case push_loop srv d key vs s1 of
                            (Inl err, s2) \<Rightarrow> (Inl err, s2)
                          | (Inr _, s2) \<Rightarrow> (Inr (PInt (cur + cnt)), s2))
                | _ \<Rightarrow> (Inl script_error, s1))
           | (Inr _, s1) \<Rightarrow> (Inl script_error, s1))
      | _ \<Rightarrow> (Inl script_error, s0))"

definition lua_source :: "lua_script \<Rightarrow> string list \<Rightarrow> string list \<Rightarrow> 'r redis \<Rightarrow> 'r \<Rightarrow> 'r reply" where
  "lua_source scr = (case scr of SinglePush d \<Rightarrow> single_push_lua d | BatchPush d \<Rightarrow> batch_push_lua d)"

text \<open>
  \<open>_script_cache\<close> keeps the script object with the client it was registered with; the start of a worker
  is the only place that makes a client, so this is the client of the request.
\<close>

definition script_call :: "lua_script \<Rightarrow> string list \<Rightarrow> string list \<Rightarrow> ('r, pyval) act" where
  "script_call scr keys args = run_script (EVALSHA scr keys args) (lua_source scr keys args)"

section \<open>Handlers\<close>

definition batch_push_queue :: "client_info \<Rightarrow> string \<Rightarrow> string \<Rightarrow> queue_batch_push_request \<Rightarrow> ('r, pyval) act" where
  "batch_push_queue client ns key body =
     bnd (require_write client ns) (\<lambda>_.
     bnd (check_values_size (map (\<lambda>v. (''Value'', v)) (push_values body))) (\<lambda>_.
     bnd (key_act ns QUEUE_PREFIX key) (\<lambda>redis_key.
     bnd get_settings (\<lambda>s.
     let max_len = max_list_length (defaults s) in
     bnd (script_call (BatchPush (batch_direction body)) [redis_key]
            ([int_str max_len, int_str (int (length (push_values body)))] @ push_values body)) (\<lambda>result.
     if eq_int result (-1) then
       raise (error ''QUEUE_FULL'' (''Queue '' @ quoted key @ '' would exceed max length ('' @ int_str max_len @ '')'') 400)
     else
       bnd (resolve_ttl (batch_push_ttl body)) (\<lambda>ttl.
       bnd (pipe False [ttl_cmd redis_key ttl, TTL redis_key]) (\<lambda>ttl_results.
       if ttl_results = [] then raise (PyExc ''IndexError'')
       else ret (ok (PDict [(''length'', result), (''pushed'', PInt (int (length (push_values body))))])
                   ns key ''list'' (norm_ttl (last ttl_results))))))))))"

definition push_queue :: "client_info \<Rightarrow> string \<Rightarrow> string \<Rightarrow> queue_push_request \<Rightarrow> ('r, pyval) act" where
  "push_queue client ns key body =
     bnd (require_write client ns) (\<lambda>_.
     bnd (check_value_size (push_value body) ''Value'') (\<lambda>_.
     bnd get_settings (\<lambda>s.
     bnd (key_act ns QUEUE_PREFIX key) (\<lambda>redis_key.
     let max_len = max_list_length (defaults s) in
     bnd (script_call (SinglePush (push_direction body)) [redis_key] [push_value body, int_str max_len]) (\<lambda>result.
     if eq_int result (-1) then
       raise (error ''QUEUE_FULL'' (''Queue '' @ quoted key @ '' has reached max length ('' @ int_str max_len @ '')'') 400)
     else
       bnd (resolve_ttl (push_ttl body)) (\<lambda>ttl.
       bnd (pipe False [ttl_cmd redis_key ttl, TTL redis_key]) (\<lambda>ttl_results.
       if ttl_results = [] then raise (PyExc ''IndexError'')
       else ret (ok (PDict [(''length'', result)]) ns key ''list'' (norm_ttl (last ttl_results))))))))))"

definition pop_queue :: "client_info \<Rightarrow> string \<Rightarrow> string \<Rightarrow> direction \<Rightarrow> ('r, pyval) act" where
  "pop_queue client ns key direction =
     bnd (require_write client ns) (\<lambda>_.
     bnd (key_act ns QUEUE_PREFIX key) (\<lambda>redis_key.
     bnd (send (if direction = DRight then RPOP redis_key else LPOP redis_key)) (\<lambda>value.
     if value = PNone then raise (error ''QUEUE_EMPTY'' (''Queue '' @ quoted key @ '' is empty'') 404)
     else ret (ok_no_ttl (PDict [(''value'', value)]) ns key ''list''))))"

text \<open>\<open>len(values)\<close> of what a command answers with a list.\<close>

definition list_reply :: "pyval \<Rightarrow> ('r, pyval list) act" where
  "list_reply v = (case v of PList vs \<Rightarrow> ret vs | _ \<Rightarrow> raise (PyExc ''TypeError''))"

definition range_queue :: "client_info \<Rightarrow> string \<Rightarrow> string \<Rightarrow> int \<Rightarrow> int \<Rightarrow> ('r, pyval) act" where
  "range_queue client ns key start stop =
     bnd (require_read client ns) (\<lambda>_.
     bnd (key_act ns QUEUE_PREFIX key) (\<lambda>redis_key.
     bnd (send (LRANGE redis_key start stop)) (\<lambda>v.
     bnd (list_reply v) (\<lambda>vals.
     ret (ok_no_ttl (PDict [(''values'', PList vals), (''count'', PInt (int (length vals)))]) ns key ''list'')))))"

definition len_queue :: "client_info \<Rightarrow> string \<Rightarrow> string \<Rightarrow> ('r, pyval) act" where
  "len_queue client ns key =
     bnd (require_read client ns) (\<lambda>_.
     bnd (key_act ns QUEUE_PREFIX key) (\<lambda>redis_key.
     bnd (send (LLEN redis_key)) (\<lambda>len.
     ret (ok_no_ttl (PDict [(''length'', len)]) ns key ''list''))))"

definition delete_queue :: "client_info \<Rightarrow> string \<Rightarrow> string \<Rightarrow> ('r, pyval) act" where
  "delete_queue client ns key =
     bnd (require_write client ns) (\<lambda>_.
     bnd (key_act ns QUEUE_PREFIX key) (\<lambda>redis_key.
     bnd (send (DEL [redis_key])) (\<lambda>deleted.
     if \<not> truthy deleted then raise (not_found key ns)
     else ret (ok_no_ttl (PDict [(''deleted'', PBool True)]) ns key ''list''))))"

definition touch_queue :: "client_info \<Rightarrow> string \<Rightarrow> string \<Rightarrow> ttl_set_request \<Rightarrow> ('r, pyval) act" where
  "touch_queue client ns key body =
     bnd (require_write client ns) (\<lambda>_.
     bnd (key_act ns QUEUE_PREFIX key) (\<lambda>redis_key.
     touch_key redis_key (touch_ttl body) ns key ''list''))"

definition trim_queue :: "client_info \<Rightarrow> string \<Rightarrow> string \<Rightarrow> queue_trim_request \<Rightarrow> ('r, pyval) act" where
  "trim_queue client ns key body =
     bnd (require_write client ns) (\<lambda>_.
     bnd (key_act ns QUEUE_PREFIX key) (\<lambda>redis_key.
     bnd (send (LTRIM redis_key (- trim_keep body) (-1))) (\<lambda>_.
     bnd (send (LLEN redis_key)) (\<lambda>len.
     ret (ok_no_ttl (PDict [(''kept'', len), (''length'', len)]) ns key ''list'')))))"

section \<open>The router\<close>

datatype queue_request =
    BatchPushQueue string queue_batch_push_request
  | PushQueue string queue_push_request
  | PopQueue string direction
  | RangeQueue string int int
  | LenQueue string
  | DeleteQueue string
  | TouchQueue string ttl_set_request
  | TrimQueue string queue_trim_request

primrec queue_handle :: "client_info \<Rightarrow> string \<Rightarrow> queue_request \<Rightarrow> ('r, pyval) act" where
  "queue_handle client ns (BatchPushQueue key body) = batch_push_queue client ns key body"
| "queue_handle client ns (PushQueue key body) = push_queue client ns key body"
| "queue_handle client ns (PopQueue key direction) = pop_queue client ns key direction"
| "queue_handle client ns (RangeQueue key start stop) = range_queue client ns key start stop"
| "queue_handle client ns (LenQueue key) = len_queue client ns key"
| "queue_handle client ns (DeleteQueue key) = delete_queue client ns key"
| "queue_handle client ns (TouchQueue key body) = touch_queue client ns key body"
| "queue_handle client ns (TrimQueue key body) = trim_queue client ns key body"

primrec queue_needs :: "queue_request \<Rightarrow> string" where
  "queue_needs (BatchPushQueue key body) = ''write''"
| "queue_needs (PushQueue key body) = ''write''"
| "queue_needs (PopQueue key direction) = ''write''"
| "queue_needs (RangeQueue key start stop) = ''read''"
| "queue_needs (LenQueue key) = ''read''"
| "queue_needs (DeleteQueue key) = ''write''"
| "queue_needs (TouchQueue key body) = ''write''"
| "queue_needs (TrimQueue key body) = ''write''"

primrec queue_valid :: "queue_request \<Rightarrow> bool" where
  "queue_valid (BatchPushQueue key body) = valid_queue_batch_push body"
| "queue_valid (PushQueue key body) = valid_queue_push body"
| "queue_valid (PopQueue key direction) = True"
| "queue_valid (RangeQueue key start stop) = True"
| "queue_valid (LenQueue key) = True"
| "queue_valid (DeleteQueue key) = True"
| "queue_valid (TouchQueue key body) = valid_ttl_set body"
| "queue_valid (TrimQueue key body) = valid_queue_trim body"

section \<open>The router keeps to its keys\<close>

lemmas queue_handler_defs = batch_push_queue_def push_queue_def pop_queue_def range_queue_def len_queue_def
  delete_queue_def touch_queue_def trim_queue_def

lemma confined_script_call [confined_intros]:
  "P (EVALSHA scr keys args) \<Longrightarrow> confined P (script_call scr keys args)"
  unfolding script_call_def by (intro confined_intros)

lemma confined_list_reply [confined_intros]: "confined P (list_reply v)"
  by (cases v) (simp_all add: list_reply_def confined_intros)

lemma queue_handle_own: "queue_valid q \<Longrightarrow> confined (own_cmd ns QUEUE_PREFIX) (queue_handle client ns q)"
  by (cases q)
     (auto simp: queue_handler_defs Let_def
       intro!: confined_intros confined_router)

lemma queue_handle_guarded:
  "\<not> check_access client ns (queue_needs q) \<Longrightarrow> queue_handle client ns q e w =
     (Inl (access_denied client ns (queue_needs q)), after_denial ''namespace_denied'' ''NAMESPACE_DENIED'' w)"
  by (cases q) (simp_all add: queue_handler_defs require_read_def require_write_def bnd_apply require_access_apply)

lemma queue_prefix_no_colon: "colon \<notin> set QUEUE_PREFIX"
  by (simp add: QUEUE_PREFIX_def)

interpretation qu: data_plane queue_handle queue_needs queue_valid QUEUE_PREFIX
  by unfold_locales (simp_all add: queue_handle_guarded queue_handle_own queue_prefix_no_colon)

section \<open>Functional behaviour\<close>

text \<open>What a push leaves in the list.\<close>

definition pushed :: "direction \<Rightarrow> string \<Rightarrow> string list \<Rightarrow> string list" where
  "pushed d v xs = (case d of DLeft \<Rightarrow> v # xs | DRight \<Rightarrow> xs @ [v])"

lemma pushed_simps [simp]: "pushed d v xs \<noteq> []" "length (pushed d v xs) = length xs + 1"
  by (cases d; simp add: pushed_def)+

lemma push_doc_step:
  "list_at ks k = Some (xs, t) \<Longrightarrow>
   doc_step (push_cmd d k v) ks = (Inr (PInt (int (length xs) + 1)), ks(k \<mapsto> Entry (RList (pushed d v xs)) t))"
  by (cases d) (auto simp: push_cmd_def pushed_def store_def)

lemma list_at_pushed [simp]: "list_at (ks(k \<mapsto> Entry (RList xs) t)) k = Some (xs, t)"
  by (simp add: list_at_def)

lemma lua_docE:
  assumes "documented_redis srv view" and "covered c"
  obtains s' where "lua_call srv c s = (fst (doc_step c (view s)), s')" and "view s' = snd (doc_step c (view s))"
proof -
  obtain r s' where eq: "lua_call srv c s = (r, s')" by fastforce
  have "(fst (lua_call srv c s), view (snd (lua_call srv c s))) = doc_step c (view s)"
    using assms by (simp add: documented_redis_def)
  then show ?thesis using that [of s'] eq by (metis fst_conv snd_conv)
qed

lemma covered_push [simp]: "covered (push_cmd d k v)"
  by (cases d) (simp_all add: push_cmd_def)

lemma lua_push_docE:
  assumes "documented_redis srv view" and "list_at (view s) k = Some (xs, t)"
  obtains s' where "lua_call srv (push_cmd d k v) s = (Inr (PInt (int (length xs) + 1)), s')"
    and "view s' = (view s)(k \<mapsto> Entry (RList (pushed d v xs)) t)"
  by (rule lua_docE [OF assms(1) covered_push, of d k v s]) (use that in \<open>simp add: push_doc_step [OF assms(2)]\<close>)

lemma single_push_doc:
  assumes doc: "documented_redis srv view" and at: "list_at (view s) k = Some (xs, t)"
  shows "\<exists>s'. single_push_lua d [k] [v, int_str m] srv s =
      (Inr (PInt (if int (length xs) \<ge> m then -1 else int (length xs) + 1)), s') \<and>
      view s' = (if int (length xs) \<ge> m then view s else (view s)(k \<mapsto> Entry (RList (pushed d v xs)) t))"
proof -
  obtain s1 where s1: "lua_call srv (LLEN k) s = (Inr (PInt (int (length xs))), s1)" "view s1 = view s"
    using lua_docE [OF doc, of "LLEN k" s] at by (auto split: option.splits)
  show ?thesis
  proof (cases "int (length xs) \<ge> m")
    case True
    then show ?thesis using s1 by (simp add: single_push_lua_def py_int_int_str)
  next
    case False
    obtain s2 where "lua_call srv (push_cmd d k v) s1 = (Inr (PInt (int (length xs) + 1)), s2)"
      "view s2 = (view s)(k \<mapsto> Entry (RList (pushed d v xs)) t)"
      using lua_push_docE [OF doc, of s1 k xs t d v] at s1(2) by metis
    then show ?thesis using False s1 by (simp add: single_push_lua_def py_int_int_str)
  qed
qed

lemma push_loop_doc:
  assumes doc: "documented_redis srv view" and at: "list_at (view s) k = Some (xs, t)"
  shows "\<exists>s'. push_loop srv d k vs s = (Inr (), s') \<and>
      view s' = (if vs = [] then view s else (view s)(k \<mapsto> Entry (RList (fold (pushed d) vs xs)) t))"
  using at
proof (induction vs arbitrary: s xs)
  case Nil
  then show ?case by simp
next
  case (Cons v vs)
  obtain s1 where s1: "lua_call srv (push_cmd d k v) s = (Inr (PInt (int (length xs) + 1)), s1)"
    "view s1 = (view s)(k \<mapsto> Entry (RList (pushed d v xs)) t)"
    by (rule lua_push_docE [OF doc Cons.prems, of d v])
  have "list_at (view s1) k = Some (pushed d v xs, t)" by (simp add: s1(2))
  from Cons.IH [OF this] s1 show ?case by (auto simp: fun_eq_iff)
qed

lemma batch_push_doc:
  assumes doc: "documented_redis srv view" and at: "list_at (view s) k = Some (xs, t)" and ne: "vs \<noteq> []"
  defines "n \<equiv> int (length xs) + int (length vs)"
  shows "\<exists>s'. batch_push_lua d [k] (int_str m # int_str (int (length vs)) # vs) srv s =
      (Inr (PInt (if n > m then -1 else n)), s') \<and>
      view s' = (if n > m then view s else (view s)(k \<mapsto> Entry (RList (fold (pushed d) vs xs)) t))"
proof -
  obtain s1 where s1: "lua_call srv (LLEN k) s = (Inr (PInt (int (length xs))), s1)" "view s1 = view s"
    using lua_docE [OF doc, of "LLEN k" s] at by (auto split: option.splits)
  have "list_at (view s1) k = Some (xs, t)" using at s1(2) by simp
  from push_loop_doc [OF doc this, of d vs] obtain s2 where
    s2: "push_loop srv d k vs s1 = (Inr (), s2)" "view s2 = (view s)(k \<mapsto> Entry (RList (fold (pushed d) vs xs)) t)"
    using ne s1(2) by auto
  show ?thesis using s1 s2 unfolding n_def by (auto simp: batch_push_lua_def py_int_int_str)
qed

lemma script_docE:
  assumes doc: "documented_redis (redis e) view"
    and run: "lua_source scr keys args (redis e) (rstate w) = (Inr v, s)"
  shows "script_call scr keys args e w = (Inr v, w\<lparr>rstate := s, sent := sent w @ [EVALSHA scr keys args]\<rparr>)"
proof -
  have "evalsha (redis e) (lua_source scr keys args (redis e)) (rstate w) = (Inr v, s)"
    using doc run by (simp add: documented_redis_def)
  then show ?thesis by (simp add: script_call_def run_script_def)
qed

definition new_ttl :: "int \<Rightarrow> int option" where
  "new_ttl t = (if t > 0 then Some t else None)"

text \<open>The outcome of a push: the answer with the new length, or \<open>QUEUE_FULL\<close>.\<close>

lemma push_queue_doc:
  fixes e :: "'r env" and w :: "'r world" and body :: queue_push_request
  assumes doc: "documented_redis (redis e) view" and acc: "check_access client ns ''write''"
    and key: "ns_matches ns" "key_matches key" and size: "fits e (push_value body)"
    and at: "list_at (view (rstate w)) (join_key ns QUEUE_PREFIX key) = Some (xs, t0)"
  defines "m \<equiv> max_list_length (defaults (conf e))"
  shows "\<exists>r w'. push_queue client ns key body e w = (r, w') \<and>
     (if int (length xs) \<ge> m
      then (\<exists>msg. r = Inl (error ''QUEUE_FULL'' msg 400)) \<and> view (rstate w') = view (rstate w)
      else (\<exists>a. r = Inr a \<and> data_field a ''length'' = Some (PInt (int (length xs) + 1))) \<and>
           view (rstate w') = (view (rstate w))(join_key ns QUEUE_PREFIX key \<mapsto>
             Entry (RList (pushed (push_direction body) (push_value body) xs))
               (new_ttl (effective_ttl (conf e) (push_ttl body)))))"
proof -
  let ?k = "join_key ns QUEUE_PREFIX key" and ?d = "push_direction body" and ?v = "push_value body"
  let ?t = "effective_ttl (conf e) (push_ttl body)"
  let ?scr = "EVALSHA (SinglePush ?d) [?k] [?v, int_str m]"
  from single_push_doc [OF doc at, of ?d ?v m] obtain s where
    s: "single_push_lua ?d [?k] [?v, int_str m] (redis e) (rstate w) =
         (Inr (PInt (if int (length xs) \<ge> m then -1 else int (length xs) + 1)), s)"
    "view s = (if int (length xs) \<ge> m then view (rstate w)
               else (view (rstate w))(?k \<mapsto> Entry (RList (pushed ?d ?v xs)) t0))" by blast
  let ?w1 = "w\<lparr>rstate := s, sent := sent w @ [?scr]\<rparr>"
  have run: "script_call (SinglePush ?d) [?k] [?v, int_str m] e w =
      (Inr (PInt (if int (length xs) \<ge> m then -1 else int (length xs) + 1)), ?w1)"
    by (rule script_docE [OF doc]) (simp add: lua_source_def s(1))
  let ?cs = "[ttl_cmd ?k ?t, TTL ?k]"
  have "list_all covered ?cs" by (simp add: ttl_cmd_def)
  from pipe_docE [OF doc this, of False ?w1] obtain s2 where
    s2: "pipe False ?cs e ?w1 = (map_sum RedisExc id (fst (doc_pipe ?cs (view s))), ?w1\<lparr>rstate := s2, sent := sent ?w1 @ ?cs\<rparr>)"
    "view s2 = snd (doc_pipe ?cs (view s))" by auto
  show ?thesis
    using acc key size run s s2 unfolding m_def
    by (auto simp: push_queue_def require_write_def act_simps key_act_ok fits_size_check Let_def new_ttl_def ttl_cmd_def error_def
        split: if_splits)
qed

lemma batch_push_queue_doc:
  fixes e :: "'r env" and w :: "'r world" and body :: queue_batch_push_request
  assumes doc: "documented_redis (redis e) view" and acc: "check_access client ns ''write''"
    and key: "ns_matches ns" "key_matches key" and size: "\<forall>v \<in> set (push_values body). fits e v"
    and ne: "push_values body \<noteq> []"
    and at: "list_at (view (rstate w)) (join_key ns QUEUE_PREFIX key) = Some (xs, t0)"
  defines "m \<equiv> max_list_length (defaults (conf e))"
    and "n \<equiv> int (length xs) + int (length (push_values body))"
  shows "\<exists>r w'. batch_push_queue client ns key body e w = (r, w') \<and>
     (if n > m
      then (\<exists>msg. r = Inl (error ''QUEUE_FULL'' msg 400)) \<and> view (rstate w') = view (rstate w)
      else (\<exists>a. r = Inr a \<and> data_field a ''length'' = Some (PInt n)) \<and>
           view (rstate w') = (view (rstate w))(join_key ns QUEUE_PREFIX key \<mapsto>
             Entry (RList (fold (pushed (batch_direction body)) (push_values body) xs))
               (new_ttl (effective_ttl (conf e) (batch_push_ttl body)))))"
proof -
  let ?k = "join_key ns QUEUE_PREFIX key" and ?d = "batch_direction body" and ?vs = "push_values body"
  let ?t = "effective_ttl (conf e) (batch_push_ttl body)"
  let ?args = "int_str m # int_str (int (length ?vs)) # ?vs"
  let ?scr = "EVALSHA (BatchPush ?d) [?k] ?args"
  from batch_push_doc [OF doc at ne, of ?d m] obtain s where
    s: "batch_push_lua ?d [?k] ?args (redis e) (rstate w) = (Inr (PInt (if n > m then -1 else n)), s)"
    "view s = (if n > m then view (rstate w)
               else (view (rstate w))(?k \<mapsto> Entry (RList (fold (pushed ?d) ?vs xs)) t0))"
    unfolding n_def by blast
  let ?w1 = "w\<lparr>rstate := s, sent := sent w @ [?scr]\<rparr>"
  have run: "script_call (BatchPush ?d) [?k] ?args e w = (Inr (PInt (if n > m then -1 else n)), ?w1)"
    by (rule script_docE [OF doc]) (simp add: lua_source_def s(1))
  have sizes: "check_values_size (map (\<lambda>v. (''Value'', v)) ?vs) e w = (Inr (), w)"
    using size by (auto intro!: check_values_size_fits)
  have n: "n \<noteq> -1" unfolding n_def by simp
  let ?cs = "[ttl_cmd ?k ?t, TTL ?k]"
  have "list_all covered ?cs" by (simp add: ttl_cmd_def)
  from pipe_docE [OF doc this, of False ?w1] obtain s2 where
    s2: "pipe False ?cs e ?w1 = (map_sum RedisExc id (fst (doc_pipe ?cs (view s))), ?w1\<lparr>rstate := s2, sent := sent ?w1 @ ?cs\<rparr>)"
    "view s2 = snd (doc_pipe ?cs (view s))" by auto
  show ?thesis
    using acc key sizes run s s2 n unfolding m_def
    by (auto simp: batch_push_queue_def require_write_def act_simps key_act_ok Let_def new_ttl_def ttl_cmd_def error_def
        split: if_splits)
qed

lemma pop_queue_doc:
  fixes e :: "'r env" and w :: "'r world" and d :: direction
  assumes doc: "documented_redis (redis e) view" and acc: "check_access client ns ''write''"
    and key: "ns_matches ns" "key_matches key"
    and at: "list_at (view (rstate w)) (join_key ns QUEUE_PREFIX key) = Some (xs, t0)"
  shows "\<exists>r w'. pop_queue client ns key d e w = (r, w') \<and>
     (if xs = []
      then (\<exists>msg. r = Inl (error ''QUEUE_EMPTY'' msg 404)) \<and> view (rstate w') = view (rstate w)
      else (\<exists>a. r = Inr a \<and> data_field a ''value'' = Some (PStr (if d = DLeft then hd xs else last xs))) \<and>
           view (rstate w') = store (join_key ns QUEUE_PREFIX key)
             (RList (if d = DLeft then tl xs else butlast xs)) t0 (view (rstate w)))"
proof -
  let ?k = "join_key ns QUEUE_PREFIX key"
  let ?c = "if d = DRight then RPOP ?k else LPOP ?k"
  have "covered ?c" by simp
  from send_docE [OF doc this, of w] obtain s where
    s: "send ?c e w = (map_sum RedisExc id (fst (doc_step ?c (view (rstate w)))), w\<lparr>rstate := s, sent := sent w @ [?c]\<rparr>)"
    "view s = snd (doc_step ?c (view (rstate w)))" by blast
  then show ?thesis
    using acc key at
    by (cases d; cases xs) (auto simp: pop_queue_def require_write_def act_simps key_act_ok)
qed

lemma redis_range_last:
  assumes "0 < n"
  shows "redis_range (- n) (-1) xs = drop (length xs - nat n) xs"
proof (cases "n \<le> int (length xs)")
  case True
  then have "nat (int (length xs) - n) = length xs - nat n" and "nat n = length xs - (length xs - nat n)"
    using assms by linarith+
  then show ?thesis using True assms by (auto simp: redis_range_def Let_def max_def)
next
  case False
  then have "length xs - nat n = 0" by linarith
  then show ?thesis using False assms by (simp add: redis_range_def Let_def max_def)
qed

text \<open>\<open>POST /queue/{key}/trim\<close> keeps exactly the last \<open>keep\<close> elements, in order, and answers how
  many are left.\<close>

theorem trim_queue_keeps_last:
  fixes e :: "'r env" and w :: "'r world" and body :: queue_trim_request
  assumes doc: "documented_redis (redis e) view" and acc: "check_access client ns ''write''"
    and key: "ns_matches ns" "key_matches key" and valid: "valid_queue_trim body"
    and at: "list_at (view (rstate w)) (join_key ns QUEUE_PREFIX key) = Some (xs, t0)"
  defines "kept \<equiv> drop (length xs - nat (trim_keep body)) xs"
  shows "\<exists>a w'. trim_queue client ns key body e w = (Inr a, w') \<and>
     data_field a ''length'' = Some (PInt (int (length kept))) \<and>
     view (rstate w') = store (join_key ns QUEUE_PREFIX key) (RList kept) t0 (view (rstate w))"
proof -
  let ?k = "join_key ns QUEUE_PREFIX key" and ?n = "trim_keep body"
  let ?c = "LTRIM ?k (- ?n) (-1)"
  from send_docE [OF doc, of ?c w] obtain s where
    s: "send ?c e w = (map_sum RedisExc id (fst (doc_step ?c (view (rstate w)))), w\<lparr>rstate := s, sent := sent w @ [?c]\<rparr>)"
    "view s = snd (doc_step ?c (view (rstate w)))" by auto
  have range: "redis_range (- ?n) (-1) xs = kept"
    using valid redis_range_last [of ?n xs] by (simp add: valid_queue_trim_def kept_def)
  have vs: "view s = store ?k (RList kept) t0 (view (rstate w))" using s(2) at by (simp add: range)
  let ?w1 = "w\<lparr>rstate := s, sent := sent w @ [?c]\<rparr>"
  from send_docE [OF doc, of "LLEN ?k" ?w1] obtain s2 where
    s2: "send (LLEN ?k) e ?w1 = (map_sum RedisExc id (fst (doc_step (LLEN ?k) (view s))), ?w1\<lparr>rstate := s2, sent := sent ?w1 @ [LLEN ?k]\<rparr>)"
    "view s2 = snd (doc_step (LLEN ?k) (view s))" by auto
  have at2: "list_at (view s) ?k = Some (kept, if kept = [] then None else t0)"
    by (simp add: vs list_at_def)
  show ?thesis
    using acc key at s s2 vs at2 by (auto simp: trim_queue_def require_write_def act_simps key_act_ok)
qed

text \<open>The pushes among the requests: key, direction and values.\<close>

primrec push_of :: "queue_request \<Rightarrow> (string \<times> direction \<times> string list) option" where
  "push_of (BatchPushQueue key body) = Some (key, batch_direction body, push_values body)"
| "push_of (PushQueue key body) = Some (key, push_direction body, [push_value body])"
| "push_of (PopQueue key direction) = None"
| "push_of (RangeQueue key start stop) = None"
| "push_of (LenQueue key) = None"
| "push_of (DeleteQueue key) = None"
| "push_of (TouchQueue key body) = None"
| "push_of (TrimQueue key body) = None"

text \<open>C19: a push, single or batch, is bounded and atomic: when the values would take the list past
  the configured maximum it answers 400 and changes nothing, else all of them are in the list, in
  the direction asked for, and the answer has the new length, which is within the maximum.\<close>

theorem queue_push_exact:
  fixes e :: "'r env" and w :: "'r world" and q :: queue_request
  assumes "documented_redis (redis e) view" and "check_access client ns ''write''"
    and "ns_matches ns" and "key_matches key" and "queue_valid q" and "push_of q = Some (key, d, vs)"
    and "\<forall>v \<in> set vs. fits e v"
    and "list_at (view (rstate w)) (join_key ns QUEUE_PREFIX key) = Some (xs, t0)"
  defines "m \<equiv> max_list_length (defaults (conf e))" and "n \<equiv> int (length xs) + int (length vs)"
  shows "\<exists>r w'. queue_handle client ns q e w = (r, w') \<and>
     (if n > m
      then fst (respond r) = 400 \<and> view (rstate w') = view (rstate w)
      else (\<exists>a t. r = Inr a \<and> data_field a ''length'' = Some (PInt n) \<and>
             view (rstate w') = (view (rstate w))(join_key ns QUEUE_PREFIX key \<mapsto>
               Entry (RList (fold (pushed d) vs xs)) t)))"
proof (cases q)
  case (BatchPushQueue u body)
  with assms(5,6) have "push_values body \<noteq> []" and "u = key" and "vs = push_values body" and "d = batch_direction body"
    by (auto simp: valid_queue_batch_push_def between_def)
  with batch_push_queue_doc [OF assms(1-4), of body w xs t0] assms(7,8) obtain r w' where
    r: "batch_push_queue client ns key body e w = (r, w')"
    and out: "if n > m then (\<exists>msg. r = Inl (error ''QUEUE_FULL'' msg 400)) \<and> view (rstate w') = view (rstate w)
       else (\<exists>a. r = Inr a \<and> data_field a ''length'' = Some (PInt n)) \<and>
            view (rstate w') = (view (rstate w))(join_key ns QUEUE_PREFIX key \<mapsto>
              Entry (RList (fold (pushed d) vs xs)) (new_ttl (effective_ttl (conf e) (batch_push_ttl body))))"
    unfolding m_def n_def by auto
  show ?thesis using r out BatchPushQueue \<open>u = key\<close>
    by (intro exI [of _ r] exI [of _ w'])
       (auto simp: respond_def error_def intro!: exI [of _ "new_ttl (effective_ttl (conf e) (batch_push_ttl body))"])
next
  case (PushQueue u body)
  with assms(6) have "u = key" and "vs = [push_value body]" and "d = push_direction body" by auto
  with push_queue_doc [OF assms(1-4), of body w xs t0] assms(7,8) obtain r w' where
    r: "push_queue client ns key body e w = (r, w')"
    and out: "if n > m then (\<exists>msg. r = Inl (error ''QUEUE_FULL'' msg 400)) \<and> view (rstate w') = view (rstate w)
       else (\<exists>a. r = Inr a \<and> data_field a ''length'' = Some (PInt n)) \<and>
            view (rstate w') = (view (rstate w))(join_key ns QUEUE_PREFIX key \<mapsto>
              Entry (RList (fold (pushed d) vs xs)) (new_ttl (effective_ttl (conf e) (push_ttl body))))"
    unfolding m_def n_def by auto
  show ?thesis using r out PushQueue \<open>u = key\<close>
    by (intro exI [of _ r] exI [of _ w'])
       (auto simp: respond_def error_def intro!: exI [of _ "new_ttl (effective_ttl (conf e) (push_ttl body))"])
qed (use assms(6) in simp_all)

theorem queue_push_exact_witness:
  "let body = \<lparr>push_values = [''a'', ''b''], batch_direction = DRight, batch_push_ttl = Some 60\<rparr>;
       out = queue_handle sample_client ''A'' (BatchPushQueue ''k'' body) sample_env (sample_world Map.empty)
   in \<exists>a t. fst out = Inr a \<and> data_field a ''length'' = Some (PInt 2) \<and>
        rstate (snd out) (join_key ''A'' QUEUE_PREFIX ''k'') = Some (Entry (RList [''a'', ''b'']) t)"
proof -
  let ?q = "BatchPushQueue ''k'' \<lparr>push_values = [''a'', ''b''], batch_direction = DRight, batch_push_ttl = Some 60\<rparr>"
  have "queue_valid ?q" by (simp add: valid_queue_batch_push_def schema_defs MAX_TTL_def)
  from queue_push_exact [OF sample_doc sample_access(2) sample_ns sample_key(1) this,
      of DRight "[''a'', ''b'']" "sample_world Map.empty" "[]" None]
  show ?thesis
    by (simp add: sample_fits list_at_def default_settings_def pushed_def Let_def)
       (metis fst_conv fun_upd_same snd_conv)
qed

theorem trim_queue_keeps_last_witness:
  "let w = sample_world [join_key ''A'' QUEUE_PREFIX ''k'' \<mapsto> Entry (RList [''a'', ''b'', ''c'']) None];
       out = trim_queue sample_client ''A'' ''k'' \<lparr>trim_keep = 2\<rparr> sample_env w
   in rstate (snd out) (join_key ''A'' QUEUE_PREFIX ''k'') = Some (Entry (RList [''b'', ''c'']) None)"
proof -
  let ?w = "sample_world [join_key ''A'' QUEUE_PREFIX ''k'' \<mapsto> Entry (RList [''a'', ''b'', ''c'']) None]"
  have "valid_queue_trim \<lparr>trim_keep = 2\<rparr>" by (simp add: valid_queue_trim_def)
  from trim_queue_keeps_last [OF sample_doc sample_access(2) sample_ns sample_key(1) this, of ?w "[''a'', ''b'', ''c'']" None]
  show ?thesis by (auto simp: list_at_def Let_def)
qed

text \<open>A consumer that pops \<open>n\<close> times from the left.\<close>

fun pop_many :: "client_info \<Rightarrow> string \<Rightarrow> string \<Rightarrow> nat \<Rightarrow> ('r, pyval list) act" where
  "pop_many client ns key 0 = ret []"
| "pop_many client ns key (Suc n) =
     bnd (pop_queue client ns key DLeft) (\<lambda>a. bnd (pop_many client ns key n) (\<lambda>as. ret (a # as)))"

lemma list_at_store_list: "list_at (store k (RList xs) t ks) k = Some (xs, if xs = [] then None else t)"
  by (simp add: list_at_def)

lemma pop_many_doc:
  fixes e :: "'r env" and w :: "'r world"
  assumes doc: "documented_redis (redis e) view" and acc: "check_access client ns ''write''"
    and key: "ns_matches ns" "key_matches key"
    and at: "list_at (view (rstate w)) (join_key ns QUEUE_PREFIX key) = Some (xs, t0)"
  shows "\<exists>as. fst (pop_many client ns key (length xs) e w) = Inr as \<and>
     map (\<lambda>a. data_field a ''value'') as = map (\<lambda>v. Some (PStr v)) xs"
  using at
proof (induction xs arbitrary: w t0)
  case Nil
  then show ?case by (simp add: act_simps)
next
  case (Cons x xs)
  from pop_queue_doc [OF doc acc key Cons.prems, of DLeft] obtain a w' where
    a: "pop_queue client ns key DLeft e w = (Inr a, w')" "data_field a ''value'' = Some (PStr x)"
    and v: "view (rstate w') = store (join_key ns QUEUE_PREFIX key) (RList xs) t0 (view (rstate w))" by auto
  have "list_at (view (rstate w')) (join_key ns QUEUE_PREFIX key) = Some (xs, if xs = [] then None else t0)"
    by (simp add: v list_at_store_list)
  from Cons.IH [OF this] obtain as where
    "fst (pop_many client ns key (length xs) e w') = Inr as"
    "map (\<lambda>a. data_field a ''value'') as = map (\<lambda>v. Some (PStr v)) xs" by blast
  then show ?case using a by (auto simp: act_simps split: prod.splits)
qed

lemma fold_pushed_right: "fold (pushed DRight) vs xs = xs @ vs"
  by (induction vs arbitrary: xs) (simp_all add: pushed_def)

lemma fold_pushed_left: "fold (pushed DLeft) vs xs = rev vs @ xs"
  by (induction vs arbitrary: xs) (simp_all add: pushed_def)

text \<open>A queue is first in, first out: the values of a batch pushed to an empty queue come out of
  as many pops, all of which succeed, in the order they were pushed.\<close>

lemma queue_fifo:
  fixes e :: "'r env" and w :: "'r world" and body :: queue_batch_push_request
  assumes "documented_redis (redis e) view" and "check_access producer ns ''write''"
    and "check_access consumer ns ''write''" and "ns_matches ns" and "key_matches key"
    and "\<forall>v \<in> set (push_values body). fits e v" and "valid_queue_batch_push body"
    and "batch_direction body = DRight"
    and "view (rstate w) (join_key ns QUEUE_PREFIX key) = None"
    and "int (length (push_values body)) \<le> max_list_length (defaults (conf e))"
  shows "let (r, w') = batch_push_queue producer ns key body e w
    in \<exists>as. fst (pop_many consumer ns key (length (push_values body)) e w') = Inr as \<and>
         map (\<lambda>a. data_field a ''value'') as = map (\<lambda>v. Some (PStr v)) (push_values body)"
proof -
  have at: "list_at (view (rstate w)) (join_key ns QUEUE_PREFIX key) = Some ([], None)"
    using assms(9) by (simp add: list_at_def)
  have ne: "push_values body \<noteq> []" using assms(7) by (auto simp: valid_queue_batch_push_def between_def)
  from batch_push_queue_doc [OF assms(1,2,4-6) ne at] assms(8,10) obtain r w' where
    r: "batch_push_queue producer ns key body e w = (r, w')"
    and v: "view (rstate w') (join_key ns QUEUE_PREFIX key) =
         Some (Entry (RList (push_values body)) (new_ttl (effective_ttl (conf e) (batch_push_ttl body))))"
    by (auto simp: fold_pushed_right)
  have "list_at (view (rstate w')) (join_key ns QUEUE_PREFIX key) =
      Some (push_values body, new_ttl (effective_ttl (conf e) (batch_push_ttl body)))"
    by (simp add: v list_at_def)
  from pop_many_doc [OF assms(1,3-5) this] r show ?thesis by simp
qed

lemma queue_fifo_witness:
  "let body = \<lparr>push_values = [''a'', ''b''], batch_direction = DRight, batch_push_ttl = None\<rparr>;
       w' = snd (batch_push_queue sample_client ''A'' ''k'' body sample_env (sample_world Map.empty))
   in \<exists>as. fst (pop_many sample_client ''A'' ''k'' 2 sample_env w') = Inr as \<and>
        map (\<lambda>a. data_field a ''value'') as = [Some (PStr ''a''), Some (PStr ''b'')]"
proof -
  let ?body = "\<lparr>push_values = [''a'', ''b''], batch_direction = DRight, batch_push_ttl = None\<rparr>"
  have "valid_queue_batch_push ?body" by (simp add: valid_queue_batch_push_def schema_defs)
  from queue_fifo [OF sample_doc sample_access(2,2) sample_ns sample_key(1) _ this, of "sample_world Map.empty"]
  show ?thesis
    by (simp add: sample_fits default_settings_def Let_def case_prod_beta numeral_2_eq_2)
qed

lemma queue_never_gone: "fst (queue_handle client ns q e w) = Inr v \<Longrightarrow> never_gone v"
proof -
  have "answers never_gone (queue_handle client ns q)"
    by (cases q) (auto simp: queue_handler_defs Let_def intro!: answers_intros split: if_splits)
  then show "fst (queue_handle client ns q e w) = Inr v \<Longrightarrow> never_gone v" by (rule answersD)
qed
end
