(* ===== verification/Group.thy ===== *)
theory Group
  imports RedisDoc
begin

text \<open>
  \<open>app/routers/group.py\<close>: the set endpoints under \<open>/ns/{ns}/group\<close>, with the set operations
  on several keys, and the interpretation of \<open>data_plane\<close>.
\<close>

section \<open>Handlers\<close>

text \<open>\<open>sorted(v)\<close> of the set redis-py answers with.\<close>

definition sorted_reply :: "pyval \<Rightarrow> exc + pyval" where
  "sorted_reply v = (case v of PSet ms \<Rightarrow> Inr (PList (map PStr (sorted_strs ms))) | _ \<Rightarrow> Inl (PyExc ''TypeError''))"

definition batch_get_group :: "client_info \<Rightarrow> string \<Rightarrow> group_batch_get_request \<Rightarrow> ('r, pyval) act" where
  "batch_get_group client ns body =
     bnd (require_read client ns) (\<lambda>_.
     bnd (keys_act ns GROUP_PREFIX (group_keys body)) (\<lambda>redis_keys.
     bnd (pipe False (map (\<lambda>rk. SMEMBERS rk) redis_keys)) (\<lambda>results.
     bnd (lift (emap (\<lambda>(k, v). ebind (sorted_reply v) (\<lambda>s. Inr (k, s)))
            (filter (\<lambda>(k, v). truthy v) (zip (group_keys body) results)))) (\<lambda>pairs.
     let vals = py_dict pairs
     in ret (ok_no_ttl (PDict [(''values'', PDict vals), (''count'', PInt (int (length vals)))])
               ns ''batch'' ''set'')))))"

definition batch_add_group :: "client_info \<Rightarrow> string \<Rightarrow> group_batch_add_request \<Rightarrow> ('r, pyval) act" where
  "batch_add_group client ns body =
     bnd (require_write client ns) (\<lambda>_.
     bnd (check_values_size (concat (map (\<lambda>(key_name, members). map (\<lambda>m. (''Member'', m)) members)
            (group_items body)))) (\<lambda>_.
     bnd (resolve_ttl (group_items_ttl body)) (\<lambda>ttl.
     bnd (keys_act ns GROUP_PREFIX (map fst (group_items body))) (\<lambda>redis_keys.
     bnd (pipe True (concat (map2 (\<lambda>rk members. [SADD rk members, ttl_cmd rk ttl])
            redis_keys (map snd (group_items body))))) (\<lambda>_.
     ret (ok_no_ttl (PDict [(''stored'', PInt (int (length (group_items body))))]) ns ''batch'' ''set''))))))"

definition add_group :: "client_info \<Rightarrow> string \<Rightarrow> string \<Rightarrow> group_add_request \<Rightarrow> ('r, pyval) act" where
  "add_group client ns key body =
     bnd (require_write client ns) (\<lambda>_.
     bnd (check_values_size (map (\<lambda>m. (''Member'', m)) (add_members body))) (\<lambda>_.
     bnd (key_act ns GROUP_PREFIX key) (\<lambda>redis_key.
     bnd (resolve_ttl (add_ttl body)) (\<lambda>ttl.
     bnd (pipe False [SADD redis_key (add_members body), ttl_cmd redis_key ttl, TTL redis_key]) (\<lambda>results.
     case results of
       [] \<Rightarrow> raise (PyExc ''IndexError'')
     | num # rest \<Rightarrow>
         ret (ok (PDict [(''added'', num)]) ns key ''set'' (norm_ttl (last results))))))))"

definition members_group :: "client_info \<Rightarrow> string \<Rightarrow> string \<Rightarrow> ('r, pyval) act" where
  "members_group client ns key =
     bnd (require_read client ns) (\<lambda>_.
     bnd (key_act ns GROUP_PREFIX key) (\<lambda>redis_key.
     bnd (send (SMEMBERS redis_key)) (\<lambda>members.
     bnd (lift (sorted_reply members)) (\<lambda>ms.
     ret (ok_no_ttl (PDict [(''members'', ms)]) ns key ''set'')))))"

definition contains_group :: "client_info \<Rightarrow> string \<Rightarrow> string \<Rightarrow> string \<Rightarrow> ('r, pyval) act" where
  "contains_group client ns key member =
     bnd (require_read client ns) (\<lambda>_.
     bnd (key_act ns GROUP_PREFIX key) (\<lambda>redis_key.
     bnd (send (SISMEMBER redis_key member)) (\<lambda>exists.
     ret (ok_no_ttl (PDict [(''member'', PStr member), (''exists'', PBool (truthy exists))]) ns key ''set''))))"

definition delete_group :: "client_info \<Rightarrow> string \<Rightarrow> string \<Rightarrow> ('r, pyval) act" where
  "delete_group client ns key =
     bnd (require_write client ns) (\<lambda>_.
     bnd (key_act ns GROUP_PREFIX key) (\<lambda>redis_key.
     bnd (send (DEL [redis_key])) (\<lambda>deleted.
     if \<not> truthy deleted then raise (not_found key ns)
     else ret (ok_no_ttl (PDict [(''deleted'', PBool True)]) ns key ''set''))))"

definition remove_group :: "client_info \<Rightarrow> string \<Rightarrow> string \<Rightarrow> string \<Rightarrow> ('r, pyval) act" where
  "remove_group client ns key member =
     bnd (require_write client ns) (\<lambda>_.
     bnd (key_act ns GROUP_PREFIX key) (\<lambda>redis_key.
     bnd (send (SREM redis_key member)) (\<lambda>removed.
     if \<not> truthy removed
     then raise (error ''MEMBER_NOT_FOUND''
            (''Member '' @ quoted member @ '' not found in group '' @ quoted key) 404)
     else ret (ok_no_ttl (PDict [(''removed'', PBool True), (''member'', PStr member)]) ns key ''set''))))"

definition count_group :: "client_info \<Rightarrow> string \<Rightarrow> string \<Rightarrow> ('r, pyval) act" where
  "count_group client ns key =
     bnd (require_read client ns) (\<lambda>_.
     bnd (key_act ns GROUP_PREFIX key) (\<lambda>redis_key.
     bnd (send (SCARD redis_key)) (\<lambda>count.
     ret (ok_no_ttl (PDict [(''count'', count)]) ns key ''set''))))"

definition touch_group :: "client_info \<Rightarrow> string \<Rightarrow> string \<Rightarrow> ttl_set_request \<Rightarrow> ('r, pyval) act" where
  "touch_group client ns key body =
     bnd (require_write client ns) (\<lambda>_.
     bnd (key_act ns GROUP_PREFIX key) (\<lambda>redis_key.
     touch_key redis_key (touch_ttl body) ns key ''set''))"

datatype group_op = OpInter | OpUnion | OpDiff

primrec group_op_name :: "group_op \<Rightarrow> string" where
  "group_op_name OpInter = ''inter''"
| "group_op_name OpUnion = ''union''"
| "group_op_name OpDiff = ''diff''"

primrec group_op_cmd :: "group_op \<Rightarrow> string list \<Rightarrow> cmd" where
  "group_op_cmd OpInter ks = SINTER ks"
| "group_op_cmd OpUnion ks = SUNION ks"
| "group_op_cmd OpDiff ks = SDIFF ks"

definition set_op :: "group_op \<Rightarrow> string \<Rightarrow> string list \<Rightarrow> client_info \<Rightarrow> ('r, pyval) act" where
  "set_op oper ns keys client =
     bnd (require_read client ns) (\<lambda>_.
     bnd (keys_act ns GROUP_PREFIX keys) (\<lambda>redis_keys.
     bnd (send (group_op_cmd oper redis_keys)) (\<lambda>result.
     bnd (lift (sorted_reply result)) (\<lambda>ms.
     ret (ok_no_ttl (PDict [(''members'', ms)]) ns (''ops:'' @ group_op_name oper) ''set'')))))"

definition inter_groups :: "client_info \<Rightarrow> string \<Rightarrow> group_ops_request \<Rightarrow> ('r, pyval) act" where
  "inter_groups client ns body = set_op OpInter ns (ops_keys body) client"

definition union_groups :: "client_info \<Rightarrow> string \<Rightarrow> group_ops_request \<Rightarrow> ('r, pyval) act" where
  "union_groups client ns body = set_op OpUnion ns (ops_keys body) client"

definition diff_groups :: "client_info \<Rightarrow> string \<Rightarrow> group_ops_request \<Rightarrow> ('r, pyval) act" where
  "diff_groups client ns body = set_op OpDiff ns (ops_keys body) client"

section \<open>The router\<close>

datatype group_request =
    BatchGetGroup group_batch_get_request
  | BatchAddGroup group_batch_add_request
  | AddGroup string group_add_request
  | MembersGroup string
  | ContainsGroup string string
  | DeleteGroup string
  | RemoveGroup string string
  | CountGroup string
  | TouchGroup string ttl_set_request
  | OpsGroup group_op group_ops_request

primrec group_handle :: "client_info \<Rightarrow> string \<Rightarrow> group_request \<Rightarrow> ('r, pyval) act" where
  "group_handle client ns (BatchGetGroup body) = batch_get_group client ns body"
| "group_handle client ns (BatchAddGroup body) = batch_add_group client ns body"
| "group_handle client ns (AddGroup key body) = add_group client ns key body"
| "group_handle client ns (MembersGroup key) = members_group client ns key"
| "group_handle client ns (ContainsGroup key member) = contains_group client ns key member"
| "group_handle client ns (DeleteGroup key) = delete_group client ns key"
| "group_handle client ns (RemoveGroup key member) = remove_group client ns key member"
| "group_handle client ns (CountGroup key) = count_group client ns key"
| "group_handle client ns (TouchGroup key body) = touch_group client ns key body"
| "group_handle client ns (OpsGroup oper body) = (case oper of
       OpInter \<Rightarrow> inter_groups client ns body
     | OpUnion \<Rightarrow> union_groups client ns body
     | OpDiff \<Rightarrow> diff_groups client ns body)"

primrec group_needs :: "group_request \<Rightarrow> string" where
  "group_needs (BatchGetGroup body) = ''read''"
| "group_needs (BatchAddGroup body) = ''write''"
| "group_needs (AddGroup key body) = ''write''"
| "group_needs (MembersGroup key) = ''read''"
| "group_needs (ContainsGroup key member) = ''read''"
| "group_needs (DeleteGroup key) = ''write''"
| "group_needs (RemoveGroup key member) = ''write''"
| "group_needs (CountGroup key) = ''read''"
| "group_needs (TouchGroup key body) = ''write''"
| "group_needs (OpsGroup oper body) = ''read''"

primrec group_valid :: "group_request \<Rightarrow> bool" where
  "group_valid (BatchGetGroup body) = valid_group_batch_get body"
| "group_valid (BatchAddGroup body) = valid_group_batch_add body"
| "group_valid (AddGroup key body) = valid_group_add body"
| "group_valid (MembersGroup key) = True"
| "group_valid (ContainsGroup key member) = True"
| "group_valid (DeleteGroup key) = True"
| "group_valid (RemoveGroup key member) = True"
| "group_valid (CountGroup key) = True"
| "group_valid (TouchGroup key body) = valid_ttl_set body"
| "group_valid (OpsGroup oper body) = valid_group_ops body"

section \<open>The router keeps to its keys\<close>

lemmas group_handler_defs = batch_get_group_def batch_add_group_def add_group_def members_group_def
  contains_group_def delete_group_def remove_group_def count_group_def touch_group_def
  inter_groups_def union_groups_def diff_groups_def set_op_def

lemma own_cmd_group_op [simp]: "own_cmd ns p (group_op_cmd oper ks) \<longleftrightarrow> ks \<noteq> [] \<and> list_all (own_key ns p) ks"
  by (cases oper) simp_all

lemma group_handle_own: "group_valid q \<Longrightarrow> confined (own_cmd ns GROUP_PREFIX) (group_handle client ns q)"
  by (cases q)
     (auto simp: group_handler_defs Let_def
         valid_group_ops_def between_def
       intro!: confined_intros confined_router
       split: list.split group_op.split)

lemma group_handle_guarded:
  "\<not> check_access client ns (group_needs q) \<Longrightarrow> group_handle client ns q e w =
     (Inl (access_denied client ns (group_needs q)), after_denial ''namespace_denied'' ''NAMESPACE_DENIED'' w)"
  by (cases q)
     (simp_all add: group_handler_defs require_read_def require_write_def bnd_apply require_access_apply
       split: group_op.split)

lemma group_prefix_no_colon: "colon \<notin> set GROUP_PREFIX"
  by (simp add: GROUP_PREFIX_def)

interpretation grp: data_plane group_handle group_needs group_valid GROUP_PREFIX
  by unfold_locales (simp_all add: group_handle_guarded group_handle_own group_prefix_no_colon)

section \<open>Functional behaviour\<close>

lemma answers_sorted: "sorted_reply (PSet ms) = Inr (PList (map PStr (sorted_strs ms)))"
  by (simp add: sorted_reply_def)

lemma set_members_all:
  "\<forall>u \<in> set us. \<exists>t. set_at ks (f u) = Some (S u, t) \<Longrightarrow> set_members ks (map f us) = Some (map S us)"
  by (induction us) auto

text \<open>The set an operation stands for.\<close>

definition set_operation :: "group_op \<Rightarrow> string set list \<Rightarrow> string set" where
  "set_operation oper Ss = (case oper of
       OpInter \<Rightarrow> \<Inter> (set Ss) | OpUnion \<Rightarrow> \<Union> (set Ss) | OpDiff \<Rightarrow> hd Ss - \<Union> (set (tl Ss)))"

lemma group_op_doc:
  assumes "us \<noteq> []" and "\<forall>u \<in> set us. \<exists>t. set_at ks (f u) = Some (S u, t)"
  shows "\<exists>ms. doc_step (group_op_cmd oper (map f us)) ks = (Inr (PSet ms), ks) \<and>
     set ms = set_operation oper (map (\<lambda>u. set (S u)) us)"
proof -
  obtain u rest where us: "us = u # rest" using assms(1) by (cases us) auto
  have "set_members ks (f u # map f rest) = Some (S u # map S rest)"
    using set_members_all [OF assms(2)] us by simp
  then show ?thesis unfolding us
    by (cases oper) (auto simp: set_operation_def list_all_iff simp del: set_members.simps)
qed

text \<open>The set operations answer exactly the intersection, union or difference of the sets stored
  under the keys, sorted and without repetition.\<close>

lemma set_op_exact:
  fixes e :: "'r env" and w :: "'r world" and body :: group_ops_request
  assumes "documented_redis (redis e) view" and "check_access client ns ''read''"
    and "ns_matches ns" and "valid_group_ops body" and "list_all key_matches (ops_keys body)"
    and "\<forall>u \<in> set (ops_keys body). \<exists>t. set_at (view (rstate w)) (join_key ns GROUP_PREFIX u) = Some (S u, t)"
  shows "\<exists>a ms. fst (group_handle client ns (OpsGroup oper body) e w) = Inr a \<and>
     data_field a ''members'' = Some (PList (map PStr ms)) \<and> sorted ms \<and> distinct ms \<and>
     set ms = set_operation oper (map (\<lambda>u. set (S u)) (ops_keys body))"
proof -
  let ?ks = "map (join_key ns GROUP_PREFIX) (ops_keys body)"
  let ?c = "group_op_cmd oper ?ks"
  have ne: "ops_keys body \<noteq> []" using assms(4) by (auto simp: valid_group_ops_def between_def)
  have cov: "covered ?c" using ne by (cases oper) simp_all
  from group_op_doc [OF ne assms(6), of oper] obtain ms where
    ms: "doc_step ?c (view (rstate w)) = (Inr (PSet ms), view (rstate w))"
    "set ms = set_operation oper (map (\<lambda>u. set (S u)) (ops_keys body))" by blast
  from send_docE [OF assms(1) cov, of w] ms(1) obtain s where
    s: "send ?c e w = (Inr (PSet ms), w\<lparr>rstate := s, sent := sent w @ [?c]\<rparr>)" by auto
  have eq: "group_handle client ns (OpsGroup oper body) = set_op oper ns (ops_keys body) client"
    by (cases oper) (simp_all add: inter_groups_def union_groups_def diff_groups_def)
  let ?a = "ok_no_ttl (PDict [(''members'', PList (map PStr (sorted_strs ms)))]) ns (''ops:'' @ group_op_name oper) ''set''"
  have "fst (set_op oper ns (ops_keys body) client e w) = Inr ?a"
    using assms(2,3,5) s by (simp add: set_op_def require_read_def act_simps keys_act_ok answers_sorted)
  then show ?thesis
    unfolding eq using ms(2) by (intro exI [of _ ?a] exI [of _ "sorted_strs ms"]) simp
qed

lemma set_op_exact_witness:
  "let ks = [join_key ''A'' GROUP_PREFIX ''k'' \<mapsto> Entry (RSet [''y'', ''x'']) None];
       out = group_handle sample_client ''A'' (OpsGroup OpUnion \<lparr>ops_keys = [''k'', ''l'']\<rparr>) sample_env (sample_world ks)
   in \<exists>a ms. fst out = Inr a \<and> data_field a ''members'' = Some (PList (map PStr ms)) \<and> sorted ms \<and> distinct ms \<and>
        set ms = {''x'', ''y''}"
proof -
  let ?ks = "[join_key ''A'' GROUP_PREFIX ''k'' \<mapsto> Entry (RSet [''y'', ''x'']) None]"
  have "valid_group_ops \<lparr>ops_keys = [''k'', ''l'']\<rparr>" by (simp add: valid_group_ops_def between_def)
  from set_op_exact [OF sample_doc sample_access(1) sample_ns this, where w = "sample_world ?ks" and oper = OpUnion
      and S = "\<lambda>u. if u = ''k'' then [''y'', ''x''] else []"] sample_key
  show ?thesis by (auto simp: set_at_def join_key_def set_operation_def Let_def insert_commute)
qed

lemma group_never_gone: "fst (group_handle client ns q e w) = Inr v \<Longrightarrow> never_gone v"
proof -
  have "answers never_gone (group_handle client ns q)"
    by (cases q) (auto simp: group_handler_defs Let_def intro!: answers_intros split: if_splits list.split group_op.split)
  then show "fst (group_handle client ns q e w) = Inr v \<Longrightarrow> never_gone v" by (rule answersD)
qed

end
