(* ===== verification/Rank.thy ===== *)
theory Rank
  imports RedisDoc
begin

text \<open>
  \<open>app/routers/rank.py\<close>: the sorted set endpoints under \<open>/ns/{ns}/rank\<close>, with the rejection
  of scores that are not finite before anything is sent, and the interpretation of
  \<open>data_plane\<close>.
\<close>

section \<open>Handlers\<close>

text \<open>\<open>[{"member": m, "score": s} for m, s in result]\<close>.\<close>

definition member_score :: "pyval \<Rightarrow> exc + pyval" where
  "member_score p = (case p of
       PList [m, s] \<Rightarrow> Inr (PDict [(''member'', m), (''score'', s)])
     | _ \<Rightarrow> Inl (PyExc ''ValueError''))"

definition member_scores :: "pyval \<Rightarrow> exc + pyval list" where
  "member_scores v = (case v of PList ps \<Rightarrow> emap member_score ps | _ \<Rightarrow> Inl (PyExc ''TypeError''))"

definition batch_get_rank :: "client_info \<Rightarrow> string \<Rightarrow> rank_batch_get_request \<Rightarrow> ('r, pyval) act" where
  "batch_get_rank client ns body =
     bnd (require_read client ns) (\<lambda>_.
     bnd (keys_act ns RANK_PREFIX (rank_keys body)) (\<lambda>redis_keys.
     bnd (pipe False (map (\<lambda>rk. if rank_reverse body then ZREVRANGE rk (rank_start body) (rank_stop body)
                                  else ZRANGE rk (rank_start body) (rank_stop body)) redis_keys)) (\<lambda>results.
     bnd (lift (emap (\<lambda>(k, result). ebind (member_scores result) (\<lambda>ms. Inr (k, PList ms)))
            (filter (\<lambda>(k, result). truthy result) (zip (rank_keys body) results)))) (\<lambda>pairs.
     let vals = py_dict pairs
     in ret (ok_no_ttl (PDict [(''values'', PDict vals), (''count'', PInt (int (length vals)))])
               ns ''batch'' ''zset'')))))"

definition score_not_finite :: exc where
  "score_not_finite = error ''INVALID_VALUE'' ''Score must be a finite number (nan/inf rejected)'' 400"

definition zadd_rejected :: exc where
  "zadd_rejected = error ''INVALID_VALUE'' ''Score is not a valid number (nan)'' 400"

text \<open>The loop over the items: the size of the member, then its score.\<close>

definition check_rank_members :: "(string \<times> pyfloat) list \<Rightarrow> ('r, unit) act" where
  "check_rank_members members =
     (\<lambda>e w. (eiter (\<lambda>(member, score).
        ebind (size_check (use_rust e) (max_value_size (defaults (conf e))) ''Member'' member) (\<lambda>_.
        if \<not> isfinite score then Inl score_not_finite else Inr ())) members, w))"

definition batch_add_rank :: "client_info \<Rightarrow> string \<Rightarrow> string \<Rightarrow> rank_batch_add_request \<Rightarrow> ('r, pyval) act" where
  "batch_add_rank client ns key body =
     bnd (require_write client ns) (\<lambda>_.
     bnd (check_rank_members (rank_members body)) (\<lambda>_.
     bnd (key_act ns RANK_PREFIX key) (\<lambda>redis_key.
     bnd (resolve_ttl (rank_members_ttl body)) (\<lambda>ttl.
     bnd (catch_response
            (pipe False [ZADD redis_key (py_dict (rank_members body)), ttl_cmd redis_key ttl, TTL redis_key])
            (\<lambda>msg. raise zadd_rejected)) (\<lambda>results.
     case results of
       [] \<Rightarrow> raise (PyExc ''IndexError'')
     | num # rest \<Rightarrow>
         ret (ok (PDict [(''added'', num), (''total'', PInt (int (length (rank_members body))))])
                ns key ''zset'' (norm_ttl (last results))))))))"

definition add_rank :: "client_info \<Rightarrow> string \<Rightarrow> string \<Rightarrow> rank_add_request \<Rightarrow> ('r, pyval) act" where
  "add_rank client ns key body =
     bnd (require_write client ns) (\<lambda>_.
     bnd (check_value_size (rank_member body) ''Member'') (\<lambda>_.
     if \<not> isfinite (rank_score body) then raise score_not_finite
     else
       bnd (key_act ns RANK_PREFIX key) (\<lambda>redis_key.
       bnd (resolve_ttl (rank_ttl body)) (\<lambda>ttl.
       bnd (catch_response
              (pipe False [ZADD redis_key [(rank_member body, rank_score body)], ttl_cmd redis_key ttl, TTL redis_key])
              (\<lambda>msg. raise zadd_rejected)) (\<lambda>results.
       case results of
         [] \<Rightarrow> raise (PyExc ''IndexError'')
       | num # rest \<Rightarrow>
           ret (ok (PDict [(''added'', num), (''member'', PStr (rank_member body)),
                           (''score'', PFloat (rank_score body))])
                  ns key ''zset'' (norm_ttl (last results))))))))"

definition range_rank :: "client_info \<Rightarrow> string \<Rightarrow> string \<Rightarrow> int \<Rightarrow> int \<Rightarrow> bool \<Rightarrow> ('r, pyval) act" where
  "range_rank client ns key start stop reverse =
     bnd (require_read client ns) (\<lambda>_.
     bnd (key_act ns RANK_PREFIX key) (\<lambda>redis_key.
     bnd (send (if reverse then ZREVRANGE redis_key start stop else ZRANGE redis_key start stop)) (\<lambda>results.
     bnd (lift (member_scores results)) (\<lambda>members.
     ret (ok_no_ttl (PDict [(''members'', PList members), (''count'', PInt (int (length members)))])
            ns key ''zset'')))))"

definition member_not_found :: "string \<Rightarrow> string \<Rightarrow> exc" where
  "member_not_found member key =
     error ''MEMBER_NOT_FOUND'' (''Member '' @ quoted member @ '' not found in rank '' @ quoted key) 404"

definition score_rank :: "client_info \<Rightarrow> string \<Rightarrow> string \<Rightarrow> string \<Rightarrow> ('r, pyval) act" where
  "score_rank client ns key member =
     bnd (require_read client ns) (\<lambda>_.
     bnd (key_act ns RANK_PREFIX key) (\<lambda>redis_key.
     bnd (send (ZSCORE redis_key member)) (\<lambda>score.
     if score = PNone then raise (member_not_found member key)
     else ret (ok_no_ttl (PDict [(''member'', PStr member), (''score'', score)]) ns key ''zset''))))"

definition between_rank :: "client_info \<Rightarrow> string \<Rightarrow> string \<Rightarrow> pyfloat \<Rightarrow> pyfloat \<Rightarrow> ('r, pyval) act" where
  "between_rank client ns key lo hi =
     bnd (require_read client ns) (\<lambda>_.
     bnd (key_act ns RANK_PREFIX key) (\<lambda>redis_key.
     bnd (catch_response (send (ZRANGEBYSCORE redis_key lo hi))
            (\<lambda>msg. raise (error ''INVALID_VALUE'' ''Score range bound is not a valid number (nan)'' 400))) (\<lambda>results.
     bnd (lift (member_scores results)) (\<lambda>members.
     ret (ok_no_ttl (PDict [(''members'', PList members), (''count'', PInt (int (length members)))])
            ns key ''zset'')))))"

definition delete_rank :: "client_info \<Rightarrow> string \<Rightarrow> string \<Rightarrow> ('r, pyval) act" where
  "delete_rank client ns key =
     bnd (require_write client ns) (\<lambda>_.
     bnd (key_act ns RANK_PREFIX key) (\<lambda>redis_key.
     bnd (send (DEL [redis_key])) (\<lambda>deleted.
     if \<not> truthy deleted then raise (not_found key ns)
     else ret (ok_no_ttl (PDict [(''deleted'', PBool True)]) ns key ''zset''))))"

definition remove_rank :: "client_info \<Rightarrow> string \<Rightarrow> string \<Rightarrow> string \<Rightarrow> ('r, pyval) act" where
  "remove_rank client ns key member =
     bnd (require_write client ns) (\<lambda>_.
     bnd (key_act ns RANK_PREFIX key) (\<lambda>redis_key.
     bnd (send (ZREM redis_key member)) (\<lambda>removed.
     if \<not> truthy removed then raise (member_not_found member key)
     else ret (ok_no_ttl (PDict [(''removed'', PBool True), (''member'', PStr member)]) ns key ''zset''))))"

definition incr_rank :: "client_info \<Rightarrow> string \<Rightarrow> string \<Rightarrow> rank_incr_request \<Rightarrow> ('r, pyval) act" where
  "incr_rank client ns key body =
     bnd (require_write client ns) (\<lambda>_.
     bnd (check_value_size (incr_member body) ''Member'') (\<lambda>_.
     if \<not> isfinite (incr_delta body)
     then raise (error ''INVALID_VALUE'' ''Delta must be a finite number (nan/inf rejected)'' 400)
     else
       bnd (key_act ns RANK_PREFIX key) (\<lambda>redis_key.
       bnd (catch_response (pipe False [ZINCRBY redis_key (incr_delta body) (incr_member body), TTL redis_key])
              (\<lambda>msg. raise (error ''INVALID_VALUE'' ''Resulting score is not a number (nan) or out of range'' 400)))
         (\<lambda>results.
       case results of
         [new_score, ttl] \<Rightarrow>
           ret (ok (PDict [(''member'', PStr (incr_member body)), (''score'', new_score)]) ns key ''zset''
                  (norm_ttl ttl))
       | _ \<Rightarrow> bad_unpack))))"

definition touch_rank :: "client_info \<Rightarrow> string \<Rightarrow> string \<Rightarrow> ttl_set_request \<Rightarrow> ('r, pyval) act" where
  "touch_rank client ns key body =
     bnd (require_write client ns) (\<lambda>_.
     bnd (key_act ns RANK_PREFIX key) (\<lambda>redis_key.
     touch_key redis_key (touch_ttl body) ns key ''zset''))"

text \<open>\<open>member, score = result[0]\<close>, and the dict of the two.\<close>

definition first_member_score :: "pyval \<Rightarrow> exc + pyval" where
  "first_member_score result = (case result of
       PList [] \<Rightarrow> Inl (PyExc ''IndexError'')
     | PList (p # rest) \<Rightarrow> member_score p
     | _ \<Rightarrow> Inl (PyExc ''TypeError''))"

datatype pop_end = PopMin | PopMax

definition pop_rank :: "client_info \<Rightarrow> string \<Rightarrow> string \<Rightarrow> pop_end \<Rightarrow> ('r, pyval) act" where
  "pop_rank client ns key direction =
     bnd (require_write client ns) (\<lambda>_.
     bnd (key_act ns RANK_PREFIX key) (\<lambda>redis_key.
     bnd (send (if direction = PopMax then ZPOPMAX redis_key 1 else ZPOPMIN redis_key 1)) (\<lambda>result.
     if \<not> truthy result then raise (error ''RANK_EMPTY'' (''Rank '' @ quoted key @ '' is empty'') 404)
     else
       bnd (lift (first_member_score result)) (\<lambda>data.
       ret (ok_no_ttl data ns key ''zset'')))))"

section \<open>The router\<close>

datatype rank_request =
    BatchGetRank rank_batch_get_request
  | BatchAddRank string rank_batch_add_request
  | AddRank string rank_add_request
  | RangeRank string int int bool
  | ScoreRank string string
  | BetweenRank string pyfloat pyfloat
  | DeleteRank string
  | RemoveRank string string
  | IncrRank string rank_incr_request
  | TouchRank string ttl_set_request
  | PopRank string pop_end

primrec rank_handle :: "client_info \<Rightarrow> string \<Rightarrow> rank_request \<Rightarrow> ('r, pyval) act" where
  "rank_handle client ns (BatchGetRank body) = batch_get_rank client ns body"
| "rank_handle client ns (BatchAddRank key body) = batch_add_rank client ns key body"
| "rank_handle client ns (AddRank key body) = add_rank client ns key body"
| "rank_handle client ns (RangeRank key start stop reverse) = range_rank client ns key start stop reverse"
| "rank_handle client ns (ScoreRank key member) = score_rank client ns key member"
| "rank_handle client ns (BetweenRank key lo hi) = between_rank client ns key lo hi"
| "rank_handle client ns (DeleteRank key) = delete_rank client ns key"
| "rank_handle client ns (RemoveRank key member) = remove_rank client ns key member"
| "rank_handle client ns (IncrRank key body) = incr_rank client ns key body"
| "rank_handle client ns (TouchRank key body) = touch_rank client ns key body"
| "rank_handle client ns (PopRank key direction) = pop_rank client ns key direction"

primrec rank_needs :: "rank_request \<Rightarrow> string" where
  "rank_needs (BatchGetRank body) = ''read''"
| "rank_needs (BatchAddRank key body) = ''write''"
| "rank_needs (AddRank key body) = ''write''"
| "rank_needs (RangeRank key start stop reverse) = ''read''"
| "rank_needs (ScoreRank key member) = ''read''"
| "rank_needs (BetweenRank key lo hi) = ''read''"
| "rank_needs (DeleteRank key) = ''write''"
| "rank_needs (RemoveRank key member) = ''write''"
| "rank_needs (IncrRank key body) = ''write''"
| "rank_needs (TouchRank key body) = ''write''"
| "rank_needs (PopRank key direction) = ''write''"

primrec rank_valid :: "rank_request \<Rightarrow> bool" where
  "rank_valid (BatchGetRank body) = valid_rank_batch_get body"
| "rank_valid (BatchAddRank key body) = valid_rank_batch_add body"
| "rank_valid (AddRank key body) = valid_rank_add body"
| "rank_valid (RangeRank key start stop reverse) = True"
| "rank_valid (ScoreRank key member) = True"
| "rank_valid (BetweenRank key lo hi) = True"
| "rank_valid (DeleteRank key) = True"
| "rank_valid (RemoveRank key member) = True"
| "rank_valid (IncrRank key body) = valid_rank_incr body"
| "rank_valid (TouchRank key body) = valid_ttl_set body"
| "rank_valid (PopRank key direction) = True"

section \<open>The router keeps to its keys\<close>

lemmas rank_handler_defs = batch_get_rank_def batch_add_rank_def add_rank_def range_rank_def score_rank_def
  between_rank_def delete_rank_def remove_rank_def incr_rank_def touch_rank_def pop_rank_def

lemma confined_check_rank_members [confined_intros]: "confined P (check_rank_members ms)"
  by (simp add: confined_def check_rank_members_def)

lemma rank_handle_own: "rank_valid q \<Longrightarrow> confined (own_cmd ns RANK_PREFIX) (rank_handle client ns q)"
  by (cases q)
     (auto simp: rank_handler_defs Let_def
       intro!: confined_intros confined_router split: list.split pyval.split)

lemma rank_handle_guarded:
  "\<not> check_access client ns (rank_needs q) \<Longrightarrow> rank_handle client ns q e w =
     (Inl (access_denied client ns (rank_needs q)), after_denial ''namespace_denied'' ''NAMESPACE_DENIED'' w)"
  by (cases q) (simp_all add: rank_handler_defs require_read_def require_write_def bnd_apply require_access_apply)

lemma rank_prefix_no_colon: "colon \<notin> set RANK_PREFIX"
  by (simp add: RANK_PREFIX_def)

interpretation rk: data_plane rank_handle rank_needs rank_valid RANK_PREFIX
  by unfold_locales (simp_all add: rank_handle_guarded rank_handle_own rank_prefix_no_colon)

section \<open>Properties\<close>

text \<open>The scores and increments a command asks the server to store.\<close>

fun written_scores :: "cmd \<Rightarrow> pyfloat list" where
  "written_scores (OnZset k (Zadd ms)) = map snd ms"
| "written_scores (OnZset k (Zincrby x m)) = [x]"
| "written_scores _ = []"

abbreviation finite_scores :: "cmd \<Rightarrow> bool" where
  "finite_scores c \<equiv> list_all isfinite (written_scores c)"

lemma list_all_update: "P (k, v) \<Longrightarrow> list_all P al \<Longrightarrow> list_all P (AList.update k v al)"
  by (induction al) auto

lemma list_all_py_dict: "list_all P kvs \<Longrightarrow> list_all P (py_dict kvs)"
  by (induction kvs rule: rev_induct) (auto simp: py_dict_snoc py_dict_def intro: list_all_update)

lemma check_rank_members_finite:
  "fst (check_rank_members ms e w) = Inr () \<Longrightarrow> list_all (isfinite \<circ> snd) ms"
  by (auto simp: check_rank_members_def eiter_Inr list_all_iff ebind_eq_Inr split: if_splits)

lemma written_ttl_cmd [simp]: "written_scores (ttl_cmd k t) = []"
  by (simp add: ttl_cmd_def)

lemma confined_check_rank_bnd:
  "(list_all (isfinite \<circ> snd) ms \<Longrightarrow> confined P (f ())) \<Longrightarrow> confined P (bnd (check_rank_members ms) f)"
  by (rule confined_bnd_gen [OF confined_check_rank_members]) (auto dest: check_rank_members_finite)

lemma batch_add_rank_finite: "confined finite_scores (batch_add_rank client ns key body)"
  unfolding batch_add_rank_def
  by (intro confined_bnd [OF confined_require_write] confined_check_rank_bnd)
     (auto simp: list.pred_map intro!: confined_intros list_all_py_dict split: list.split)

lemma rank_handle_finite: "confined finite_scores (rank_handle client ns q)"
proof (cases q)
  case (BatchAddRank key body)
  then show ?thesis by (simp add: batch_add_rank_finite)
qed (auto simp: rank_handler_defs Let_def touch_key_def list_all_iff intro!: confined_intros split: list.split if_splits)

text \<open>The scores and increments a request holds, and the members that carry them.\<close>

primrec request_scores :: "rank_request \<Rightarrow> pyfloat list" where
  "request_scores (BatchGetRank body) = []"
| "request_scores (BatchAddRank key body) = map snd (rank_members body)"
| "request_scores (AddRank key body) = [rank_score body]"
| "request_scores (RangeRank key start stop reverse) = []"
| "request_scores (ScoreRank key member) = []"
| "request_scores (BetweenRank key lo hi) = []"
| "request_scores (DeleteRank key) = []"
| "request_scores (RemoveRank key member) = []"
| "request_scores (IncrRank key body) = [incr_delta body]"
| "request_scores (TouchRank key body) = []"
| "request_scores (PopRank key direction) = []"

fun scored_members :: "rank_request \<Rightarrow> string list" where
  "scored_members (BatchAddRank key body) = map fst (rank_members body)"
| "scored_members (AddRank key body) = [rank_member body]"
| "scored_members (IncrRank key body) = [incr_member body]"
| "scored_members _ = []"

text \<open>A write with a score that is not finite is refused before anything is sent, so that it
  cannot change the TTL of its key either.\<close>

lemma check_rank_members_refused:
  assumes "\<not> list_all (isfinite \<circ> snd) ms"
  obtains x where "check_rank_members ms e w = (Inl x, w)"
    and "\<forall>m \<in> set ms. fits e (fst m) \<Longrightarrow> x = score_not_finite"
proof -
  let ?f = "\<lambda>(member, score). ebind (size_check (use_rust e) (max_value_size (defaults (conf e))) ''Member'' member) (\<lambda>_.
        if \<not> isfinite score then Inl score_not_finite else Inr ())"
  obtain x where x: "eiter ?f ms = Inl x"
    using check_rank_members_finite [of ms e w] assms unfolding check_rank_members_def
    by (cases "eiter ?f ms") simp_all
  have "x = score_not_finite" if "\<forall>m \<in> set ms. fits e (fst m)"
    using eiter_Inl_mem [OF x] that by (auto simp: fits_size_check split: if_splits)
  with x that show thesis unfolding check_rank_members_def by blast
qed

lemma infinite_score_refused:
  assumes "\<not> list_all isfinite (request_scores q)"
  shows "\<exists>x w1. rank_handle client ns q e w = (Inl x, w1) \<and> rstate w1 = rstate w \<and> sent w1 = sent w \<and>
    (check_access client ns ''write'' \<and> list_all (fits e) (scored_members q) \<longrightarrow> fst (respond (Inl x)) = 400)"
proof (cases q)
  case (BatchAddRank key body)
  have "\<not> list_all (isfinite \<circ> snd) (rank_members body)" using assms BatchAddRank by (simp add: list.pred_map)
  then obtain x where "check_rank_members (rank_members body) e w = (Inl x, w)"
    "\<forall>m \<in> set (rank_members body). fits e (fst m) \<Longrightarrow> x = score_not_finite"
    by (rule check_rank_members_refused [of _ e w]) blast
  with BatchAddRank show ?thesis
    by (auto simp: batch_add_rank_def require_write_def act_simps require_access_apply respond_def score_not_finite_def error_def list_all_iff)
qed (use assms in \<open>auto simp: rank_handler_defs require_write_def act_simps require_access_apply respond_def score_not_finite_def
  error_def fits_size_check split: sum.split\<close>)

text \<open>The bounds of a range by score are sent as the client gave them.\<close>

lemma rejected_bound:
  assumes "check_access client ns ''read''" and "ns_matches ns" and "key_matches key"
    and "fst (call (redis e) (ZRANGEBYSCORE (join_key ns RANK_PREFIX key) lo hi) (rstate w)) = Inl (ResponseError msg)"
  shows "fst (respond (fst (between_rank client ns key lo hi e w))) = 400"
proof -
  obtain s where "call (redis e) (ZRANGEBYSCORE (join_key ns RANK_PREFIX key) lo hi) (rstate w) = (Inl (ResponseError msg), s)"
    using assms(4) by (metis prod.collapse)
  then show ?thesis
    using assms(1-3)
    by (simp add: between_rank_def require_read_def act_simps require_access_apply key_act_ok prim_defs respond_def error_def)
qed

text \<open>C35: whatever a request holds and whatever the server does, no score or increment that is infinite or
  NaN is sent to be stored. A request that holds one is refused before anything is sent (so the TTL of
  its key is kept too), with 400 where the client may write and the members fit. A bound of a range by
  score is not stored and is sent as it was given; where Redis rejects it, as it does NaN, the answer
  is 400.\<close>

theorem scores_sent_finite:
  fixes e :: "'r env" and w :: "'r world" and client :: client_info and ns :: string and q :: rank_request
  defines "out \<equiv> rank_handle client ns q e w"
  shows "(\<exists>cs. sent (snd out) = sent w @ cs \<and> (\<forall>c \<in> set cs. list_all isfinite (written_scores c))) \<and>
    (\<not> list_all isfinite (request_scores q) \<longrightarrow>
      (\<exists>x. fst out = Inl x) \<and> sent (snd out) = sent w \<and>
      (check_access client ns ''write'' \<and> list_all (fits e) (scored_members q) \<longrightarrow> fst (respond (fst out)) = 400)) \<and>
    (\<forall>key lo hi msg. q = BetweenRank key lo hi \<and> check_access client ns ''read'' \<and> ns_matches ns \<and> key_matches key \<and>
      fst (call (redis e) (ZRANGEBYSCORE (join_key ns RANK_PREFIX key) lo hi) (rstate w)) = Inl (ResponseError msg) \<longrightarrow>
      fst (respond (fst out)) = 400)"
proof (intro conjI allI impI)
  show "\<exists>cs. sent (snd out) = sent w @ cs \<and> (\<forall>c \<in> set cs. list_all isfinite (written_scores c))"
    unfolding out_def by (rule confinedE [OF rank_handle_finite]) (auto simp: list_all_iff)
qed (use infinite_score_refused [of q client ns e w] rejected_bound in \<open>auto simp: out_def\<close>)

theorem scores_sent_finite_witness:
  "let out = rank_handle sample_client ''A'' (AddRank ''k'' \<lparr>rank_member = ''m'', rank_score = NaN, rank_ttl = None\<rparr>)
       sample_env (sample_world Map.empty);
     asked = rank_handle sample_client ''A'' (BetweenRank ''k'' NaN (Flt 1)) sample_env (sample_world Map.empty)
   in fst (respond (fst out)) = 400 \<and> sent (snd out) = [] \<and> fst (respond (fst asked)) = 400"
proof -
  let ?q = "AddRank ''k'' \<lparr>rank_member = ''m'', rank_score = NaN, rank_ttl = None\<rparr>" and ?w = "sample_world Map.empty"
  have "fits sample_env ''m''" by (rule sample_fits) simp
  then have 1: "fst (respond (fst (rank_handle sample_client ''A'' ?q sample_env ?w))) = 400"
    "sent (snd (rank_handle sample_client ''A'' ?q sample_env ?w)) = []"
    using scores_sent_finite [of sample_client "''A''" ?q sample_env ?w] sample_access by simp_all
  have "fst (call (redis sample_env) (ZRANGEBYSCORE (join_key ''A'' RANK_PREFIX ''k'') NaN (Flt 1)) (rstate ?w)) = Inl not_covered"
    by (simp add: sample_env_def keyspace_server_def)
  then have "fst (respond (fst (rank_handle sample_client ''A'' (BetweenRank ''k'' NaN (Flt 1)) sample_env ?w))) = 400"
    using scores_sent_finite [of sample_client "''A''" "BetweenRank ''k'' NaN (Flt 1)" sample_env ?w] sample_access sample_facts
    unfolding not_covered_def by blast
  with 1 show ?thesis by (simp add: Let_def)
qed

lemma rank_never_gone: "fst (rank_handle client ns q e w) = Inr v \<Longrightarrow> never_gone v"
proof -
  have "answers never_gone (rank_handle client ns q)"
    by (cases q) (auto simp: rank_handler_defs Let_def intro!: answers_intros split: if_splits list.split)
  then show "fst (rank_handle client ns q e w) = Inr v \<Longrightarrow> never_gone v" by (rule answersD)
qed

end
