(* ===== verification/Event.thy ===== *)
theory Event
  imports RedisDoc
begin

text \<open>
  \<open>app/routers/event.py\<close>: the stream endpoints under \<open>/ns/{ns}/event\<close>, with the check on
  stream IDs, and the interpretation of \<open>data_plane\<close>. Creating a consumer group, reading
  through it and acknowledging need only the read permission, as the code has it.
\<close>

section \<open>Stream IDs\<close>

text \<open>
  \<open>\d\<close> of a \<open>str\<close> pattern is any decimal digit of Unicode: the code points of the
  UTF-8 bytes, and the first code point of each run of ten digits (category Nd, Unicode 16,
  the version of the Python the image is built with).
\<close>

definition nd_zeros :: "nat list" where
  "nd_zeros =
     [48, 1632, 1776, 1984, 2406, 2534, 2662, 2790, 2918, 3046, 3174, 3302,
      3430, 3558, 3664, 3792, 3872, 4160, 4240, 6112, 6160, 6470, 6608, 6784,
      6800, 6992, 7088, 7232, 7248, 42528, 43216, 43264, 43472, 43504, 43600, 44016,
      65296, 66720, 68912, 68928, 69734, 69872, 69942, 70096, 70384, 70736, 70864, 71248,
      71360, 71376, 71386, 71472, 71904, 72016, 72688, 72784, 73040, 73120, 73552, 90416,
      92768, 92864, 93008, 93552, 118000, 120782, 120792, 120802, 120812, 120822, 123200, 123632,
      124144, 124401, 125264, 130032]"

definition unicode_digits :: "string \<Rightarrow> bool" where
  "unicode_digits s \<longleftrightarrow> s \<noteq> [] \<and> list_all (\<lambda>n. list_ex (\<lambda>z. z \<le> n \<and> n < z + 10) nd_zeros) (utf8_points s)"

text \<open>\<open>_STREAM_ID_RE.match\<close>: \<open>^(0|\d+-\d+)$\<close>, where \<open>$\<close> also matches before a final line feed.\<close>

definition stream_id_body :: "string \<Rightarrow> bool" where
  "stream_id_body s \<longleftrightarrow> s = ''0'' \<or>
     (case cut (CHR ''-'') s of None \<Rightarrow> False | Some (a, b) \<Rightarrow> unicode_digits a \<and> unicode_digits b)"

definition stream_id_matches :: "string \<Rightarrow> bool" where
  "stream_id_matches s \<longleftrightarrow> stream_id_body s \<or> (s \<noteq> [] \<and> last s = newline \<and> stream_id_body (butlast s))"

definition invalid_stream_id :: "string \<Rightarrow> exc" where
  "invalid_stream_id sid = error ''INVALID_STREAM_ID'' (''Invalid stream ID format: '' @ quoted sid) 400"

section \<open>Handlers\<close>

definition batch_publish_event :: "client_info \<Rightarrow> string \<Rightarrow> string \<Rightarrow> event_batch_publish_request \<Rightarrow> ('r, pyval) act" where
  "batch_publish_event client ns key body =
     bnd (require_write client ns) (\<lambda>_.
     bnd (check_values_size (concat (map (\<lambda>evt. map (\<lambda>(name, value). (field_label name, value)) evt)
            (batch_events body)))) (\<lambda>_.
     bnd get_settings (\<lambda>s.
     bnd (key_act ns EVENT_PREFIX key) (\<lambda>redis_key.
     let maxlen = max_stream_length (defaults s) in
     bnd (pipe False (map (\<lambda>evt. XADD redis_key evt maxlen) (batch_events body))) (\<lambda>ids.
     ret (ok_no_ttl (PDict [(''ids'', PList ids), (''count'', PInt (int (length ids)))]) ns key ''stream''))))))"

definition publish_event :: "client_info \<Rightarrow> string \<Rightarrow> string \<Rightarrow> event_publish_request \<Rightarrow> ('r, pyval) act" where
  "publish_event client ns key body =
     bnd (require_write client ns) (\<lambda>_.
     bnd (check_dict_values_size (event_data body)) (\<lambda>_.
     bnd get_settings (\<lambda>s.
     bnd (key_act ns EVENT_PREFIX key) (\<lambda>redis_key.
     bnd (send (XADD redis_key (event_data body) (max_stream_length (defaults s)))) (\<lambda>entry_id.
     ret (ok_no_ttl (PDict [(''id'', entry_id)]) ns key ''stream''))))))"

text \<open>\<open>[{"id": eid, "data": data} for eid, data in entries]\<close>.\<close>

definition event_entry :: "pyval \<Rightarrow> exc + pyval" where
  "event_entry p = (case p of
       PList [eid, data] \<Rightarrow> Inr (PDict [(''id'', eid), (''data'', data)])
     | _ \<Rightarrow> Inl (PyExc ''ValueError''))"

definition event_entries :: "pyval \<Rightarrow> exc + pyval list" where
  "event_entries v = (case v of PList ps \<Rightarrow> emap event_entry ps | _ \<Rightarrow> Inl (PyExc ''TypeError''))"

definition read_events :: "client_info \<Rightarrow> string \<Rightarrow> string \<Rightarrow> string \<Rightarrow> int \<Rightarrow> ('r, pyval) act" where
  "read_events client ns key last_id count =
     bnd (require_read client ns) (\<lambda>_.
     bnd (key_act ns EVENT_PREFIX key) (\<lambda>redis_key.
     if \<not> stream_id_matches last_id then raise (invalid_stream_id last_id)
     else
       (let min_id = (if last_id = ''0'' then ''-'' else CHR ''('' # last_id) in
       bnd (send (XRANGE redis_key min_id ''+'' count)) (\<lambda>entries.
       bnd (lift (event_entries entries)) (\<lambda>events.
       ret (ok_no_ttl (PDict [(''events'', PList events), (''count'', PInt (int (length events)))])
              ns key ''stream''))))))"

definition stream_failed :: exc where
  "stream_failed = error ''INTERNAL_ERROR'' ''Stream operation failed'' 500"

definition create_group :: "client_info \<Rightarrow> string \<Rightarrow> string \<Rightarrow> event_group_create_request \<Rightarrow> ('r, pyval) act" where
  "create_group client ns key body =
     bnd (require_read client ns) (\<lambda>_.
     bnd (key_act ns EVENT_PREFIX key) (\<lambda>redis_key.
     bnd (catch_response (send (XGROUP_CREATE redis_key (create_group_name body) ''0'' True))
            (\<lambda>msg. if contains ''BUSYGROUP'' msg
                   then raise (error ''GROUP_EXISTS''
                          (''Consumer group '' @ quoted (create_group_name body) @ '' already exists'') 409)
                   else raise stream_failed)) (\<lambda>_.
     ret (ok_no_ttl (PDict [(''group'', PStr (create_group_name body)), (''created'', PBool True)])
            ns key ''stream''))))"

text \<open>The loop over the streams of a reply, and over the entries of each.\<close>

definition stream_entries :: "pyval \<Rightarrow> exc + pyval list" where
  "stream_entries p = (case p of PList [stream, entries] \<Rightarrow> event_entries entries | _ \<Rightarrow> Inl (PyExc ''ValueError''))"

definition group_events :: "pyval \<Rightarrow> exc + pyval list" where
  "group_events results =
     (if \<not> truthy results then Inr []
      else case results of
             PList ps \<Rightarrow> ebind (emap stream_entries ps) (\<lambda>evss. Inr (concat evss))
           | _ \<Rightarrow> Inl (PyExc ''TypeError''))"

definition read_group :: "client_info \<Rightarrow> string \<Rightarrow> string \<Rightarrow> string \<Rightarrow> string \<Rightarrow> int \<Rightarrow> ('r, pyval) act" where
  "read_group client ns key gname consumer count =
     bnd (require_read client ns) (\<lambda>_.
     bnd (key_act ns EVENT_PREFIX key) (\<lambda>redis_key.
     bnd (catch_response (send (XREADGROUP redis_key gname consumer ''>'' count))
            (\<lambda>msg. if contains ''NOGROUP'' msg
                   then raise (error ''GROUP_NOT_FOUND'' (''Consumer group '' @ quoted gname @ '' not found'') 404)
                   else raise stream_failed)) (\<lambda>results.
     bnd (lift (group_events results)) (\<lambda>events.
     ret (ok_no_ttl (PDict [(''events'', PList events), (''count'', PInt (int (length events))),
                            (''consumer'', PStr consumer)]) ns key ''stream'')))))"

definition ack_events :: "client_info \<Rightarrow> string \<Rightarrow> string \<Rightarrow> string \<Rightarrow> event_ack_request \<Rightarrow> ('r, pyval) act" where
  "ack_events client ns key gname body =
     bnd (require_read client ns) (\<lambda>_.
     bnd (lift (eiter (\<lambda>sid. if \<not> stream_id_matches sid then Inl (invalid_stream_id sid) else Inr ())
            (ack_ids body))) (\<lambda>_.
     bnd (key_act ns EVENT_PREFIX key) (\<lambda>redis_key.
     bnd (send (XACK redis_key gname (ack_ids body))) (\<lambda>acked.
     ret (ok_no_ttl (PDict [(''acked'', acked)]) ns key ''stream'')))))"

definition delete_event :: "client_info \<Rightarrow> string \<Rightarrow> string \<Rightarrow> ('r, pyval) act" where
  "delete_event client ns key =
     bnd (require_write client ns) (\<lambda>_.
     bnd (key_act ns EVENT_PREFIX key) (\<lambda>redis_key.
     bnd (send (DEL [redis_key])) (\<lambda>deleted.
     if \<not> truthy deleted then raise (not_found key ns)
     else ret (ok_no_ttl (PDict [(''deleted'', PBool True)]) ns key ''stream''))))"

definition touch_event :: "client_info \<Rightarrow> string \<Rightarrow> string \<Rightarrow> ttl_set_request \<Rightarrow> ('r, pyval) act" where
  "touch_event client ns key body =
     bnd (require_write client ns) (\<lambda>_.
     bnd (key_act ns EVENT_PREFIX key) (\<lambda>redis_key.
     touch_key redis_key (touch_ttl body) ns key ''stream''))"

definition group_entry :: "pyval \<Rightarrow> exc + pyval" where
  "group_entry g =
     ebind (dict_item g ''name'') (\<lambda>n.
     ebind (dict_item g ''consumers'') (\<lambda>c.
     ebind (dict_item g ''pending'') (\<lambda>p.
     Inr (PDict [(''name'', n), (''consumers'', c), (''pending'', p)]))))"

definition group_infos :: "pyval \<Rightarrow> exc + pyval list" where
  "group_infos v = (case v of PList gs \<Rightarrow> emap group_entry gs | _ \<Rightarrow> Inl (PyExc ''TypeError''))"

definition stream_info :: "client_info \<Rightarrow> string \<Rightarrow> string \<Rightarrow> ('r, pyval) act" where
  "stream_info client ns key =
     bnd (require_read client ns) (\<lambda>_.
     bnd (key_act ns EVENT_PREFIX key) (\<lambda>redis_key.
     bnd (catch_response (send (XINFO_STREAM redis_key))
            (\<lambda>msg. raise (error ''KEY_NOT_FOUND''
               (''Stream '' @ quoted key @ '' not found in namespace '' @ quoted ns) 404))) (\<lambda>info.
     bnd (catch_response (bnd (send (XINFO_GROUPS redis_key)) (\<lambda>gs. lift (group_infos gs)))
            (\<lambda>msg. ret [])) (\<lambda>groups.
     bnd (lift (dict_item info ''length'')) (\<lambda>len.
     bnd (lift (dict_get_none info ''first-entry'')) (\<lambda>first.
     bnd (lift (dict_get_none info ''last-entry'')) (\<lambda>final.
     ret (ok_no_ttl (PDict [(''length'', len), (''first_entry'', first), (''last_entry'', final),
                            (''groups'', PList groups)]) ns key ''stream''))))))))"

section \<open>The router\<close>

datatype event_request =
    BatchPublishEvent string event_batch_publish_request
  | PublishEvent string event_publish_request
  | ReadEvents string string int
  | CreateGroup string event_group_create_request
  | ReadGroup string string string int
  | AckEvents string string event_ack_request
  | DeleteEvent string
  | TouchEvent string ttl_set_request
  | StreamInfo string

primrec event_handle :: "client_info \<Rightarrow> string \<Rightarrow> event_request \<Rightarrow> ('r, pyval) act" where
  "event_handle client ns (BatchPublishEvent key body) = batch_publish_event client ns key body"
| "event_handle client ns (PublishEvent key body) = publish_event client ns key body"
| "event_handle client ns (ReadEvents key last_id count) = read_events client ns key last_id count"
| "event_handle client ns (CreateGroup key body) = create_group client ns key body"
| "event_handle client ns (ReadGroup key gname consumer count) = read_group client ns key gname consumer count"
| "event_handle client ns (AckEvents key gname body) = ack_events client ns key gname body"
| "event_handle client ns (DeleteEvent key) = delete_event client ns key"
| "event_handle client ns (TouchEvent key body) = touch_event client ns key body"
| "event_handle client ns (StreamInfo key) = stream_info client ns key"

primrec event_needs :: "event_request \<Rightarrow> string" where
  "event_needs (BatchPublishEvent key body) = ''write''"
| "event_needs (PublishEvent key body) = ''write''"
| "event_needs (ReadEvents key last_id count) = ''read''"
| "event_needs (CreateGroup key body) = ''read''"
| "event_needs (ReadGroup key gname consumer count) = ''read''"
| "event_needs (AckEvents key gname body) = ''read''"
| "event_needs (DeleteEvent key) = ''write''"
| "event_needs (TouchEvent key body) = ''write''"
| "event_needs (StreamInfo key) = ''read''"

primrec event_valid :: "event_request \<Rightarrow> bool" where
  "event_valid (BatchPublishEvent key body) = valid_event_batch_publish body"
| "event_valid (PublishEvent key body) = valid_event_publish body"
| "event_valid (ReadEvents key last_id count) = valid_count_query count"
| "event_valid (CreateGroup key body) = valid_event_group_create body"
| "event_valid (ReadGroup key gname consumer count) = valid_count_query count"
| "event_valid (AckEvents key gname body) = valid_event_ack body"
| "event_valid (DeleteEvent key) = True"
| "event_valid (TouchEvent key body) = valid_ttl_set body"
| "event_valid (StreamInfo key) = True"

section \<open>The router keeps to its keys\<close>

lemmas event_handler_defs = batch_publish_event_def publish_event_def read_events_def create_group_def
  read_group_def ack_events_def delete_event_def touch_event_def stream_info_def

lemma event_handle_own: "event_valid q \<Longrightarrow> confined (own_cmd ns EVENT_PREFIX) (event_handle client ns q)"
  by (cases q)
     (auto simp: event_handler_defs Let_def list_all_iff
       intro!: confined_intros confined_router)

lemma event_handle_guarded:
  "\<not> check_access client ns (event_needs q) \<Longrightarrow> event_handle client ns q e w =
     (Inl (access_denied client ns (event_needs q)), after_denial ''namespace_denied'' ''NAMESPACE_DENIED'' w)"
  by (cases q) (simp_all add: event_handler_defs require_read_def require_write_def bnd_apply require_access_apply)

lemma event_prefix_no_colon: "colon \<notin> set EVENT_PREFIX"
  by (simp add: EVENT_PREFIX_def)

interpretation ev: data_plane event_handle event_needs event_valid EVENT_PREFIX
  by unfold_locales (simp_all add: event_handle_guarded event_handle_own event_prefix_no_colon)

section \<open>Properties\<close>

text \<open>The entry IDs a command acknowledges.\<close>

fun acked_ids :: "cmd \<Rightarrow> string list" where
  "acked_ids (OnStream k (Xack g ids)) = ids"
| "acked_ids _ = []"

lemma acked_ttl_cmd [simp]: "acked_ids (ttl_cmd k t) = []"
  by (simp add: ttl_cmd_def)

lemma event_handle_acks: "confined (\<lambda>c. list_all stream_id_matches (acked_ids c)) (event_handle client ns q)"
proof (cases q)
  case (AckEvents key gname body)
  then show ?thesis
    by (auto simp: ack_events_def eiter_Inr list_all_iff split: if_splits
        intro!: confined_bnd [OF confined_require_read] confined_bnd_lift confined_bnd [OF confined_key_act]
          confined_bnd [OF confined_send] confined_intros)
qed (auto simp: event_handler_defs Let_def touch_key_def list_all_iff intro!: confined_intros split: list.split)

text \<open>Whatever a request holds, every entry ID the gateway sends in an acknowledgement has the
  form of a stream ID; malformed ones are refused before anything is sent.\<close>

theorem acked_ids_wellformed:
  "\<exists>cs. sent (snd (event_handle client ns q e w)) = sent w @ cs \<and>
     list_all (\<lambda>c. list_all stream_id_matches (acked_ids c)) cs"
  using event_handle_acks by (rule confinedE) blast

text \<open>The form is not strict: \<open>$\<close> lets a final line feed through, to the server.\<close>

lemma newline_in_stream_id:
  "check_access client ns ''read'' \<Longrightarrow> ns_matches ns \<Longrightarrow> key_matches key \<Longrightarrow>
   sent (snd (read_events client ns key [CHR ''0'', newline] n e w)) =
     sent w @ [XRANGE (join_key ns EVENT_PREFIX key) [CHR ''('', CHR ''0'', newline] ''+'' n]"
proof -
  assume a: "check_access client ns ''read''" "ns_matches ns" "key_matches key"
  have "stream_id_matches [CHR ''0'', newline]" by (simp add: stream_id_matches_def stream_id_body_def newline_def)
  then show ?thesis using a
    by (auto simp: read_events_def require_read_def act_simps key_act_ok send_def Let_def ret_def split: prod.splits sum.splits)
qed

lemma event_never_gone: "fst (event_handle client ns q e w) = Inr v \<Longrightarrow> never_gone v"
proof -
  have "answers never_gone (event_handle client ns q)"
    by (cases q) (auto simp: event_handler_defs Let_def intro!: answers_intros)
  then show "fst (event_handle client ns q e w) = Inr v \<Longrightarrow> never_gone v" by (rule answersD)
qed

end
