(* ===== verification/DataPlane.thy ===== *)
theory DataPlane
  imports Kv MapRouter Queue Group Rank Event
begin

text \<open>
  The six data routers as one: a request for any of them, its handler, the operation it needs
  and the type prefix of its keys. What the interpretations of \<open>data_plane\<close> give for each router is
  put together here, and the endpoint with its dependencies in front of the handler.
\<close>

datatype data_request =
    KvRequest kv_request
  | MapRequest map_request
  | QueueRequest queue_request
  | GroupRequest group_request
  | RankRequest rank_request
  | EventRequest event_request

primrec data_handle :: "client_info \<Rightarrow> string \<Rightarrow> data_request \<Rightarrow> ('r, pyval) act" where
  "data_handle client ns (KvRequest q) = kv_handle client ns q"
| "data_handle client ns (MapRequest q) = map_handle client ns q"
| "data_handle client ns (QueueRequest q) = queue_handle client ns q"
| "data_handle client ns (GroupRequest q) = group_handle client ns q"
| "data_handle client ns (RankRequest q) = rank_handle client ns q"
| "data_handle client ns (EventRequest q) = event_handle client ns q"

primrec data_needs :: "data_request \<Rightarrow> string" where
  "data_needs (KvRequest q) = kv_needs q"
| "data_needs (MapRequest q) = map_needs q"
| "data_needs (QueueRequest q) = queue_needs q"
| "data_needs (GroupRequest q) = group_needs q"
| "data_needs (RankRequest q) = rank_needs q"
| "data_needs (EventRequest q) = event_needs q"

primrec data_valid :: "data_request \<Rightarrow> bool" where
  "data_valid (KvRequest q) = kv_valid q"
| "data_valid (MapRequest q) = map_valid q"
| "data_valid (QueueRequest q) = queue_valid q"
| "data_valid (GroupRequest q) = group_valid q"
| "data_valid (RankRequest q) = rank_valid q"
| "data_valid (EventRequest q) = event_valid q"

primrec data_prefix :: "data_request \<Rightarrow> string" where
  "data_prefix (KvRequest q) = KV_PREFIX"
| "data_prefix (MapRequest q) = MAP_PREFIX"
| "data_prefix (QueueRequest q) = QUEUE_PREFIX"
| "data_prefix (GroupRequest q) = GROUP_PREFIX"
| "data_prefix (RankRequest q) = RANK_PREFIX"
| "data_prefix (EventRequest q) = EVENT_PREFIX"

definition data_endpoint :: "string \<Rightarrow> string \<Rightarrow> data_request \<Rightarrow> ('r, pyval) act" where
  "data_endpoint x_api_key ns q = endpoint x_api_key (\<lambda>client. data_handle client ns q)"

lemma data_own: "data_valid q \<Longrightarrow> confined (own_cmd ns (data_prefix q)) (data_handle client ns q)"
  by (cases q) (simp_all add: kv.own hm.own qu.own grp.own rk.own ev.own)

lemma data_guarded:
  "\<not> check_access client ns (data_needs q) \<Longrightarrow> data_handle client ns q e w =
     (Inl (access_denied client ns (data_needs q)), after_denial ''namespace_denied'' ''NAMESPACE_DENIED'' w)"
  by (cases q) (simp_all add: kv.guarded hm.guarded qu.guarded grp.guarded rk.guarded ev.guarded)

lemma data_prefix_no_colon: "colon \<notin> set (data_prefix q)"
  by (cases q) (simp_all add: prefix_defs)

lemma data_prefix_storage: "data_prefix q \<in> set STORAGE_PREFIXES"
  by (cases q) (simp_all add: STORAGE_PREFIXES_def)

text \<open>A key a request may name, read back.\<close>

lemma own_key_parse: "own_key ns p k \<Longrightarrow> colon \<notin> set p \<Longrightarrow> \<exists>u. parse_key rust k = Inr (ns, p, u) \<and> key_matches u"
  by (auto simp: own_key_def parse_key_Inr dest: pub.ns_no_colon)

lemma own_cmd_parse:
  "own_cmd ns p c \<Longrightarrow> colon \<notin> set p \<Longrightarrow>
   cmd_keys c \<noteq> [] \<and> list_all (\<lambda>k. \<exists>u. parse_key rust k = Inr (ns, p, u) \<and> key_matches u) (cmd_keys c)"
  by (auto simp: own_cmd_def list_all_iff intro: own_key_parse)

end
