(* ===== verification/Json.thy ===== *)
theory Json
  imports PyValues
begin

text \<open>
  \<open>json.dumps\<close> with \<open>ensure_ascii=False\<close> and \<open>json.loads\<close>, as the audit log uses them: a text is
  its UTF-8 bytes. The text of a \<open>float\<close> and the value of one are the parameters \<open>fl\<close> and \<open>pyfl\<close>.
  The facts at the end: a string survives escaping and parsing, whatever its bytes.
\<close>

section \<open>Writing\<close>

definition hex_digit :: "nat \<Rightarrow> char" where
  "hex_digit n = (if n < 10 then char_of (48 + n) else char_of (87 + n))"

abbreviation backslash :: char where "backslash \<equiv> CHR 0x5C"
abbreviation quotation :: char where "quotation \<equiv> CHR 0x22"

definition json_escape_char :: "char \<Rightarrow> string" where
  "json_escape_char c =
     (if c = quotation then [backslash, quotation]
      else if c = backslash then [backslash, backslash]
      else if code c = 8 then [backslash, CHR ''b'']
      else if code c = 12 then [backslash, CHR ''f'']
      else if code c = 10 then [backslash, CHR ''n'']
      else if code c = 13 then [backslash, CHR ''r'']
      else if code c = 9 then [backslash, CHR ''t'']
      else if code c < 32 then [backslash, CHR ''u'', CHR ''0'', CHR ''0'', hex_digit (code c div 16), hex_digit (code c mod 16)]
      else [c])"

definition json_quote :: "string \<Rightarrow> string" where
  "json_quote s = quotation # concat (map json_escape_char s) @ [quotation]"

fun commas :: "string list \<Rightarrow> string" where
  "commas [] = []"
| "commas [s] = s"
| "commas (s # ss) = s @ CHR '','' # commas ss"

lemma emap_cong [fundef_cong]:
  "xs = ys \<Longrightarrow> (\<And>x. x \<in> set ys \<Longrightarrow> f x = g x) \<Longrightarrow> emap f xs = emap g ys"
  by (induction xs arbitrary: ys) auto

function json_dumps :: "(pyfloat \<Rightarrow> string) \<Rightarrow> pyval \<Rightarrow> exc + string" where
  "json_dumps fl PNone = Inr ''null''"
| "json_dumps fl (PBool b) = Inr (if b then ''true'' else ''false'')"
| "json_dumps fl (PInt i) = Inr (int_str i)"
| "json_dumps fl (PFloat x) =
     Inr (case x of Flt q \<Rightarrow> fl x | PosInf \<Rightarrow> ''Infinity'' | NegInf \<Rightarrow> ''-Infinity'' | NaN \<Rightarrow> ''NaN'')"
| "json_dumps fl (PStr s) = Inr (json_quote s)"
| "json_dumps fl (PSet ss) = Inl (PyExc ''TypeError'')"
| "json_dumps fl (PList vs) = ebind (emap (json_dumps fl) vs) (\<lambda>ss. Inr (CHR ''['' # commas ss @ '']''))"
| "json_dumps fl (PDict kvs) =
     ebind (emap (\<lambda>(k, v). ebind (json_dumps fl v) (\<lambda>s. Inr (json_quote k @ CHR '':'' # s))) kvs)
       (\<lambda>ss. Inr (CHR ''{'' # commas ss @ ''}''))"
  by pat_completeness auto
termination
proof (relation "measure (\<lambda>(fl, v). size v)", goal_cases)
  case (2 fl vs v)
  then show ?case by (induction vs) auto
next
  case (3 fl kvs kv k v)
  then show ?case by (induction kvs) auto
qed simp

section \<open>Reading\<close>

definition json_space :: "char \<Rightarrow> bool" where
  "json_space c \<longleftrightarrow> code c \<in> {32, 9, 10, 13}"

abbreviation skip :: "string \<Rightarrow> string" where "skip \<equiv> dropWhile json_space"

definition hex_val :: "char \<Rightarrow> nat option" where
  "hex_val c = (let n = code c in
     if 48 \<le> n \<and> n \<le> 57 then Some (n - 48)
     else if 97 \<le> n \<and> n \<le> 102 then Some (n - 87)
     else if 65 \<le> n \<and> n \<le> 70 then Some (n - 55)
     else None)"

fun hex4 :: "string \<Rightarrow> (nat \<times> string) option" where
  "hex4 (a # b # c # d # r) =
     (case (hex_val a, hex_val b, hex_val c, hex_val d) of
        (Some x, Some y, Some z, Some u) \<Rightarrow> Some (((x * 16 + y) * 16 + z) * 16 + u, r)
      | _ \<Rightarrow> None)"
| "hex4 _ = None"

text \<open>The UTF-8 bytes of a code point.\<close>

definition utf8_enc :: "nat \<Rightarrow> string" where
  "utf8_enc n =
     (if n < 128 then [char_of n]
      else if n < 2048 then [char_of (192 + n div 64), char_of (128 + n mod 64)]
      else if n < 65536 then [char_of (224 + n div 4096), char_of (128 + n div 64 mod 64), char_of (128 + n mod 64)]
      else [char_of (240 + n div 262144), char_of (128 + n div 4096 mod 64),
            char_of (128 + n div 64 mod 64), char_of (128 + n mod 64)])"

text \<open>What follows \<open>\u\<close>: a high surrogate takes a low one that follows it with it.\<close>

definition json_unicode :: "string \<Rightarrow> (string \<times> string) option" where
  "json_unicode s = (case hex4 s of
       None \<Rightarrow> None
     | Some (n, r) \<Rightarrow>
         if 0xD800 \<le> n \<and> n \<le> 0xDBFF \<and> starts_with [backslash, CHR ''u''] r
         then (case hex4 (drop 2 r) of
                 None \<Rightarrow> None
               | Some (m, r') \<Rightarrow>
                   if 0xDC00 \<le> m \<and> m \<le> 0xDFFF
                   then Some (utf8_enc (0x10000 + (n - 0xD800) * 1024 + (m - 0xDC00)), r')
                   else Some (utf8_enc n, r))
         else Some (utf8_enc n, r))"

lemma hex4_shorter: "hex4 s = Some (n, r) \<Longrightarrow> length r < length s"
  by (cases s rule: hex4.cases) (auto split: option.splits)

lemma json_unicode_shorter: "json_unicode s = Some (u, r) \<Longrightarrow> length r < length s"
proof -
  assume u: "json_unicode s = Some (u, r)"
  then obtain n r0 where h: "hex4 s = Some (n, r0)" by (auto simp: json_unicode_def split: option.splits)
  have shorter: "length r1 < length r0" if "hex4 (drop 2 r0) = Some (m, r1)" for m r1
    using hex4_shorter [OF that] by simp
  from u h have "r = r0 \<or> (\<exists>m. hex4 (drop 2 r0) = Some (m, r))"
    by (auto simp: json_unicode_def split: option.splits if_splits)
  then show ?thesis using hex4_shorter [OF h] shorter by fastforce
qed

definition json_simple_escape :: "char \<Rightarrow> char option" where
  "json_simple_escape c = map_of [(quotation, quotation), (backslash, backslash), (CHR ''/'', CHR ''/''),
     (CHR ''b'', char_of (8::nat)), (CHR ''f'', char_of (12::nat)), (CHR ''n'', char_of (10::nat)),
     (CHR ''r'', char_of (13::nat)), (CHR ''t'', char_of (9::nat))] c"

text \<open>The rest of a string after its opening quotation mark.\<close>

function json_string :: "string \<Rightarrow> (string \<times> string) option" where
  "json_string [] = None"
| "json_string (c # s) =
     (if c = quotation then Some ([], s)
      else if c = backslash then
        (case s of
           [] \<Rightarrow> None
         | d # r \<Rightarrow>
             (case json_simple_escape d of
                Some x \<Rightarrow> map_option (\<lambda>(t, r'). (x # t, r')) (json_string r)
              | None \<Rightarrow>
                  if d = CHR ''u''
                  then (case json_unicode r of
                          None \<Rightarrow> None
                        | Some (u, r') \<Rightarrow> map_option (\<lambda>(t, r''). (u @ t, r'')) (json_string r'))
                  else None))
      else if code c < 32 then None
      else map_option (\<lambda>(t, r). (c # t, r)) (json_string s))"
  by pat_completeness auto
termination by (relation "measure length") (auto dest: json_unicode_shorter)

declare json_string.simps(2) [simp del]

text \<open>A number: an optional sign, no superfluous zero, an optional fraction and exponent.\<close>

definition json_frac :: "string \<Rightarrow> string \<times> string" where
  "json_frac s = (case s of
       c # r \<Rightarrow> if c = CHR ''.'' \<and> takeWhile is_digit r \<noteq> []
                then (c # takeWhile is_digit r, dropWhile is_digit r) else ([], s)
     | [] \<Rightarrow> ([], s))"

definition json_exp :: "string \<Rightarrow> string \<times> string" where
  "json_exp s = (case s of
       c # r \<Rightarrow>
         (let sg = takeWhile (\<lambda>d. d = CHR ''-'' \<or> d = CHR ''+'') (take 1 r);
              ds = drop (length sg) r
          in if (c = CHR ''e'' \<or> c = CHR ''E'') \<and> takeWhile is_digit ds \<noteq> []
             then (c # sg @ takeWhile is_digit ds, dropWhile is_digit ds) else ([], s))
     | [] \<Rightarrow> ([], s))"

definition json_int_part :: "string \<Rightarrow> (string \<times> string) option" where
  "json_int_part s = (case s of
       [] \<Rightarrow> None
     | c # r \<Rightarrow> if c = CHR ''0'' then Some ([c], r)
                else if is_digit c then Some (takeWhile is_digit s, dropWhile is_digit s)
                else None)"

definition json_number :: "(string \<Rightarrow> pyfloat option) \<Rightarrow> string \<Rightarrow> (pyval \<times> string) option" where
  "json_number pyfl s =
     (let neg = starts_with ''-'' s;
          body = (if neg then drop 1 s else s)
      in case json_int_part body of
           None \<Rightarrow> None
         | Some (ds, r1) \<Rightarrow>
             (case json_frac r1 of (fr, r2) \<Rightarrow>
              case json_exp r2 of (ex, r3) \<Rightarrow>
                if fr = [] \<and> ex = []
                then Some (PInt ((if neg then -1 else 1) * int (digits_val ds)), r3)
                else map_option (\<lambda>x. (PFloat x, r3)) (pyfl ((if neg then ''-'' else []) @ ds @ fr @ ex))))"

definition json_word :: "string \<Rightarrow> pyval \<Rightarrow> string \<Rightarrow> (pyval \<times> string) option" where
  "json_word w v s = (if starts_with w s then Some (v, drop (length w) s) else None)"

definition json_atom :: "(string \<Rightarrow> pyfloat option) \<Rightarrow> string \<Rightarrow> (pyval \<times> string) option" where
  "json_atom pyfl s =
     (case s of
        [] \<Rightarrow> None
      | c # r \<Rightarrow>
          if c = CHR ''n'' then json_word ''null'' PNone s
          else if c = CHR ''t'' then json_word ''true'' (PBool True) s
          else if c = CHR ''f'' then json_word ''false'' (PBool False) s
          else if c = CHR ''N'' then json_word ''NaN'' (PFloat NaN) s
          else if c = CHR ''I'' then json_word ''Infinity'' (PFloat PosInf) s
          else if starts_with ''-I'' s then json_word ''-Infinity'' (PFloat NegInf) s
          else json_number pyfl s)"

text \<open>
  A value, the elements of an array and the members of an object, at a position that is not
  white space. Every second call consumes a character, so that twice the length of the text
  and two is enough fuel (theory JsonFuel).
\<close>

fun json_value :: "nat \<Rightarrow> (string \<Rightarrow> pyfloat option) \<Rightarrow> string \<Rightarrow> (pyval \<times> string) option"
and json_items :: "nat \<Rightarrow> (string \<Rightarrow> pyfloat option) \<Rightarrow> string \<Rightarrow> (pyval list \<times> string) option"
and json_members :: "nat \<Rightarrow> (string \<Rightarrow> pyfloat option) \<Rightarrow> string \<Rightarrow> ((string \<times> pyval) list \<times> string) option" where
  "json_value 0 pyfl s = None"
| "json_value (Suc n) pyfl s =
     (case s of
        [] \<Rightarrow> None
      | c # r \<Rightarrow>
          if c = quotation then map_option (\<lambda>(t, r'). (PStr t, r')) (json_string r)
          else if c = CHR ''['' then
            (case skip r of
               d # r' \<Rightarrow> if d = CHR '']'' then Some (PList [], r')
                         else map_option (\<lambda>(vs, r''). (PList vs, r'')) (json_items n pyfl (skip r))
             | [] \<Rightarrow> None)
          else if c = CHR ''{'' then
            (case skip r of
               d # r' \<Rightarrow> if d = CHR ''}'' then Some (PDict [], r')
                         else map_option (\<lambda>(kvs, r''). (PDict (py_dict kvs), r'')) (json_members n pyfl (skip r))
             | [] \<Rightarrow> None)
          else json_atom pyfl s)"
| "json_items 0 pyfl s = None"
| "json_items (Suc n) pyfl s =
     (case json_value n pyfl s of
        None \<Rightarrow> None
      | Some (v, r) \<Rightarrow>
          (case skip r of
             d # r' \<Rightarrow> if d = CHR '']'' then Some ([v], r')
                       else if d = CHR '','' then map_option (\<lambda>(vs, r''). (v # vs, r'')) (json_items n pyfl (skip r'))
                       else None
           | [] \<Rightarrow> None))"
| "json_members 0 pyfl s = None"
| "json_members (Suc n) pyfl s =
     (case s of
        [] \<Rightarrow> None
      | q # s' \<Rightarrow>
          if q \<noteq> quotation then None
          else
            (case json_string s' of
               None \<Rightarrow> None
             | Some (k, r) \<Rightarrow>
                 (case skip r of
                    [] \<Rightarrow> None
                  | e # r1 \<Rightarrow>
                      if e \<noteq> CHR '':'' then None
                      else
                        (case json_value n pyfl (skip r1) of
                           None \<Rightarrow> None
                         | Some (v, r2) \<Rightarrow>
                             (case skip r2 of
                                d # r3 \<Rightarrow> if d = CHR ''}'' then Some ([(k, v)], r3)
                                          else if d = CHR '',''
                                          then map_option (\<lambda>(kvs, r4). ((k, v) # kvs, r4)) (json_members n pyfl (skip r3))
                                          else None
                              | [] \<Rightarrow> None)))))"

declare json_value.simps(2) [simp del] json_items.simps(2) [simp del] json_members.simps(2) [simp del]

text \<open>\<open>None\<close> is a \<open>JSONDecodeError\<close>; a text that starts with a byte order mark is refused.\<close>

definition json_loads :: "(string \<Rightarrow> pyfloat option) \<Rightarrow> string \<Rightarrow> pyval option" where
  "json_loads pyfl s =
     (if starts_with [CHR 0xEF, CHR 0xBB, CHR 0xBF] s then None
      else case json_value (2 * length s + 2) pyfl (skip s) of
             Some (v, r) \<Rightarrow> if skip r = [] then Some v else None
           | None \<Rightarrow> None)"

section \<open>A written string is read back\<close>

lemma code_char_of: "n < 256 \<Longrightarrow> code (char_of n) = n"
  by (simp add: code_def)

lemma char_of_code: "char_of (code c) = c"
  by (simp add: code_def)

lemma hex_val_digit: "n < 16 \<Longrightarrow> hex_val (hex_digit n) = Some n"
  by (auto simp: hex_val_def hex_digit_def code_char_of Let_def)

lemma json_string_plain:
  "c \<noteq> quotation \<Longrightarrow> c \<noteq> backslash \<Longrightarrow> \<not> code c < 32 \<Longrightarrow>
   json_string (c # r) = map_option (\<lambda>(t, r). (c # t, r)) (json_string r)"
  by (subst json_string.simps) simp

lemma json_string_simple:
  "json_simple_escape d = Some x \<Longrightarrow>
   json_string (backslash # d # r) = map_option (\<lambda>(t, r'). (x # t, r')) (json_string r)"
  by (subst json_string.simps) simp

lemma json_string_control:
  assumes "code c < 32"
  shows "json_string (backslash # CHR ''u'' # CHR ''0'' # CHR ''0'' # hex_digit (code c div 16) # hex_digit (code c mod 16) # r) =
    map_option (\<lambda>(t, r'). (c # t, r')) (json_string r)"
proof -
  have "hex_val (CHR ''0'') = Some 0" by (simp add: hex_val_def code_def)
  then have "json_unicode (CHR ''0'' # CHR ''0'' # hex_digit (code c div 16) # hex_digit (code c mod 16) # r) = Some ([c], r)"
    using assms char_of_code [of c]
    by (simp add: json_unicode_def hex_val_digit utf8_enc_def split: if_splits)
  moreover have "json_simple_escape (CHR ''u'') = None" by (simp add: json_simple_escape_def)
  ultimately show ?thesis by (subst json_string.simps) simp
qed

lemma json_string_escape_char:
  "json_string (json_escape_char c @ r) = map_option (\<lambda>(t, r'). (c # t, r')) (json_string r)"
proof -
  have simple: "json_simple_escape quotation = Some quotation" "json_simple_escape backslash = Some backslash"
    "code c = 8 \<Longrightarrow> json_simple_escape (CHR ''b'') = Some c" "code c = 12 \<Longrightarrow> json_simple_escape (CHR ''f'') = Some c"
    "code c = 10 \<Longrightarrow> json_simple_escape (CHR ''n'') = Some c" "code c = 13 \<Longrightarrow> json_simple_escape (CHR ''r'') = Some c"
    "code c = 9 \<Longrightarrow> json_simple_escape (CHR ''t'') = Some c"
    using char_of_code [of c] by (simp_all add: json_simple_escape_def)
  show ?thesis
    unfolding json_escape_char_def
    by (simp add: simple json_string_simple json_string_control json_string_plain)
qed

lemma json_string_quote: "json_string (concat (map json_escape_char s) @ quotation # r) = Some (s, r)"
proof (induction s)
  case Nil
  show ?case by (simp add: json_string.simps)
next
  case (Cons c s)
  then show ?case by (simp add: json_string_escape_char)
qed

lemma not_json_space [simp]:
  "\<not> json_space (CHR '':'')" "\<not> json_space (CHR '','')" "\<not> json_space (CHR ''}'')" "\<not> json_space (CHR ''{'')"
  "\<not> json_space quotation" "\<not> json_space (CHR ''n'')"
  by (simp_all add: json_space_def code_def)

lemma json_value_quote [simp]: "json_value (Suc n) pyfl (json_quote s @ r) = Some (PStr s, r)"
  by (simp add: json_value.simps(2) json_quote_def json_string_quote)

text \<open>An object whose values are strings or null.\<close>

definition flat_value :: "pyval \<Rightarrow> bool" where
  "flat_value v \<longleftrightarrow> v = PNone \<or> (\<exists>s. v = PStr s)"

fun flat_text :: "pyval \<Rightarrow> string" where
  "flat_text (PStr s) = json_quote s"
| "flat_text _ = ''null''"

lemma json_dumps_flat_value: "flat_value v \<Longrightarrow> json_dumps fl v = Inr (flat_text v)"
  by (auto simp: flat_value_def)

lemma json_value_flat: "flat_value v \<Longrightarrow> json_value (Suc n) pyfl (flat_text v @ r) = Some (v, r)"
  by (auto simp: flat_value_def json_value.simps(2) json_atom_def json_word_def json_quote_def json_string_quote)

lemma skip_flat: "flat_value v \<Longrightarrow> skip (flat_text v @ r) = flat_text v @ r"
  by (auto simp: flat_value_def json_quote_def)

definition member_text :: "string \<times> pyval \<Rightarrow> string" where
  "member_text kv = json_quote (fst kv) @ CHR '':'' # flat_text (snd kv)"

lemma json_members_step:
  assumes "flat_value v"
  shows "json_members (Suc (Suc m)) pyfl (member_text (k, v) @ CHR ''}'' # r) = Some ([(k, v)], r)"
    and "json_members (Suc (Suc m)) pyfl (member_text (k, v) @ CHR '','' # r) =
      map_option (\<lambda>(kvs, r'). ((k, v) # kvs, r')) (json_members (Suc m) pyfl (skip r))"
  using assms
  by (simp_all add: json_members.simps(2) member_text_def json_quote_def json_string_quote skip_flat json_value_flat
      del: flat_text.simps)

lemma commas_members: "kvs \<noteq> [] \<Longrightarrow> \<exists>t. commas (map member_text kvs) = quotation # t"
  by (cases kvs rule: remdups_adj.cases) (auto simp: member_text_def json_quote_def)

lemma json_members_flat:
  "kvs \<noteq> [] \<Longrightarrow> list_all (\<lambda>(k, v). flat_value v) kvs \<Longrightarrow> 2 * length kvs \<le> n \<Longrightarrow>
   json_members n pyfl (commas (map member_text kvs) @ CHR ''}'' # r) = Some (kvs, r)"
proof (induction kvs arbitrary: n)
  case (Cons kv kvs)
  obtain k v where kv: "kv = (k, v)" by fastforce
  obtain m where n: "n = Suc (Suc m)" using Cons.prems(3) by (cases n; cases "n - 1") auto
  have flat: "flat_value v" using Cons.prems(2) kv by simp
  show ?case
  proof (cases "kvs = []")
    case True
    then show ?thesis using json_members_step(1) [OF flat] by (simp add: n kv)
  next
    case False
    then have "json_members (Suc m) pyfl (commas (map member_text kvs) @ CHR ''}'' # r) = Some (kvs, r)"
      using Cons.IH Cons.prems n by simp
    moreover obtain t where "commas (map member_text kvs) = quotation # t" using commas_members [OF False] ..
    moreover have "commas (map member_text (kv # kvs)) = member_text (k, v) @ CHR '','' # commas (map member_text kvs)"
      using False by (cases kvs) (simp_all add: kv)
    ultimately show ?thesis using json_members_step(2) [OF flat] by (simp add: n kv)
  qed
qed simp

lemma length_commas: "length kvs \<le> length (commas (map member_text kvs))"
  by (induction kvs rule: induct_list012) (auto simp: member_text_def json_quote_def)

lemma AList_update_new: "k \<notin> fst ` set xs \<Longrightarrow> AList.update k v xs = xs @ [(k, v)]"
  by (induction xs) auto

lemma py_dict_id: "distinct (map fst kvs) \<Longrightarrow> py_dict kvs = kvs"
proof (induction kvs rule: rev_induct)
  case (snoc kv kvs)
  then show ?case by (cases kv) (auto simp: py_dict_snoc AList_update_new)
qed (simp add: py_dict_def)

lemma json_roundtrip_flat:
  assumes "kvs \<noteq> []" and "list_all (\<lambda>(k, v). flat_value v) kvs" and "distinct (map fst kvs)"
  shows "\<exists>s. json_dumps fl (PDict kvs) = Inr s \<and> json_loads pyfl s = Some (PDict kvs)"
proof -
  let ?s = "CHR ''{'' # commas (map member_text kvs) @ ''}''"
  have "emap (\<lambda>(k, v). ebind (json_dumps fl v) (\<lambda>s. Inr (json_quote k @ CHR '':'' # s))) kvs = Inr (map member_text kvs)"
    using assms(2) by (induction kvs) (auto simp: json_dumps_flat_value member_text_def)
  then have dumps: "json_dumps fl (PDict kvs) = Inr ?s" by simp
  obtain t where t: "commas (map member_text kvs) = quotation # t" using commas_members [OF assms(1)] ..
  have len: "2 * length kvs \<le> 2 * length ?s + 1"
    using length_commas [of kvs] by simp
  have "json_value (2 * length ?s + 2) pyfl ?s = Some (PDict (py_dict kvs), [])"
    using json_members_flat [OF assms(1,2) len, of pyfl "[]"]
    by (simp add: json_value.simps(2) t)
  moreover have "skip ?s = ?s" by simp
  ultimately show ?thesis using dumps py_dict_id [OF assms(3)] by (simp add: json_loads_def)
qed

text \<open>Writing a dict of scalars always succeeds.\<close>

fun scalar :: "pyval \<Rightarrow> bool" where
  "scalar (PList vs) = False"
| "scalar (PSet ss) = False"
| "scalar (PDict kvs) = False"
| "scalar _ = True"

lemma json_dumps_scalar: "scalar v \<Longrightarrow> \<exists>s. json_dumps fl v = Inr s"
  by (cases v) auto

lemma json_dumps_scalars: "list_all (\<lambda>(k, v). scalar v) kvs \<Longrightarrow> \<exists>s. json_dumps fl (PDict kvs) = Inr s"
proof -
  assume a: "list_all (\<lambda>(k, v). scalar v) kvs"
  have "\<exists>ss. emap (\<lambda>(k, v). ebind (json_dumps fl v) (\<lambda>s. Inr (json_quote k @ CHR '':'' # s))) kvs = Inr ss"
    using a
  proof (induction kvs)
    case (Cons kv kvs)
    then obtain ss where ss: "emap (\<lambda>(k, v). ebind (json_dumps fl v) (\<lambda>s. Inr (json_quote k @ CHR '':'' # s))) kvs = Inr ss"
      by auto
    obtain s where "json_dumps fl (snd kv) = Inr s" using Cons.prems json_dumps_scalar [of "snd kv" fl] by (cases kv) auto
    then show ?case using ss by (cases kv) simp
  qed simp
  then show ?thesis by auto
qed

end
