(* ===== verification/AuditLog.thy ===== *)
theory AuditLog
  imports Auth Json "HOL-Library.Sublist"
begin

text \<open>
  \<open>app/audit/logger.py\<close>: what is read off a request for the audit record, and the queue between
  the requests and the thread that writes the file. The file itself is the theory LogFiles;
  here a line the thread has taken is \<open>written\<close>. Clock, UUID and the text of a \<open>float\<close> are
  parameters.
\<close>

section \<open>Reading a request\<close>

definition request_id_char :: "char \<Rightarrow> bool" where
  "request_id_char c \<longleftrightarrow> is_alnum c \<or> c = CHR ''_'' \<or> c = CHR ''-''"

definition request_id_body :: "string \<Rightarrow> bool" where
  "request_id_body s \<longleftrightarrow> 1 \<le> length s \<and> length s \<le> 128 \<and> list_all request_id_char s"

text \<open>\<open>_REQUEST_ID_RE.match\<close>: \<open>$\<close> also matches before a final line feed.\<close>

definition request_id_matches :: "string \<Rightarrow> bool" where
  "request_id_matches s \<longleftrightarrow>
     request_id_body s \<or> (s \<noteq> [] \<and> last s = newline \<and> request_id_body (butlast s))"

definition validate_request_id :: "string \<Rightarrow> string option \<Rightarrow> string" where
  "validate_request_id uuid value = (case value of
       None \<Rightarrow> uuid
     | Some v \<Rightarrow> if v \<noteq> [] \<and> request_id_matches v then v else uuid)"

definition detect_admin_action :: "string \<Rightarrow> string option" where
  "detect_admin_action path = None"

definition ns_root :: string where
  "ns_root = ''/api/v1/ns/''"

text \<open>The segment after \<open>/api/v1/ns/\<close>, when another slash follows it, and what follows that.\<close>

definition ns_segment :: "string \<Rightarrow> (string \<times> string) option" where
  "ns_segment path =
     (if starts_with ns_root path
      then (case cut (CHR ''/'') (drop (length ns_root) path) of
              None \<Rightarrow> None
            | Some (ns, rest) \<Rightarrow> if ns = [] then None else Some (ns, rest))
      else None)"

definition extract_ns :: "string \<Rightarrow> string option" where
  "extract_ns path = map_option fst (ns_segment path)"

text \<open>
  \<open>([^?]+?)(?:\?.*)?$\<close>: the shortest text without a question mark that is followed by the end
  (or by a final line feed), or by a query of one line.
\<close>

definition one_line :: "string \<Rightarrow> bool" where
  "one_line q \<longleftrightarrow> newline \<notin> set q \<or> (q \<noteq> [] \<and> last q = newline \<and> newline \<notin> set (butlast q))"

definition key_group :: "string \<Rightarrow> string option" where
  "key_group s = (let a = takeWhile (\<lambda>c. c \<noteq> CHR ''?'') s; b = dropWhile (\<lambda>c. c \<noteq> CHR ''?'') s in
     if a = [] then None
     else if b = [] then Some (if last a = newline \<and> 1 < length a then butlast a else a)
     else if one_line (tl b) then Some a
     else None)"

definition route_types :: "string list" where
  "route_types = [''kv'', ''map'', ''queue'', ''group'', ''rank'', ''event'']"

definition extract_key :: "string \<Rightarrow> string option" where
  "extract_key path = (case ns_segment path of
       None \<Rightarrow> None
     | Some (ns, rest) \<Rightarrow>
         (case cut (CHR ''/'') rest of
            None \<Rightarrow> None
          | Some (ty, key) \<Rightarrow> if ty \<in> set route_types then key_group key else None))"

text \<open>The parts of the ASGI scope the audit log reads; header names are lower case.\<close>

record http_scope =
  scope_http :: bool
  scope_path :: string
  scope_method :: string
  scope_headers :: "(string \<times> string) list"
  scope_peer :: "string option"

definition ascii_only :: "string \<Rightarrow> string" where
  "ascii_only s = filter (\<lambda>c. code c < 128) s"

definition extract_ip :: "http_scope \<Rightarrow> string option" where
  "extract_ip scope = (case map_of (scope_headers scope) ''x-real-ip'' of
       Some v \<Rightarrow> (let ip = strip (ascii_only v) in if ip \<noteq> [] then Some ip else scope_peer scope)
     | None \<Rightarrow> scope_peer scope)"

section \<open>The queue and its counters\<close>

text \<open>
  \<open>active\<close>: the logger, the queue and the listener exist. \<open>queued\<close>: what the queue holds;
  \<open>written\<close>: what the listener has handed to the file handler, in order.
\<close>

record audit_state =
  audit_conf :: "audit_config option"
  active :: bool
  queued :: "string list"
  written :: "string list"
  event_count :: nat
  dropped_queue_full :: nat
  dropped_disk_full :: nat

definition audit_off :: audit_state where
  "audit_off = \<lparr>audit_conf = None, active = False, queued = [], written = [], event_count = 0,
     dropped_queue_full = 0, dropped_disk_full = 0\<rparr>"

definition QUEUE_MAXSIZE :: nat where
  "QUEUE_MAXSIZE = 10000"

text \<open>The third argument: what making the directory and the file handler raises, if anything.\<close>

definition init_audit_logger :: "audit_config \<Rightarrow> exc option \<Rightarrow> audit_state \<Rightarrow> exc option \<times> audit_state" where
  "init_audit_logger config failed st =
     (let st1 = st\<lparr>audit_conf := Some config, event_count := 0\<rparr> in
      if audit_level config = 0 then (None, st1)
      else case failed of
             Some x \<Rightarrow> (Some x, st1)
           | None \<Rightarrow> (None, st1\<lparr>active := True, queued := []\<rparr>))"

text \<open>\<open>_DropCountingQueueHandler.enqueue\<close>: \<open>put_nowait\<close>, or one more dropped.\<close>

definition audit_enqueue :: "string \<Rightarrow> audit_state \<Rightarrow> audit_state" where
  "audit_enqueue line st =
     (if length (queued st) < QUEUE_MAXSIZE then st\<lparr>queued := queued st @ [line]\<rparr>
      else st\<lparr>dropped_queue_full := dropped_queue_full st + 1\<rparr>)"

definition increment_event_count :: "audit_state \<Rightarrow> audit_state" where
  "increment_event_count st = st\<lparr>event_count := event_count st + 1\<rparr>"

text \<open>\<open>logger.info(line)\<close> and \<open>increment_event_count()\<close>.\<close>

definition log_line :: "string \<Rightarrow> audit_state \<Rightarrow> audit_state" where
  "log_line line st = increment_event_count (audit_enqueue line st)"

text \<open>The listener takes one record off the queue.\<close>

definition listener_step :: "audit_state \<Rightarrow> audit_state" where
  "listener_step st = (case queued st of
       [] \<Rightarrow> st
     | line # rest \<Rightarrow> st\<lparr>queued := rest, written := written st @ [line]\<rparr>)"

definition increment_dropped_disk_full :: "nat \<Rightarrow> audit_state \<Rightarrow> audit_state" where
  "increment_dropped_disk_full n st = st\<lparr>dropped_disk_full := dropped_disk_full st + n\<rparr>"

definition get_dropped_counts :: "audit_state \<Rightarrow> pyval" where
  "get_dropped_counts st = PDict [(''queue_full'', PInt (int (dropped_queue_full st))),
     (''disk_full'', PInt (int (dropped_disk_full st)))]"

definition reset_dropped_counts :: "audit_state \<Rightarrow> audit_state" where
  "reset_dropped_counts st = st\<lparr>dropped_queue_full := 0, dropped_disk_full := 0\<rparr>"

definition get_queue_size :: "audit_state \<Rightarrow> nat" where
  "get_queue_size st = (if active st then length (queued st) else 0)"

text \<open>
  \<open>QueueListener.stop\<close> puts a sentinel on the queue and waits for the thread, which writes all
  that is before it. On a full queue putting the sentinel raises, \<open>except Exception: pass\<close> goes on,
  and nobody waits for the lines still queued.
\<close>

definition stop_listener :: "audit_state \<Rightarrow> audit_state" where
  "stop_listener st =
     (if length (queued st) < QUEUE_MAXSIZE then st\<lparr>written := written st @ queued st, queued := []\<rparr> else st)"

definition shutdown_audit_logger :: "audit_state \<Rightarrow> nat \<times> audit_state" where
  "shutdown_audit_logger st =
     (event_count st, (if active st then stop_listener st else st)\<lparr>active := False\<rparr>)"

definition reset_audit_logger :: "audit_state \<Rightarrow> audit_state" where
  "reset_audit_logger st =
     (if active st then stop_listener st else st)\<lparr>active := False, audit_conf := None, event_count := 0\<rparr>"

section \<open>The record\<close>

definition opt_str :: "string option \<Rightarrow> pyval" where
  "opt_str v = (case v of None \<Rightarrow> PNone | Some s \<Rightarrow> PStr s)"

text \<open>The time of UTC, the years with four digits. \<open>zero_pad\<close> is the format \<open>:03d\<close> and the fields of \<open>strftime\<close>.\<close>

record utc_time =
  utc_year :: nat
  utc_month :: nat
  utc_day :: nat
  utc_hour :: nat
  utc_minute :: nat
  utc_second :: nat
  utc_microsecond :: nat

definition zero_pad :: "nat \<Rightarrow> nat \<Rightarrow> string" where
  "zero_pad width n = replicate (width - length (nat_str n)) (CHR ''0'') @ nat_str n"

definition format_iso_ts_now :: "utc_time \<Rightarrow> string" where
  "format_iso_ts_now t =
     zero_pad 4 (utc_year t) @ ''-'' @ zero_pad 2 (utc_month t) @ ''-'' @ zero_pad 2 (utc_day t) @ ''T'' @
     zero_pad 2 (utc_hour t) @ '':'' @ zero_pad 2 (utc_minute t) @ '':'' @ zero_pad 2 (utc_second t) @ ''.'' @
     zero_pad 3 (utc_microsecond t div 1000) @ ''Z''"

text \<open>What a record takes from outside: \<open>uuid4\<close>, the time, the duration and the text of a float.\<close>

record audit_clock =
  fresh_uuid :: string
  utc_now :: utc_time
  elapsed_ms :: pyfloat
  float_text :: "pyfloat \<Rightarrow> string"

definition in_clock :: "utc_time \<Rightarrow> bool" where
  "in_clock t \<longleftrightarrow> utc_year t < 10000 \<and> utc_month t \<le> 12 \<and> utc_day t \<le> 31 \<and> utc_hour t < 24 \<and> utc_minute t < 60 \<and>
     utc_second t < 60 \<and> utc_microsecond t < 1000000"

lemma length_nat_str: "n < 10 ^ w \<Longrightarrow> 0 < w \<Longrightarrow> length (nat_str n) \<le> w"
proof (induction w arbitrary: n)
  case (Suc w)
  show ?case
  proof (cases "n < 10")
    case False
    with Suc.prems have "n div 10 < 10 ^ w" "0 < w" by (cases w; auto)+
    from Suc.IH [OF this] show ?thesis using False by (simp add: nat_str.simps [of n])
  qed (simp add: nat_str.simps [of n])
qed simp

lemma digits_val_pad: "digits_val (zero_pad w n) = n"
proof -
  have "digits_val (replicate k (CHR ''0'') @ ds) = digits_val ds" for k ds
    by (induction k) (simp_all add: digits_val_def code_def)
  then show ?thesis by (simp add: zero_pad_def digits_val_nat_str)
qed

lemma length_zero_pad: "n < 10 ^ w \<Longrightarrow> 0 < w \<Longrightarrow> length (zero_pad w n) = w"
  using length_nat_str [of n w] by (simp add: zero_pad_def)

lemma zero_pad_inject: "zero_pad w m = zero_pad w n \<longleftrightarrow> m = n"
  by (metis digits_val_pad)

text \<open>The time stamp has one width and tells the times apart to the millisecond.\<close>

lemma format_iso_length: "in_clock t \<Longrightarrow> length (format_iso_ts_now t) = 24"
proof -
  assume "in_clock t"
  moreover from this have "utc_microsecond t div 1000 < 1000" by (simp add: in_clock_def less_mult_imp_div_less)
  ultimately show ?thesis by (simp add: format_iso_ts_now_def in_clock_def length_zero_pad)
qed

lemma format_iso_inject:
  assumes "in_clock t" and "in_clock t'" and "format_iso_ts_now t = format_iso_ts_now t'"
  shows "t\<lparr>utc_microsecond := utc_microsecond t div 1000\<rparr> = t'\<lparr>utc_microsecond := utc_microsecond t' div 1000\<rparr>"
  using assms by (simp add: format_iso_ts_now_def in_clock_def length_zero_pad zero_pad_inject)

definition sample_time :: utc_time where
  "sample_time = \<lparr>utc_year = 2026, utc_month = 5, utc_day = 29,
     utc_hour = 3, utc_minute = 14, utc_second = 25, utc_microsecond = 123456\<rparr>"

definition audit_record ::
  "string \<Rightarrow> string \<Rightarrow> string \<Rightarrow> string option \<Rightarrow> http_scope \<Rightarrow> pyval \<Rightarrow> string option \<Rightarrow> pyval
     \<Rightarrow> pyval \<times> pyval \<times> pyval \<Rightarrow> (string \<times> pyval) list" where
  "audit_record ts request_id event cid scope status error_code latency_ms body_facts =
     (case body_facts of (value_hash, value_size, value_type) \<Rightarrow>
      [(''ts'', PStr ts), (''request_id'', PStr request_id), (''event'', PStr event), (''client_id'', opt_str cid),
       (''ip'', opt_str (extract_ip scope)), (''method'', PStr (scope_method scope)), (''path'', PStr (scope_path scope)),
       (''ns'', opt_str (extract_ns (scope_path scope))), (''key'', opt_str (extract_key (scope_path scope))),
       (''status'', status), (''error_code'', opt_str error_code), (''latency_ms'', latency_ms),
       (''value_hash'', value_hash), (''value_size'', value_size), (''value_type'', value_type),
       (''admin_action'', opt_str (detect_admin_action (scope_path scope))), (''schema_version'', PInt 1)])"

text \<open>\<open>record.update(extra)\<close>, the line, and the two calls; whatever raises is dropped.\<close>

definition write_record :: "audit_clock \<Rightarrow> (string \<times> pyval) list \<Rightarrow> audit_state \<Rightarrow> audit_state" where
  "write_record clock rec st = (case json_dumps (float_text clock) (PDict rec) of
       Inl x \<Rightarrow> st
     | Inr line \<Rightarrow> log_line line st)"

definition record_event ::
  "audit_clock \<Rightarrow> string \<Rightarrow> http_scope \<Rightarrow> string option \<Rightarrow> string option \<Rightarrow> string option \<Rightarrow> int option
     \<Rightarrow> (string \<times> pyval) list \<Rightarrow> audit_state \<Rightarrow> audit_state" where
  "record_event clock event scope scope_request_id cid error_code status extra st =
     (case audit_conf st of
        None \<Rightarrow> st
      | Some config \<Rightarrow>
          if \<not> active st \<or> audit_level config = 0 then st
          else if scope_path scope \<in> set (exclude_paths config) then st
          else
            (let request_id = (case scope_request_id of
                   Some r \<Rightarrow> if r \<noteq> [] then r else fresh_uuid clock | None \<Rightarrow> fresh_uuid clock);
                 rec = audit_record (format_iso_ts_now (utc_now clock)) request_id event cid scope
                   (case status of Some n \<Rightarrow> PInt n | None \<Rightarrow> PNone) error_code PNone (PNone, PNone, PNone)
             in write_record clock (foldl (\<lambda>r (k, v). AList.update k v r) rec extra) st))"

section \<open>No captured line is lost unseen\<close>

text \<open>What happens while the gateway runs: a line is captured, the listener takes one, old files are deleted.\<close>

datatype audit_event = Captured string | Taken | FilesDropped nat

primrec audit_step :: "audit_event \<Rightarrow> audit_state \<Rightarrow> audit_state" where
  "audit_step (Captured line) st = log_line line st"
| "audit_step Taken st = listener_step st"
| "audit_step (FilesDropped n) st = increment_dropped_disk_full n st"

primrec captured :: "audit_event \<Rightarrow> string list" where
  "captured (Captured line) = [line]"
| "captured Taken = []"
| "captured (FilesDropped n) = []"

definition accounted :: "string list \<Rightarrow> audit_state \<Rightarrow> bool" where
  "accounted ls st \<longleftrightarrow> subseq (written st @ queued st) ls \<and> event_count st = length ls \<and>
     length ls = length (written st) + length (queued st) + dropped_queue_full st \<and>
     length (queued st) \<le> QUEUE_MAXSIZE"

lemma accounted_step: "accounted ls st \<Longrightarrow> accounted (ls @ captured ev) (audit_step ev st)"
proof (cases ev)
  case (Captured line)
  assume "accounted ls st"
  then show ?thesis
    using Captured list_emb_append_mono [of "(=)" "written st @ queued st" ls "[line]" "[line]"]
    by (auto simp: accounted_def log_line_def increment_event_count_def audit_enqueue_def intro: subseq_rev_drop_many)
next
  case Taken
  assume "accounted ls st"
  then show ?thesis using Taken by (auto simp: accounted_def listener_step_def split: list.splits)
next
  case (FilesDropped n)
  assume "accounted ls st"
  then show ?thesis using FilesDropped by (auto simp: accounted_def increment_dropped_disk_full_def)
qed

lemma accounted_run:
  "accounted ls st \<Longrightarrow> accounted (ls @ concat (map captured es)) (fold audit_step es st)"
proof (induction es arbitrary: ls st)
  case (Cons ev es)
  from Cons.IH [OF accounted_step [OF Cons.prems]] show ?case by simp
qed simp

lemma active_step: "active (audit_step ev st) = active st"
  by (cases ev) (simp_all add: log_line_def increment_event_count_def audit_enqueue_def listener_step_def
      increment_dropped_disk_full_def split: list.splits)

text \<open>C21: from its start on, the audit log accounts for every captured line: each one has been handed to the file,
  waits in the queue or is counted as dropped, the lines kept are in the order they were captured, and
  the queue never exceeds its bound; a shutdown whose queue is not full leaves no line behind.\<close>

theorem audit_lines_accounted:
  assumes "audit_level config \<noteq> 0"
    and "st = fold audit_step es (snd (init_audit_logger config None audit_off))"
    and "ls = concat (map captured es)"
  shows "accounted ls st \<and>
    (length (queued st) < QUEUE_MAXSIZE \<longrightarrow>
       (\<exists>st'. shutdown_audit_logger st = (length ls, st') \<and> queued st' = [] \<and> subseq (written st') ls \<and>
          length (written st') = length ls - dropped_queue_full st))"
proof -
  have "accounted [] (snd (init_audit_logger config None audit_off))"
    using assms(1) by (simp add: accounted_def init_audit_logger_def audit_off_def Let_def)
  from accounted_run [OF this, of es] have acc: "accounted ls st" by (simp add: assms(2,3))
  have "active (fold audit_step es s) = active s" for s
    by (induction es arbitrary: s) (simp_all add: active_step)
  then have "active st"
    using assms(1,2) by (simp add: init_audit_logger_def Let_def)
  with acc show ?thesis by (simp add: shutdown_audit_logger_def stop_listener_def accounted_def)
qed

theorem audit_lines_accounted_witness:
  "let st = fold audit_step [Captured ''a'', Captured ''b'', Taken] (snd (init_audit_logger (audit default_settings) None audit_off))
   in accounted [''a'', ''b''] st \<and> written st = [''a''] \<and> queued st = [''b'']"
proof -
  let ?es = "[Captured ''a'', Captured ''b'', Taken]"
  let ?st = "fold audit_step ?es (snd (init_audit_logger (audit default_settings) None audit_off))"
  have "audit_level (audit default_settings) \<noteq> 0" by (simp add: default_settings_def)
  from audit_lines_accounted [OF this refl refl, of ?es] have "accounted [''a'', ''b''] ?st" by simp
  moreover have "written ?st = [''a''] \<and> queued ?st = [''b'']"
    by (simp add: init_audit_logger_def audit_off_def default_settings_def log_line_def increment_event_count_def
        audit_enqueue_def QUEUE_MAXSIZE_def listener_step_def)
  ultimately show ?thesis by (simp add: Let_def)
qed

text \<open>When the queue is full at shutdown, nothing of it is waited for.\<close>

lemma full_queue_abandoned:
  "active st \<Longrightarrow> length (queued st) = QUEUE_MAXSIZE \<Longrightarrow> written (snd (shutdown_audit_logger st)) = written st"
  by (simp add: shutdown_audit_logger_def stop_listener_def)

end
