(* ===== verification/AuditMiddleware.thy ===== *)
theory AuditMiddleware
  imports AuditLog Keys
begin

text \<open>
  \<open>app/audit/middleware.py\<close>: the ASGI middleware of the audit log around the rest of the
  application. The application is an argument: what it took from \<open>receive\<close>, what it gave to \<open>send\<close>,
  what it raised, and the path parameter \<open>key\<close> the router left in the scope. The hash of a body
  is a parameter.
\<close>

section \<open>What is captured\<close>

definition MAX_CAPTURE_BODY :: nat where
  "MAX_CAPTURE_BODY = 1024 * 1024"

definition is_write :: "string \<Rightarrow> bool" where
  "is_write method \<longleftrightarrow> method \<in> {''PUT'', ''POST'', ''DELETE''}"

definition decide_capture :: "string \<Rightarrow> string \<Rightarrow> int \<Rightarrow> bool" where
  "decide_capture method path level =
     (if level = 0 then False
      else
        (let is_admin = starts_with ''/api/v1/admin/'' path;
             is_pubsub_publish = contains ''/publish/'' path
         in if level = 1
            then (if is_admin then True else if is_pubsub_publish then False else is_write method)
            else True))"

text \<open>
  The next character of a byte string by strict UTF-8: whether it is well formed, and its
  length, or the length of the longest start of one (what \<open>errors="replace"\<close> turns into one
  replacement character).
\<close>

definition utf8_need :: "char \<Rightarrow> (nat \<times> nat \<times> nat) option" where
  "utf8_need c = (let n = code c in
     if n < 128 then Some (0, 0, 0)
     else if n < 194 then None
     else if n < 224 then Some (1, 128, 191)
     else if n = 224 then Some (2, 160, 191)
     else if n = 237 then Some (2, 128, 159)
     else if n < 240 then Some (2, 128, 191)
     else if n = 240 then Some (3, 144, 191)
     else if n < 244 then Some (3, 128, 191)
     else if n = 244 then Some (3, 128, 143)
     else None)"

definition utf8_cont :: "char \<Rightarrow> bool" where
  "utf8_cont c \<longleftrightarrow> 128 \<le> code c \<and> code c \<le> 191"

definition utf8_next :: "char \<Rightarrow> string \<Rightarrow> bool \<times> nat" where
  "utf8_next c s = (case utf8_need c of
       None \<Rightarrow> (False, 1)
     | Some (need, lo, hi) \<Rightarrow>
         if need = 0 then (True, 1)
         else
           (let run = (case s of
                  d # r \<Rightarrow> if lo \<le> code d \<and> code d \<le> hi
                           then 1 + length (takeWhile utf8_cont (take (need - 1) r)) else 0
                | [] \<Rightarrow> 0)
            in (run = need, 1 + run)))"

function utf8_valid :: "string \<Rightarrow> bool" where
  "utf8_valid [] = True"
| "utf8_valid (c # s) = (fst (utf8_next c s) \<and> utf8_valid (drop (snd (utf8_next c s) - 1) s))"
  by pat_completeness auto
termination by (relation "measure length") auto

function utf8_replace :: "string \<Rightarrow> string" where
  "utf8_replace [] = []"
| "utf8_replace (c # s) =
     (if fst (utf8_next c s) then c # take (snd (utf8_next c s) - 1) s else [CHR 0xEF, CHR 0xBF, CHR 0xBD]) @
     utf8_replace (drop (snd (utf8_next c s) - 1) s)"
  by pat_completeness auto
termination by (relation "measure length") auto

definition detect_value_type :: "string \<Rightarrow> string \<Rightarrow> string" where
  "detect_value_type body content_type =
     (let ct = lower (strip (hd (split_on (CHR '';'') content_type))) in
      if ct = ''application/json'' then ''json''
      else if ct = ''application/octet-stream'' then ''binary''
      else if utf8_valid body then ''string''
      else ''binary'')"

section \<open>Messages\<close>

datatype asgi_in = HttpRequest string | HttpDisconnect

datatype asgi_out = ResponseStart nat "(string \<times> string) list" | ResponseBody string bool

record asgi_result =
  received :: "asgi_in list"
  emitted :: "asgi_out list"
  failure :: "exc option"
  path_key :: "string option"

type_synonym 'r asgi_app = "'r env \<Rightarrow> 'r world \<Rightarrow> asgi_result \<times> 'r world"

text \<open>\<open>receive_wrapper\<close>: the buffer, its length, and whether it was cut.\<close>

fun capture_step :: "string \<times> nat \<times> bool \<Rightarrow> asgi_in \<Rightarrow> string \<times> nat \<times> bool" where
  "capture_step (buf, got, truncated) (HttpRequest chunk) =
     (if chunk \<noteq> [] \<and> \<not> truncated then
        (let remaining = MAX_CAPTURE_BODY - got in
         if length chunk \<le> remaining then (buf @ chunk, got + length chunk, False)
         else (buf @ take remaining chunk, got + remaining, True))
      else (buf, got, truncated))"
| "capture_step st HttpDisconnect = st"

definition capture_body :: "asgi_in list \<Rightarrow> string" where
  "capture_body msgs = fst (foldl capture_step ([], 0, False) msgs)"

text \<open>\<open>send_wrapper\<close>: the status it sees, and what it passes on.\<close>

fun status_step :: "nat \<Rightarrow> asgi_out \<Rightarrow> nat" where
  "status_step old (ResponseStart status hdrs) = status"
| "status_step old (ResponseBody body more_body) = old"

definition status_seen :: "asgi_out list \<Rightarrow> nat" where
  "status_seen msgs = foldl status_step 0 msgs"

fun echo_id :: "string \<Rightarrow> asgi_out \<Rightarrow> asgi_out" where
  "echo_id rid (ResponseStart status hdrs) =
     ResponseStart status (filter (\<lambda>(n, v). n \<noteq> ''x-request-id'') hdrs @ [(''x-request-id'', ascii_only rid)])"
| "echo_id rid (ResponseBody body more_body) = ResponseBody body more_body"

section \<open>The origin of a write\<close>

definition origin_key :: "string \<Rightarrow> string" where
  "origin_key redis_key = ''__redgw:audit:origin:'' @ redis_key"

definition get_scope_client :: "('r, string option) act" where
  "get_scope_client = (\<lambda>e w. (Inr (scope_client w), w))"

definition origin_value :: "string \<Rightarrow> string option \<Rightarrow> string \<Rightarrow> pyval" where
  "origin_value request_id cid ts =
     PDict [(''request_id'', PStr request_id), (''client_id'', opt_str cid), (''ts'', PStr ts)]"

definition write_origin :: "audit_clock \<Rightarrow> audit_config \<Rightarrow> string \<Rightarrow> string \<Rightarrow> string \<Rightarrow> string \<Rightarrow> ('r, unit) act" where
  "write_origin clock config request_id path ns_val key_val =
     (let parts = split_on (CHR ''/'') path in
      if length parts \<ge> 6 then
        bnd (lift (resolve_type_prefix (parts ! 5))) (\<lambda>type_prefix.
        bnd (key_act ns_val type_prefix key_val) (\<lambda>redis_key.
        bnd get_scope_client (\<lambda>cid.
        bnd (lift (json_dumps (float_text clock) (origin_value request_id cid (format_iso_ts_now (utc_now clock))))) (\<lambda>value.
        bnd get_redis (\<lambda>_.
        bnd (send (SET (origin_key redis_key) value (Some (correlation_ttl_seconds config)) False)) (\<lambda>_.
        ret ()))))))
      else ret ())"

section \<open>After the response\<close>

definition body_facts :: "(string \<Rightarrow> string) \<Rightarrow> string \<Rightarrow> string \<Rightarrow> string \<Rightarrow> pyval \<times> pyval \<times> pyval" where
  "body_facts sha256_hex method body content_type =
     (if is_write method \<and> body \<noteq> []
      then (PStr (take 16 (sha256_hex body)), PInt (int (length body)), PStr (detect_value_type body content_type))
      else (PNone, PNone, PNone))"

definition capture_record ::
  "audit_clock \<Rightarrow> (string \<Rightarrow> string) \<Rightarrow> audit_config \<Rightarrow> http_scope \<Rightarrow> string \<Rightarrow> string option
     \<Rightarrow> (string \<times> string option) option \<Rightarrow> string \<Rightarrow> nat \<Rightarrow> (string \<times> pyval) list" where
  "capture_record clock sha256_hex config scope request_id cid pend body status =
     (let content_type = (case map_of (scope_headers scope) ''content-type'' of Some v \<Rightarrow> ascii_only v | None \<Rightarrow> []);
          ev = (case pend of Some (event, error_code) \<Rightarrow> (event, error_code) | None \<Rightarrow> (''api_call'', None));
          rec = audit_record (format_iso_ts_now (utc_now clock)) request_id (fst ev) cid scope (PInt (int status)) (snd ev)
            (PFloat (elapsed_ms clock)) (body_facts sha256_hex (scope_method scope) body content_type)
      in if audit_level config = 2 \<and> payload_prefix_bytes config > 0 \<and> body \<noteq> []
         then rec @ [(''value_prefix'', PStr (utf8_replace (take (nat (payload_prefix_bytes config)) body)))]
         else rec)"

text \<open>
  The \<open>finally\<close> block: the pending event is consumed, the line is logged, and a successful write
  leaves its origin in Redis. What raises on the way ends it silently.
\<close>

definition finish_capture ::
  "audit_clock \<Rightarrow> (string \<Rightarrow> string) \<Rightarrow> audit_config \<Rightarrow> http_scope \<Rightarrow> string \<Rightarrow> asgi_result
     \<Rightarrow> 'r env \<Rightarrow> 'r world \<times> audit_state \<Rightarrow> 'r world \<times> audit_state" where
  "finish_capture clock sha256_hex config scope request_id out e ws = (case ws of (w, st) \<Rightarrow>
     let body = capture_body (received out);
         status = status_seen (emitted out);
         pend = pending w;
         w1 = w\<lparr>pending := None\<rparr>;
         rec = capture_record clock sha256_hex config scope request_id (scope_client w1) pend body status
     in case json_dumps (float_text clock) (PDict rec) of
          Inl x \<Rightarrow> (w1, st)
        | Inr line \<Rightarrow>
            (case (extract_ns (scope_path scope), path_key out) of
               (Some ns_val, Some key_val) \<Rightarrow>
                 if correlation config \<and> is_write (scope_method scope) \<and> ns_val \<noteq> [] \<and> key_val \<noteq> [] \<and> status < 400
                 then (snd (ignore_errors (write_origin clock config request_id (scope_path scope) ns_val key_val) e w1),
                       log_line line st)
                 else (w1, log_line line st)
             | _ \<Rightarrow> (w1, log_line line st)))"

definition finish_passed ::
  "audit_clock \<Rightarrow> http_scope \<Rightarrow> string \<Rightarrow> bool \<Rightarrow> asgi_result \<Rightarrow> 'r world \<times> audit_state \<Rightarrow> 'r world \<times> audit_state" where
  "finish_passed clock scope request_id record_pending out ws = (case ws of (w, st) \<Rightarrow>
     let w1 = w\<lparr>pending := None\<rparr> in
     case pending w of
       Some (event, error_code) \<Rightarrow>
         if record_pending
         then (w1, if active st
                   then write_record clock (audit_record (format_iso_ts_now (utc_now clock)) request_id event (scope_client w1) scope
                          (PInt (int (status_seen (emitted out)))) error_code (PFloat (elapsed_ms clock)) (PNone, PNone, PNone)) st
                   else st)
         else (w1, st)
     | None \<Rightarrow> (w1, st))"

section \<open>The middleware\<close>

definition audit_middleware ::
  "audit_clock \<Rightarrow> (string \<Rightarrow> string) \<Rightarrow> http_scope \<Rightarrow> 'r asgi_app \<Rightarrow> 'r env
     \<Rightarrow> 'r world \<times> audit_state \<Rightarrow> asgi_result \<times> 'r world \<times> audit_state" where
  "audit_middleware clock sha256_hex scope app e ws = (case ws of (w, st) \<Rightarrow>
     case app e w of (out, w') \<Rightarrow>
     case (scope_http scope, audit_conf st, active st) of
       (True, Some config, True) \<Rightarrow>
         (let raw_id = (case map_of (scope_headers scope) ''x-request-id'' of Some v \<Rightarrow> ascii_only v | None \<Rightarrow> []);
              request_id = validate_request_id (fresh_uuid clock) (Some raw_id);
              out' = out\<lparr>emitted := map (echo_id request_id) (emitted out)\<rparr>
          in if scope_path scope \<in> set (exclude_paths config)
             then (out', finish_passed clock scope request_id False out (w', st))
             else if \<not> decide_capture (scope_method scope) (scope_path scope) (audit_level config)
             then (out', finish_passed clock scope request_id True out (w', st))
             else (out', finish_capture clock sha256_hex config scope request_id out e (w', st)))
     | _ \<Rightarrow> (out, w', st))"

lemma status_step_echo: "status_step n (echo_id rid m) = status_step n m"
  by (cases m) simp_all

lemma status_seen_echo [simp]: "status_seen (map (echo_id rid) ms) = status_seen ms"
proof -
  have "foldl status_step n (map (echo_id rid) ms) = foldl status_step n ms" for n
    by (induction ms arbitrary: n) (simp_all add: status_step_echo)
  then show ?thesis by (simp add: status_seen_def)
qed

text \<open>The middleware answers with the status of the application.\<close>

lemma middleware_status:
  "status_seen (emitted (fst (audit_middleware clock sha scope app e (w, st)))) = status_seen (emitted (fst (app e w)))"
  by (auto simp: audit_middleware_def Let_def split: prod.splits option.splits bool.splits)

section \<open>The captured body\<close>

fun chunk_of :: "asgi_in \<Rightarrow> string" where
  "chunk_of (HttpRequest chunk) = chunk"
| "chunk_of HttpDisconnect = []"

definition capture_ok :: "string \<Rightarrow> string \<times> nat \<times> bool \<Rightarrow> bool" where
  "capture_ok whole st \<longleftrightarrow> (case st of (buf, got, truncated) \<Rightarrow>
     buf = take MAX_CAPTURE_BODY whole \<and> got = length buf \<and> (truncated \<longrightarrow> MAX_CAPTURE_BODY \<le> length whole) \<and>
     (\<not> truncated \<longrightarrow> buf = whole))"

lemma capture_step_ok: "capture_ok whole st \<Longrightarrow> capture_ok (whole @ chunk_of m) (capture_step st m)"
  by (cases "(st, m)" rule: capture_step.cases) (auto simp: capture_ok_def Let_def)

lemma capture_run: "capture_ok whole st \<Longrightarrow> capture_ok (whole @ concat (map chunk_of ms)) (foldl capture_step st ms)"
proof (induction ms arbitrary: whole st)
  case (Cons m ms)
  from Cons.IH [OF capture_step_ok [OF Cons.prems]] show ?case by simp
qed simp

text \<open>The body the audit log hashes and measures is exactly the first megabyte of the body the
  application read, however it was cut into messages.\<close>

theorem captured_body_exact:
  "capture_body msgs = take MAX_CAPTURE_BODY (concat (map chunk_of msgs)) \<and> length (capture_body msgs) \<le> 1048576"
proof -
  have "capture_ok [] ([], 0, False)" by (simp add: capture_ok_def)
  from capture_run [OF this, of msgs]
  have "capture_body msgs = take MAX_CAPTURE_BODY (concat (map chunk_of msgs))"
    by (simp add: capture_body_def capture_ok_def split: prod.splits)
  then show ?thesis by (simp add: MAX_CAPTURE_BODY_def)
qed

section \<open>Refusals are recorded\<close>

lemma scalar_opt_str [simp]: "scalar (opt_str v)"
  by (simp add: opt_str_def split: option.splits)

lemma audit_record_scalar:
  "(case facts of (a, b, c) \<Rightarrow> scalar a \<and> scalar b \<and> scalar c) \<Longrightarrow> scalar status \<Longrightarrow> scalar latency \<Longrightarrow>
   list_all (\<lambda>(k, v). scalar v) (audit_record ts rid event cid scope status error_code latency facts)"
  by (auto simp: audit_record_def)

lemma capture_record_scalar:
  "list_all (\<lambda>(k, v). scalar v) (capture_record clock sha config scope rid cid pend body status)"
  by (auto simp: capture_record_def Let_def body_facts_def intro!: audit_record_scalar)

lemma capture_record_dumps:
  obtains line where "json_dumps fl (PDict (capture_record clock sha config scope rid cid pend body status)) = Inr line"
  using json_dumps_scalars [OF capture_record_scalar] by blast

text \<open>The fields of a record that name a refusal.\<close>

definition names_refusal :: "(string \<times> pyval) list \<Rightarrow> string \<Rightarrow> string option \<Rightarrow> string option \<Rightarrow> nat \<Rightarrow> http_scope \<Rightarrow> bool" where
  "names_refusal rec event error_code cid status scope \<longleftrightarrow>
     map_of rec ''event'' = Some (PStr event) \<and> map_of rec ''error_code'' = Some (opt_str error_code) \<and>
     map_of rec ''client_id'' = Some (opt_str cid) \<and> map_of rec ''status'' = Some (PInt (int status)) \<and>
     map_of rec ''path'' = Some (PStr (scope_path scope)) \<and> map_of rec ''ip'' = Some (opt_str (extract_ip scope))"

lemma names_refusal_record:
  "names_refusal (audit_record ts rid event cid scope (PInt (int status)) error_code latency facts @ extra) event error_code cid status scope"
  by (cases facts) (simp add: names_refusal_def audit_record_def)

lemma names_refusal_capture:
  "names_refusal (capture_record clock sha config scope rid cid (Some (event, error_code)) body status)
     event error_code cid status scope"
  using names_refusal_record [where extra = "[]"] by (simp add: capture_record_def Let_def names_refusal_record)

lemma write_origin_world:
  "pending (snd (ignore_errors (write_origin clock config rid path ns k) e w)) = pending w"
  by (auto simp: ignore_errors_def write_origin_def Let_def act_simps key_act_def get_scope_client_def get_redis_def send_def
      split: sum.splits prod.splits)

lemma finish_capture_logs:
  assumes "pending w = Some (event, error_code)"
  shows "\<exists>rec line w1. finish_capture clock sha config scope rid out e (w, st) = (w1, log_line line st) \<and> pending w1 = None \<and>
    json_dumps (float_text clock) (PDict rec) = Inr line \<and>
    names_refusal rec event error_code (scope_client w) (status_seen (emitted out)) scope"
proof -
  let ?rec = "capture_record clock sha config scope rid (scope_client w) (pending w)
    (capture_body (received out)) (status_seen (emitted out))"
  obtain line where line: "json_dumps (float_text clock) (PDict ?rec) = Inr line" by (rule capture_record_dumps)
  moreover have "names_refusal ?rec event error_code (scope_client w) (status_seen (emitted out)) scope"
    using names_refusal_capture assms by simp
  moreover have "\<exists>w1. finish_capture clock sha config scope rid out e (w, st) = (w1, log_line line st) \<and> pending w1 = None"
    using line by (auto simp: finish_capture_def Let_def write_origin_world simp del: json_dumps.simps split: option.splits)
  ultimately show ?thesis by blast
qed

lemma finish_passed_logs:
  assumes "pending w = Some (event, error_code)" and "active st"
  shows "\<exists>rec line w1. finish_passed clock scope rid True out (w, st) = (w1, log_line line st) \<and> pending w1 = None \<and>
    json_dumps (float_text clock) (PDict rec) = Inr line \<and>
    names_refusal rec event error_code (scope_client w) (status_seen (emitted out)) scope"
proof -
  let ?rec = "audit_record (format_iso_ts_now (utc_now clock)) rid event (scope_client w) scope (PInt (int (status_seen (emitted out)))) error_code
    (PFloat (elapsed_ms clock)) (PNone, PNone, PNone)"
  obtain line where "json_dumps (float_text clock) (PDict ?rec) = Inr line"
    using json_dumps_scalars [OF audit_record_scalar] by force
  moreover have "names_refusal ?rec event error_code (scope_client w) (status_seen (emitted out)) scope"
    using names_refusal_record [where extra = "[]"] by simp
  ultimately show ?thesis using assms by (auto simp: finish_passed_def Let_def write_record_def)
qed

text \<open>When the audit log is on, every refusal (the application leaves a pending event), by whatever method and
  at whatever level, on a path that is not excluded, leaves exactly one line, whose record has the
  event, its error code, the client, the status, the path and the address; and the event is consumed,
  so that it cannot mark a later request.\<close>

lemma middleware_logs_refusal:
  assumes "scope_http scope" and "audit_conf st = Some config" and "active st"
    and "scope_path scope \<notin> set (exclude_paths config)"
    and "app e w = (out, w')" and "pending w' = Some (event, error_code)"
  shows "\<exists>out' w1 line rec. audit_middleware clock sha scope app e (w, st) = (out', w1, log_line line st) \<and> pending w1 = None \<and>
    json_dumps (float_text clock) (PDict rec) = Inr line \<and>
    names_refusal rec event error_code (scope_client w') (status_seen (emitted out)) scope"
proof (cases "decide_capture (scope_method scope) (scope_path scope) (audit_level config)")
  case True
  then show ?thesis
    using assms finish_capture_logs [OF assms(6)]
    by (simp add: audit_middleware_def Let_def) blast
next
  case False
  then show ?thesis
    using assms finish_passed_logs [OF assms(6) assms(3)]
    by (simp add: audit_middleware_def Let_def) blast
qed

end
