(* ===== verification/AuditTrail.thy ===== *)
theory AuditTrail
  imports DataPlane AuditMiddleware
begin

text \<open>
  The audit log over the data routers: the routes of \<open>app/routers/*.py\<close> as path segments, which
  requests the middleware captures at Level 1, and, with the application run inside the
  middleware, that every refused data request leaves its line.
\<close>

section \<open>Routes\<close>

text \<open>
  The decorators of the six routers: the method, and the segments of the path after
  \<open>/api/v1/ns/{ns}\<close>. Query parameters are not part of the path.
\<close>

primrec kv_route :: "kv_request \<Rightarrow> string \<times> string list" where
  "kv_route (BatchGetKv body) = (''POST'', [''kv'', ''batch''])"
| "kv_route (BatchSetKv body) = (''PUT'', [''kv'', ''batch''])"
| "kv_route (GetKv key) = (''GET'', [''kv'', key])"
| "kv_route (SetKv key body) = (''PUT'', [''kv'', key])"
| "kv_route (DeleteKv key) = (''DELETE'', [''kv'', key])"
| "kv_route (ExistsKv key) = (''GET'', [''kv'', key, ''exists''])"
| "kv_route (IncrKv key body) = (''POST'', [''kv'', key, ''incr''])"
| "kv_route (TouchKv key body) = (''PUT'', [''kv'', key, ''touch''])"
| "kv_route (SetKvNx key body) = (''PUT'', [''kv'', key, ''nx''])"

primrec map_route :: "map_request \<Rightarrow> string \<times> string list" where
  "map_route (BatchGetMap body) = (''POST'', [''map'', ''batch''])"
| "map_route (BatchSetMap body) = (''PUT'', [''map'', ''batch''])"
| "map_route (GetMap key) = (''GET'', [''map'', key])"
| "map_route (GetMapField key field) = (''GET'', [''map'', key, field])"
| "map_route (SetMap key body) = (''PUT'', [''map'', key])"
| "map_route (TouchMap key body) = (''PUT'', [''map'', key, ''touch''])"
| "map_route (SetMapField key field body) = (''PUT'', [''map'', key, field])"
| "map_route (DeleteMap key) = (''DELETE'', [''map'', key])"
| "map_route (DeleteMapField key field) = (''DELETE'', [''map'', key, field])"

primrec queue_route :: "queue_request \<Rightarrow> string \<times> string list" where
  "queue_route (BatchPushQueue key body) = (''POST'', [''queue'', key, ''batch''])"
| "queue_route (PushQueue key body) = (''POST'', [''queue'', key])"
| "queue_route (PopQueue key direction) = (''GET'', [''queue'', key, ''pop''])"
| "queue_route (RangeQueue key start stop) = (''GET'', [''queue'', key])"
| "queue_route (LenQueue key) = (''GET'', [''queue'', key, ''len''])"
| "queue_route (DeleteQueue key) = (''DELETE'', [''queue'', key])"
| "queue_route (TouchQueue key body) = (''PUT'', [''queue'', key, ''touch''])"
| "queue_route (TrimQueue key body) = (''POST'', [''queue'', key, ''trim''])"

primrec op_segment :: "group_op \<Rightarrow> string" where
  "op_segment OpInter = ''inter''"
| "op_segment OpUnion = ''union''"
| "op_segment OpDiff = ''diff''"

primrec group_route :: "group_request \<Rightarrow> string \<times> string list" where
  "group_route (BatchGetGroup body) = (''POST'', [''group'', ''batch''])"
| "group_route (BatchAddGroup body) = (''PUT'', [''group'', ''batch''])"
| "group_route (AddGroup key body) = (''POST'', [''group'', key])"
| "group_route (MembersGroup key) = (''GET'', [''group'', key])"
| "group_route (ContainsGroup key member) = (''GET'', [''group'', key, ''contains'', member])"
| "group_route (DeleteGroup key) = (''DELETE'', [''group'', key])"
| "group_route (RemoveGroup key member) = (''DELETE'', [''group'', key, member])"
| "group_route (CountGroup key) = (''GET'', [''group'', key, ''count''])"
| "group_route (TouchGroup key body) = (''PUT'', [''group'', key, ''touch''])"
| "group_route (OpsGroup oper body) = (''POST'', [''group'', ''ops'', op_segment oper])"

primrec rank_route :: "rank_request \<Rightarrow> string \<times> string list" where
  "rank_route (BatchGetRank body) = (''POST'', [''rank'', ''batch''])"
| "rank_route (BatchAddRank key body) = (''POST'', [''rank'', key, ''batch''])"
| "rank_route (AddRank key body) = (''POST'', [''rank'', key])"
| "rank_route (RangeRank key start stop reverse) = (''GET'', [''rank'', key])"
| "rank_route (ScoreRank key member) = (''GET'', [''rank'', key, ''score'', member])"
| "rank_route (BetweenRank key lo hi) = (''GET'', [''rank'', key, ''between''])"
| "rank_route (DeleteRank key) = (''DELETE'', [''rank'', key])"
| "rank_route (RemoveRank key member) = (''DELETE'', [''rank'', key, member])"
| "rank_route (IncrRank key body) = (''POST'', [''rank'', key, ''incr''])"
| "rank_route (TouchRank key body) = (''PUT'', [''rank'', key, ''touch''])"
| "rank_route (PopRank key direction) = (''GET'', [''rank'', key, ''pop''])"

primrec event_route :: "event_request \<Rightarrow> string \<times> string list" where
  "event_route (BatchPublishEvent key body) = (''POST'', [''event'', key, ''batch''])"
| "event_route (PublishEvent key body) = (''POST'', [''event'', key])"
| "event_route (ReadEvents key last_id count) = (''GET'', [''event'', key])"
| "event_route (CreateGroup key body) = (''POST'', [''event'', key, ''group''])"
| "event_route (ReadGroup key gname consumer count) = (''GET'', [''event'', key, ''group'', gname, ''read''])"
| "event_route (AckEvents key gname body) = (''POST'', [''event'', key, ''group'', gname, ''ack''])"
| "event_route (DeleteEvent key) = (''DELETE'', [''event'', key])"
| "event_route (TouchEvent key body) = (''PUT'', [''event'', key, ''touch''])"
| "event_route (StreamInfo key) = (''GET'', [''event'', key, ''info''])"

primrec data_route :: "data_request \<Rightarrow> string \<times> string list" where
  "data_route (KvRequest q) = kv_route q"
| "data_route (MapRequest q) = map_route q"
| "data_route (QueueRequest q) = queue_route q"
| "data_route (GroupRequest q) = group_route q"
| "data_route (RankRequest q) = rank_route q"
| "data_route (EventRequest q) = event_route q"

abbreviation slash :: char where "slash \<equiv> CHR ''/''"

definition join_path :: "string list \<Rightarrow> string" where
  "join_path segs = concat (map (\<lambda>s. slash # s) segs)"

definition data_segments :: "string \<Rightarrow> data_request \<Rightarrow> string list" where
  "data_segments ns q = [''api'', ''v1'', ''ns'', ns] @ snd (data_route q)"

definition data_path :: "string \<Rightarrow> data_request \<Rightarrow> string" where
  "data_path ns q = join_path (data_segments ns q)"

text \<open>The two requests that remove an element by \<open>GET\<close>.\<close>

primrec pops :: "data_request \<Rightarrow> bool" where
  "pops (KvRequest q) = False"
| "pops (MapRequest q) = False"
| "pops (QueueRequest q) = (case q of PopQueue key direction \<Rightarrow> True | _ \<Rightarrow> False)"
| "pops (GroupRequest q) = False"
| "pops (RankRequest q) = (case q of PopRank key direction \<Rightarrow> True | _ \<Rightarrow> False)"
| "pops (EventRequest q) = False"

section \<open>What Level 1 captures\<close>

lemma prefix_sep:
  assumes "c \<notin> set p" and "c \<notin> set s" and "r = [] \<or> hd r = c"
  shows "(\<exists>t. s @ r = p @ c # t) \<longleftrightarrow> s = p \<and> r \<noteq> []"
  using assms
proof (induction s arbitrary: p)
  case Nil
  then show ?case by (cases p; cases r) auto
next
  case (Cons x s)
  then show ?case by (cases p) auto
qed

lemma slash_free_skip:
  assumes "slash \<notin> set s"
  shows "contains (slash # p) (s @ r) \<longleftrightarrow> contains (slash # p) r"
  using assms by (induction s) auto

text \<open>A segment between two slashes of a path is one of its segments, and not the last.\<close>

lemma contains_segment:
  assumes "slash \<notin> set p" and "\<forall>s \<in> set segs. slash \<notin> set s"
  shows "contains (slash # p @ [slash]) (join_path segs) \<longleftrightarrow> p \<in> set (butlast segs)"
  using assms(2)
proof (induction segs)
  case Nil
  then show ?case by (simp add: join_path_def)
next
  case (Cons s segs)
  have "contains (slash # p @ [slash]) (slash # s @ join_path segs) \<longleftrightarrow>
      (\<exists>t. s @ join_path segs = p @ slash # t) \<or> contains (slash # p @ [slash]) (s @ join_path segs)"
    by (simp add: starts_with_iff)
  also have "\<dots> \<longleftrightarrow> s = p \<and> segs \<noteq> [] \<or> p \<in> set (butlast segs)"
    using Cons prefix_sep [OF assms(1), of s "join_path segs"] slash_free_skip [of s "p @ [slash]" "join_path segs"]
    by (cases segs) (auto simp: join_path_def)
  finally show ?case by (auto simp: join_path_def)
qed

lemma ns_path_not_admin: "\<not> starts_with ''/api/v1/admin/'' (join_path (''api'' # ''v1'' # ''ns'' # segs))"
  by (simp add: join_path_def)

definition param_ok :: "string \<Rightarrow> data_request \<Rightarrow> bool" where
  "param_ok ns q \<longleftrightarrow> list_all (\<lambda>s. s \<noteq> [] \<and> slash \<notin> set s) (data_segments ns q)"

definition level1_blind :: "string \<Rightarrow> data_request \<Rightarrow> bool" where
  "level1_blind ns q \<longleftrightarrow> pops q \<or> ''publish'' \<in> set (butlast (data_segments ns q))"

lemma write_methods:
  assumes "data_needs q = ''write''"
  shows "is_write (fst (data_route q)) \<longleftrightarrow> \<not> pops q"
proof (cases q)
  case (KvRequest x)
  with assms show ?thesis by (cases x) (simp_all add: is_write_def)
next
  case (MapRequest x)
  with assms show ?thesis by (cases x) (simp_all add: is_write_def)
next
  case (QueueRequest x)
  with assms show ?thesis by (cases x) (simp_all add: is_write_def)
next
  case (GroupRequest x)
  with assms show ?thesis by (cases x) (simp_all add: is_write_def)
next
  case (RankRequest x)
  with assms show ?thesis by (cases x) (simp_all add: is_write_def)
next
  case (EventRequest x)
  with assms show ?thesis by (cases x) (simp_all add: is_write_def)
qed

text \<open>C38: at Level 1 a data request that needs the write permission is captured, except exactly the two
  pops (which are GET requests) and the requests with a path parameter \<open>publish\<close> that is not the last
  segment of the path, such as a namespace of that name.\<close>

theorem level1_captures_writes:
  assumes "data_needs q = ''write''" and "param_ok ns q"
  shows "decide_capture (fst (data_route q)) (data_path ns q) 1 \<longleftrightarrow> \<not> level1_blind ns q"
proof -
  have "\<forall>s \<in> set (data_segments ns q). slash \<notin> set s" using assms(2) by (auto simp: param_ok_def list_all_iff)
  from contains_segment [OF _ this, of "''publish''"]
  have "contains ''/publish/'' (data_path ns q) \<longleftrightarrow> ''publish'' \<in> set (butlast (data_segments ns q))"
    by (simp add: data_path_def)
  moreover have "\<not> starts_with ''/api/v1/admin/'' (data_path ns q)"
    using ns_path_not_admin by (simp add: data_path_def data_segments_def)
  ultimately show ?thesis
    using write_methods [OF assms(1)] by (auto simp: decide_capture_def Let_def level1_blind_def)
qed

theorem level1_captures_writes_witness:
  "decide_capture ''DELETE'' ''/api/v1/ns/A/kv/k'' 1 \<and> \<not> decide_capture ''POST'' ''/api/v1/ns/A/kv/publish/incr'' 1"
proof -
  let ?d = "KvRequest (DeleteKv ''k'')" and ?i = "KvRequest (IncrKv ''publish'' \<lparr>kv_delta = 1\<rparr>)"
  have ok: "param_ok ''A'' ?d" "param_ok ''A'' ?i" by (simp_all add: param_ok_def data_segments_def)
  have n: "data_needs ?d = ''write''" "data_needs ?i = ''write''" by simp_all
  have "\<not> level1_blind ''A'' ?d" "level1_blind ''A'' ?i" by (simp_all add: level1_blind_def data_segments_def)
  with level1_captures_writes [OF n(1) ok(1)] level1_captures_writes [OF n(2) ok(2)]
  show ?thesis by (simp add: data_path_def join_path_def data_segments_def)
qed

section \<open>Refused requests\<close>

text \<open>
  What FastAPI does with an endpoint under the middleware: the application leaves the world the
  endpoint leaves; an HTTP error or a value is answered with its status, and any other exception
  passes through the middleware without a response.
\<close>

definition runs_endpoint :: "'r asgi_app \<Rightarrow> ('r, pyval) act \<Rightarrow> 'r env \<Rightarrow> 'r world \<Rightarrow> bool" where
  "runs_endpoint app endp e w \<longleftrightarrow> snd (app e w) = snd (endp e w) \<and>
     (case fst (endp e w) of
        Inl (PyExc x) \<Rightarrow> failure (fst (app e w)) \<noteq> None \<and> emitted (fst (app e w)) = []
      | r \<Rightarrow> status_seen (emitted (fst (app e w))) = fst (respond r))"

lemma unknown_key_refused:
  assumes "cache_ok (conf e) w" and "map_of (build_key_map (conf e)) k = None" and "scope_client w = None"
  shows "fst (data_endpoint k ns q e w) = Inl (error ''UNAUTHORIZED'' ''Invalid API key'' 401)"
    and "pending (snd (data_endpoint k ns q e w)) = Some (''auth_fail'', Some ''UNAUTHORIZED'')"
    and "scope_client (snd (data_endpoint k ns q e w)) = None"
proof -
  obtain r w' where v: "verify_api_key k e w = (r, w')" by fastforce
  from verify_api_key_unknown [OF assms(1,2)] v
  show "fst (data_endpoint k ns q e w) = Inl (error ''UNAUTHORIZED'' ''Invalid API key'' 401)"
    and "pending (snd (data_endpoint k ns q e w)) = Some (''auth_fail'', Some ''UNAUTHORIZED'')"
    by (simp_all add: data_endpoint_def endpoint_def act_simps)
  have "scope_client w' = scope_client w"
    using v assms(1,2)
    by (auto simp: verify_api_key_def act_simps resolve_client_apply set_pending_event_def
        record_auth_failure_async_def prim_defs split: prod.splits sum.splits if_splits)
  with v verify_api_key_unknown(1) [OF assms(1,2)] assms(3)
  show "scope_client (snd (data_endpoint k ns q e w)) = None"
    by (simp add: data_endpoint_def endpoint_def act_simps)
qed

lemma denied_refused:
  assumes "cache_ok (conf e) w" and "map_of (build_key_map (conf e)) k = Some client" and "connected w"
    and "\<not> check_access client ns (data_needs q)"
  shows "fst (data_endpoint k ns q e w) = Inl (access_denied client ns (data_needs q))"
    and "pending (snd (data_endpoint k ns q e w)) = Some (''namespace_denied'', Some ''NAMESPACE_DENIED'')"
    and "scope_client (snd (data_endpoint k ns q e w)) = Some (client_id client)"
  using verify_api_key_known [OF assms(1,2)] assms(3) data_guarded [OF assms(4), of e
      "w\<lparr>key_map := Some (build_key_map (conf e)), scope_client := Some (client_id client)\<rparr>"]
  by (simp_all add: data_endpoint_def endpoint_def act_simps get_redis_def after_denial_def)

text \<open>The line a refusal must leave: the event, its error code, the client and the status.\<close>

definition refusal_of :: "client_info option \<Rightarrow> string \<times> string \<times> string option \<times> nat" where
  "refusal_of c = (case c of
       None \<Rightarrow> (''auth_fail'', ''UNAUTHORIZED'', None, 401)
     | Some client \<Rightarrow> (''namespace_denied'', ''NAMESPACE_DENIED'', Some (client_id client), 403))"

text \<open>C6: with the audit log on, every data request under an unknown API key, and every one whose client
  lacks the permission on the namespace, leaves exactly one line, at every level and for every
  method: its record names the refusal, the client (none for an unknown key), the status 401 or
  403, the path and the address; the response carries that status, and the pending event is gone.\<close>

theorem refused_requests_audited:
  assumes "runs_endpoint app (data_endpoint k ns q) e w" and "cache_ok (conf e) w" and "connected w"
    and "scope_client w = None"
    and "scope_http scope" and "audit_conf st = Some config" and "active st"
    and "scope_path scope \<notin> set (exclude_paths config)"
    and "c = map_of (build_key_map (conf e)) k"
    and "case c of None \<Rightarrow> True | Some client \<Rightarrow> \<not> check_access client ns (data_needs q)"
    and "refusal_of c = (event, error_code, cid, status)"
  shows "\<exists>out w1 line rec. audit_middleware clock sha scope app e (w, st) = (out, w1, log_line line st) \<and>
    pending w1 = None \<and> status_seen (emitted out) = status \<and>
    json_dumps (float_text clock) (PDict rec) = Inr line \<and>
    names_refusal rec event (Some error_code) cid status scope"
proof -
  obtain out0 w' where app: "app e w = (out0, w')" by fastforce
  have w': "w' = snd (data_endpoint k ns q e w)" using assms(1) app by (simp add: runs_endpoint_def)
  have facts: "pending w' = Some (event, Some error_code) \<and> scope_client w' = cid \<and> status_seen (emitted out0) = status"
  proof (cases c)
    case None
    then show ?thesis
      using assms(1,9,11) app w' unknown_key_refused [OF assms(2) _ assms(4), of k ns q]
      by (simp add: runs_endpoint_def refusal_of_def respond_def error_def)
  next
    case (Some client)
    then show ?thesis
      using assms(1,9,10,11) app w' denied_refused [OF assms(2) _ assms(3), of k client ns q]
      by (simp add: runs_endpoint_def refusal_of_def respond_def error_def access_denied_def)
  qed
  then have "pending w' = Some (event, Some error_code)" by simp
  from middleware_logs_refusal [OF assms(5-8), of app e w out0 w', OF app this]
  obtain out w1 line rec where run: "audit_middleware clock sha scope app e (w, st) = (out, w1, log_line line st)"
    and rest: "pending w1 = None" "json_dumps (float_text clock) (PDict rec) = Inr line"
      "names_refusal rec event (Some error_code) (scope_client w') (status_seen (emitted out0)) scope" by blast
  have "status_seen (emitted out) = status_seen (emitted out0)"
    using middleware_status [of clock sha scope app e w st] run app by simp
  with run rest facts show ?thesis by blast
qed

text \<open>An application that runs one endpoint and answers with what it gives.\<close>

definition sample_app :: "('r, pyval) act \<Rightarrow> 'r asgi_app" where
  "sample_app endp e w = (case endp e w of (r, w') \<Rightarrow>
     (\<lparr>received = [], emitted = (case r of Inl (PyExc x) \<Rightarrow> [] | _ \<Rightarrow> [ResponseStart (fst (respond r)) [], ResponseBody [] False]),
       failure = (case r of Inl (PyExc x) \<Rightarrow> Some (PyExc x) | _ \<Rightarrow> None), path_key = None\<rparr>, w'))"

lemma sample_app_runs: "runs_endpoint (sample_app endp) endp e w"
  by (auto simp: runs_endpoint_def sample_app_def status_seen_def split: prod.splits sum.splits exc.splits)

definition sample_scope :: http_scope where
  "sample_scope = \<lparr>scope_http = True, scope_path = ''/api/v1/ns/B/kv/k'', scope_method = ''GET'', scope_headers = [],
     scope_peer = Some ''10.0.0.7''\<rparr>"

definition sample_clock :: audit_clock where
  "sample_clock = \<lparr>fresh_uuid = ''id'', utc_now = sample_time, elapsed_ms = Flt 1, float_text = (\<lambda>_. ''1.0'')\<rparr>"

definition sample_audit :: audit_state where
  "sample_audit = snd (init_audit_logger (audit default_settings) None audit_off)"

theorem refused_requests_audited_witness:
  "\<exists>out w1 line rec. audit_middleware sample_clock id sample_scope
       (sample_app (data_endpoint ''s3cret'' ''B'' (KvRequest (GetKv ''k'')))) sample_auth_env (sample_world Map.empty, sample_audit) =
       (out, w1, log_line line sample_audit) \<and> status_seen (emitted out) = 403 \<and>
     names_refusal rec ''namespace_denied'' (Some ''NAMESPACE_DENIED'') (Some ''APP'') 403 sample_scope"
proof -
  let ?q = "KvRequest (GetKv ''k'')" and ?w = "sample_world Map.empty"
  have m: "map_of (build_key_map (conf sample_auth_env)) ''s3cret'' = Some sample_client" by code_simp
  have n: "cache_ok (conf sample_auth_env) ?w" "connected ?w" "scope_client ?w = None"
    by (simp_all add: cache_ok_def sample_world_def)
  have s: "scope_http sample_scope" "audit_conf sample_audit = Some (audit default_settings)" "active sample_audit"
    "scope_path sample_scope \<notin> set (exclude_paths (audit default_settings))"
    by (simp_all add: sample_scope_def sample_audit_def init_audit_logger_def default_settings_def audit_off_def)
  have d: "\<not> check_access sample_client ''B'' (data_needs ?q)"
    by (simp add: sample_client_def check_access_def granted_def)
  have r: "refusal_of (Some sample_client) = (''namespace_denied'', ''NAMESPACE_DENIED'', Some ''APP'', 403)"
    by (simp add: refusal_of_def sample_client_def)
  show ?thesis
    using refused_requests_audited [OF sample_app_runs n s m [symmetric] _ r, of "''B''" ?q sample_clock id] d by auto
qed

end
