(* ===== verification/Middleware.thy ===== *)
theory Middleware
  imports AuditTrail
begin

text \<open>
  \<open>app/middleware.py\<close>: the security headers, the metrics of a request and the access log, each around an
  application whose messages it sees; and the stack \<open>create_app\<close> of \<open>app/main.py\<close> builds of them.
\<close>

section \<open>Security headers\<close>

definition SECURITY_HEADERS :: "(string \<times> string) list" where
  "SECURITY_HEADERS =
     [(''x-content-type-options'', ''nosniff''), (''x-frame-options'', ''DENY''), (''cache-control'', ''no-store''),
      (''x-xss-protection'', ''1; mode=block''), (''referrer-policy'', ''strict-origin-when-cross-origin'')]"

definition SECURITY_HEADER_NAMES :: "string list" where
  "SECURITY_HEADER_NAMES = map fst SECURITY_HEADERS"

fun security_send :: "asgi_out \<Rightarrow> asgi_out" where
  "security_send (ResponseStart status hdrs) =
     ResponseStart status (filter (\<lambda>(n, v). n \<notin> set SECURITY_HEADER_NAMES) hdrs @ SECURITY_HEADERS)"
| "security_send (ResponseBody body more_body) = ResponseBody body more_body"

section \<open>Metrics\<close>

text \<open>\<open>/api/v1/(?:ns|ws)/([^/]+)/\<close>, searched from left to right.\<close>

definition ns_here :: "string \<Rightarrow> string option" where
  "ns_here s =
     (if starts_with ''/api/v1/ns/'' s \<or> starts_with ''/api/v1/ws/'' s
      then (case cut slash (drop 11 s) of Some (seg, rest) \<Rightarrow> if seg = [] then None else Some seg | None \<Rightarrow> None)
      else None)"

fun ns_search :: "string \<Rightarrow> string option" where
  "ns_search [] = None"
| "ns_search (c # cs) = (case ns_here (c # cs) of Some seg \<Rightarrow> Some seg | None \<Rightarrow> ns_search cs)"

text \<open>\<open>_valid_ns_re.match\<close>: \<open>$\<close> also matches before a final line feed.\<close>

definition valid_ns_label :: "string \<Rightarrow> bool" where
  "valid_ns_label s \<longleftrightarrow> ns_matches s \<or> (s \<noteq> [] \<and> last s = newline \<and> ns_matches (butlast s))"

definition metrics_label :: "string \<Rightarrow> string" where
  "metrics_label path = (case ns_search path of
       Some seg \<Rightarrow> if valid_ns_label seg then seg else []
     | None \<Rightarrow> [])"

text \<open>One message: the status it carries, and whether the response is complete and so recorded.\<close>

fun metrics_send :: "nat \<times> nat list \<Rightarrow> asgi_out \<Rightarrow> nat \<times> nat list" where
  "metrics_send (status_code, recorded) (ResponseStart status hdrs) = (status, recorded)"
| "metrics_send (status_code, recorded) (ResponseBody body more_body) =
     (status_code, if \<not> more_body then recorded @ [status_code] else recorded)"

definition recorded_statuses :: "asgi_out list \<Rightarrow> nat list" where
  "recorded_statuses msgs = snd (foldl metrics_send (500, []) msgs)"

text \<open>A scheduled \<open>record_request_async\<close>: status, namespace, client.\<close>

type_synonym metric_task = "nat \<times> string \<times> string"

definition metric_tasks :: "string \<Rightarrow> string option \<Rightarrow> asgi_out list \<Rightarrow> metric_task list" where
  "metric_tasks path cid msgs =
     map (\<lambda>status. (status, metrics_label path, case cid of Some c \<Rightarrow> c | None \<Rightarrow> [])) (recorded_statuses msgs)"

section \<open>Access log\<close>

fun access_send :: "nat \<times> nat list \<Rightarrow> asgi_out \<Rightarrow> nat \<times> nat list" where
  "access_send (status_code, logged) (ResponseStart status hdrs) = (status, logged)"
| "access_send (status_code, logged) (ResponseBody body more_body) =
     (status_code, if \<not> more_body then logged @ [status_code] else logged)"

definition access_lines :: "(rat \<Rightarrow> string) \<Rightarrow> rat \<Rightarrow> http_scope \<Rightarrow> string option \<Rightarrow> asgi_out list \<Rightarrow> string list" where
  "access_lines fmt2 duration_ms scope request_id msgs =
     map (\<lambda>status. scope_method scope @ '' '' @ scope_path scope @ '' '' @ nat_str status @ '' '' @ fmt2 duration_ms @
        ''ms req='' @ (case request_id of Some r \<Rightarrow> r | None \<Rightarrow> ''-''))
       (snd (foldl access_send (0, []) msgs))"

section \<open>The stack\<close>

record stack_state =
  audit_part :: audit_state
  tasks :: "metric_task list"
  access_log_lines :: "string list"

text \<open>The id the audit middleware puts into the scope, when it is installed and active.\<close>

definition scope_request_id :: "audit_clock \<Rightarrow> http_scope \<Rightarrow> audit_state \<Rightarrow> string option" where
  "scope_request_id clock scope st = (case (audit_conf st, active st) of
       (Some config, True) \<Rightarrow> Some (validate_request_id (fresh_uuid clock)
          (Some (case map_of (scope_headers scope) ''x-request-id'' of Some v \<Rightarrow> ascii_only v | None \<Rightarrow> [])))
     | _ \<Rightarrow> None)"

text \<open>
  \<open>create_app\<close>: the audit middleware is added first and so is the innermost, then the access log, the
  metrics and the security headers.
\<close>

definition app_stack ::
  "audit_clock \<Rightarrow> (string \<Rightarrow> string) \<Rightarrow> (rat \<Rightarrow> string) \<Rightarrow> rat \<Rightarrow> settings \<Rightarrow> http_scope \<Rightarrow> 'r asgi_app \<Rightarrow> 'r env
     \<Rightarrow> 'r world \<times> stack_state \<Rightarrow> asgi_result \<times> 'r world \<times> stack_state" where
  "app_stack clock sha256_hex fmt2 duration_ms s scope app e ws = (case ws of (w, st) \<Rightarrow>
     let installed = audit_level (audit s) \<ge> 1 in
     case (if installed then audit_middleware clock sha256_hex scope app e (w, audit_part st)
           else (case app e w of (out, w1) \<Rightarrow> (out, w1, audit_part st))) of
       (out, w1, ast) \<Rightarrow>
         if \<not> scope_http scope then (out, w1, st\<lparr>audit_part := ast\<rparr>)
         else
           (out\<lparr>emitted := map security_send (emitted out)\<rparr>, w1,
            st\<lparr>audit_part := ast,
               access_log_lines := access_log_lines st @
                 (if access_log (logging s)
                  then access_lines fmt2 duration_ms scope (if installed then scope_request_id clock scope (audit_part st) else None) (emitted out)
                  else []),
               tasks := tasks st @ metric_tasks (scope_path scope) (scope_client w1) (emitted out)\<rparr>))"

section \<open>Facts\<close>

lemma security_names_distinct: "distinct SECURITY_HEADER_NAMES"
  by (simp add: SECURITY_HEADER_NAMES_def SECURITY_HEADERS_def)

lemma security_headers_exact:
  "filter (\<lambda>(n, v). n \<in> set SECURITY_HEADER_NAMES) (filter (\<lambda>(n, v). n \<notin> set SECURITY_HEADER_NAMES) hdrs @ SECURITY_HEADERS) =
   SECURITY_HEADERS"
proof -
  have "filter (\<lambda>(n, v). n \<in> set SECURITY_HEADER_NAMES) (filter (\<lambda>(n, v). n \<notin> set SECURITY_HEADER_NAMES) hdrs) = []"
    by (auto simp: filter_empty_conv)
  moreover have "filter (\<lambda>(n, v). n \<in> set SECURITY_HEADER_NAMES) SECURITY_HEADERS = SECURITY_HEADERS"
    by (force simp: SECURITY_HEADER_NAMES_def intro!: filter_True)
  ultimately show ?thesis by simp
qed

lemma security_send_status: "status_step n (security_send m) = status_step n m"
  by (cases m) simp_all

lemma security_status [simp]: "status_seen (map security_send ms) = status_seen ms"
proof -
  have "foldl status_step n (map security_send ms) = foldl status_step n ms" for n
    by (induction ms arbitrary: n) (simp_all add: security_send_status)
  then show ?thesis by (simp add: status_seen_def)
qed

text \<open>A complete response: one start, then bodies of which only the last is final.\<close>

definition complete_response :: "nat \<Rightarrow> asgi_out list \<Rightarrow> bool" where
  "complete_response status msgs \<longleftrightarrow> (\<exists>hdrs parts body. msgs = ResponseStart status hdrs # map (\<lambda>b. ResponseBody b True) parts @ [ResponseBody body False])"

lemma metrics_parts: "foldl metrics_send st (map (\<lambda>b. ResponseBody b True) parts) = st"
  by (induction parts arbitrary: st) (case_tac st; simp)+

lemma recorded_once: "complete_response status msgs \<Longrightarrow> recorded_statuses msgs = [status]"
  by (auto simp: complete_response_def recorded_statuses_def metrics_parts)

text \<open>An application that raises before its response is complete is not counted at all.\<close>

lemma unfinished_not_recorded: "list_all (\<lambda>m. \<forall>body. m \<noteq> ResponseBody body False) msgs \<Longrightarrow> recorded_statuses msgs = []"
proof -
  assume a: "list_all (\<lambda>m. \<forall>body. m \<noteq> ResponseBody body False) msgs"
  have "snd (foldl metrics_send (n, []) msgs) = []" for n
    using a
  proof (induction msgs arbitrary: n)
    case (Cons m msgs)
    then show ?case by (cases m) auto
  qed simp
  then show ?thesis by (simp add: recorded_statuses_def)
qed

lemma metrics_label_guard: "metrics_label path = [] \<or> valid_ns_label (metrics_label path)"
  by (simp add: metrics_label_def split: option.splits)

lemma ns_search_path:
  assumes "ns_matches ns"
  shows "metrics_label (''/api/v1/ns/'' @ ns @ slash # rest) = ns"
proof -
  have "ns_here (''/api/v1/ns/'' @ ns @ slash # rest) = Some ns"
    using ns_no_slash [OF assms] by (simp add: ns_here_def cut_append)
  then have "ns_search (''/api/v1/ns/'' @ ns @ slash # rest) = Some ns" by simp
  then show ?thesis using assms by (simp add: metrics_label_def valid_ns_label_def)
qed

lemma route_nonempty: "snd (data_route q) \<noteq> []"
proof (cases q)
  case (KvRequest x) then show ?thesis by (cases x) simp_all
next
  case (MapRequest x) then show ?thesis by (cases x) simp_all
next
  case (QueueRequest x) then show ?thesis by (cases x) simp_all
next
  case (GroupRequest x) then show ?thesis by (cases x) simp_all
next
  case (RankRequest x) then show ?thesis by (cases x) simp_all
next
  case (EventRequest x) then show ?thesis by (cases x) simp_all
qed

lemma data_path_label:
  assumes "ns_matches ns"
  shows "metrics_label (data_path ns q) = ns"
proof -
  obtain s segs where "snd (data_route q) = s # segs" using route_nonempty [of q] by (cases "snd (data_route q)") auto
  then have "data_path ns q = ''/api/v1/ns/'' @ ns @ slash # (s @ join_path segs)"
    by (simp add: data_path_def data_segments_def join_path_def)
  then show ?thesis using ns_search_path [OF assms] by simp
qed

section \<open>A response through the stack\<close>

lemma write_origin_client: "scope_client (snd (ignore_errors (write_origin clock config rid path ns k) e w)) = scope_client w"
  by (auto simp: ignore_errors_def write_origin_def Let_def act_simps key_act_def get_scope_client_def get_redis_def send_def
      split: sum.splits prod.splits)

lemma finish_client:
  "scope_client (fst (finish_capture clock sha config scope rid out e (w, st))) = scope_client w"
  "scope_client (fst (finish_passed clock scope rid flag out (w, st))) = scope_client w"
  by (auto simp: finish_capture_def finish_passed_def Let_def write_origin_client split: sum.splits option.splits)

lemma finish_clientD:
  "finish_capture clock sha config scope rid out e (w, st) = (w1, st1) \<Longrightarrow> scope_client w1 = scope_client w"
  "finish_passed clock scope rid flag out (w, st) = (w1, st1) \<Longrightarrow> scope_client w1 = scope_client w"
  using finish_client by (metis fst_conv)+

lemma complete_map:
  assumes "complete_response status msgs"
    and "\<And>st hdrs. \<exists>hdrs'. f (ResponseStart st hdrs) = ResponseStart st hdrs'" and "\<And>b m. f (ResponseBody b m) = ResponseBody b m"
  shows "complete_response status (map f msgs)"
proof -
  obtain hdrs parts body where m: "msgs = ResponseStart status hdrs # map (\<lambda>b. ResponseBody b True) parts @ [ResponseBody body False]"
    using assms(1) by (auto simp: complete_response_def)
  obtain hdrs' where "f (ResponseStart status hdrs) = ResponseStart status hdrs'" using assms(2) by blast
  then have "map f msgs = ResponseStart status hdrs' # map (\<lambda>b. ResponseBody b True) parts @ [ResponseBody body False]"
    by (simp add: m assms(3) comp_def)
  then show ?thesis unfolding complete_response_def by (intro exI)
qed

lemma complete_echo: "complete_response status msgs \<Longrightarrow> complete_response status (map (echo_id rid) msgs)"
  by (rule complete_map) auto

lemma complete_security: "complete_response status msgs \<Longrightarrow> complete_response status (map security_send msgs)"
  by (rule complete_map) auto

lemma middleware_complete:
  assumes "app e w = (out, w')" and "audit_middleware clock sha scope app e (w, st) = (out1, w1, st1)"
    and "complete_response status (emitted out)"
  shows "complete_response status (emitted out1) \<and> scope_client w1 = scope_client w'"
  using assms(2,3)
  by (auto simp: audit_middleware_def assms(1) Let_def complete_echo dest: finish_clientD split: option.splits bool.splits if_splits)

lemma access_parts: "foldl access_send st (map (\<lambda>b. ResponseBody b True) parts) = st"
  by (induction parts arbitrary: st) (case_tac st; simp)+

lemma access_once: "complete_response status msgs \<Longrightarrow> length (access_lines fmt2 d scope rid msgs) = 1"
  by (auto simp: complete_response_def access_lines_def access_parts)

definition protected_start :: "asgi_out \<Rightarrow> bool" where
  "protected_start m \<longleftrightarrow> (case m of
       ResponseStart status hdrs \<Rightarrow> filter (\<lambda>(n, v). n \<in> set SECURITY_HEADER_NAMES) hdrs = SECURITY_HEADERS
     | ResponseBody body more_body \<Rightarrow> True)"

lemma security_protected: "list_all protected_start (map security_send ms)"
proof -
  have "protected_start (security_send m)" for m
    by (cases m) (simp_all add: protected_start_def security_headers_exact del: filter_append filter_filter)
  then show ?thesis by (simp add: list_all_iff)
qed

text \<open>C23: through the whole stack of middleware, whatever is switched on, a complete response to a data request
  keeps its status, carries each of the five security headers exactly once with the value the gateway
  sets, is counted exactly once, under its own namespace and the authenticated client, and leaves one
  access line when the access log is on.\<close>

theorem response_through_stack:
  assumes "scope_http scope" and "scope_path scope = data_path ns q" and "ns_matches ns"
    and "app e w = (out, w')" and "complete_response status (emitted out)"
    and "app_stack clock sha fmt2 d s scope app e (w, st) = (out1, w1, st1)"
  shows "complete_response status (emitted out1) \<and> list_all protected_start (emitted out1) \<and>
    tasks st1 = tasks st @ [(status, ns, case scope_client w' of Some c \<Rightarrow> c | None \<Rightarrow> [])] \<and>
    length (access_log_lines st1) = length (access_log_lines st) + (if access_log (logging s) then 1 else 0)"
proof -
  obtain out0 w0 ast where inner: "(if audit_level (audit s) \<ge> 1 then audit_middleware clock sha scope app e (w, audit_part st)
      else (case app e w of (out, w1) \<Rightarrow> (out, w1, audit_part st))) = (out0, w0, ast)"
    by (metis prod.collapse)
  have c: "complete_response status (emitted out0) \<and> scope_client w0 = scope_client w'"
    using inner assms(4,5) middleware_complete [where app = app and e = e and w = w, OF assms(4) _ assms(5)] by (auto split: if_splits)
  then have r: "metric_tasks (scope_path scope) (scope_client w0) (emitted out0) = [(status, ns, case scope_client w' of Some c \<Rightarrow> c | None \<Rightarrow> [])]"
    using recorded_once [of status "emitted out0"] data_path_label [OF assms(3)] assms(2) by (simp add: metric_tasks_def)
  from assms(1,6) inner r show ?thesis
    using complete_security c security_protected access_once by (auto simp: app_stack_def Let_def)
qed

theorem response_through_stack_witness:
  "\<exists>out1 w1 st1. app_stack sample_clock id (\<lambda>_. ''1.00'') 1 default_settings sample_scope
      (sample_app (data_endpoint ''s3cret'' ''B'' (KvRequest (GetKv ''k'')))) sample_auth_env
      (sample_world Map.empty, \<lparr>audit_part = sample_audit, tasks = [], access_log_lines = []\<rparr>) = (out1, w1, st1) \<and>
    list_all protected_start (emitted out1) \<and> tasks st1 = [(403, ''B'', ''APP'')]"
proof -
  let ?q = "KvRequest (GetKv ''k'')" and ?w = "sample_world Map.empty"
  let ?app = "sample_app (data_endpoint ''s3cret'' ''B'' ?q)"
  let ?st = "\<lparr>audit_part = sample_audit, tasks = [], access_log_lines = []\<rparr>"
  have m: "map_of (build_key_map (conf sample_auth_env)) ''s3cret'' = Some sample_client" by code_simp
  have n: "cache_ok (conf sample_auth_env) ?w" "connected ?w" by (simp_all add: cache_ok_def sample_world_def)
  have d: "\<not> check_access sample_client ''B'' (data_needs ?q)"
    by (simp add: sample_client_def check_access_def granted_def)
  note f = denied_refused [OF n(1) m n(2) d]
  have a: "?app sample_auth_env ?w = (\<lparr>received = [], emitted = [ResponseStart 403 [], ResponseBody [] False], failure = None, path_key = None\<rparr>,
      snd (data_endpoint ''s3cret'' ''B'' ?q sample_auth_env ?w))"
  proof -
    obtain r w' where run: "data_endpoint ''s3cret'' ''B'' ?q sample_auth_env ?w = (r, w')" by fastforce
    with f(1) have "r = Inl (access_denied sample_client ''B'' (data_needs ?q))" by simp
    with run show ?thesis by (simp add: sample_app_def access_denied_def error_def respond_def)
  qed
  obtain out1 w1 st1 where run: "app_stack sample_clock id (\<lambda>_. ''1.00'') 1 default_settings sample_scope ?app sample_auth_env (?w, ?st) = (out1, w1, st1)"
    by (metis prod.collapse)
  have "complete_response 403 [ResponseStart 403 [], ResponseBody [] False]"
    unfolding complete_response_def by (intro exI [of _ "[]"]) simp
  moreover have "ns_matches ''B''" by code_simp
  moreover have "scope_http sample_scope" "scope_path sample_scope = data_path ''B'' ?q"
    by (simp_all add: sample_scope_def data_path_def data_segments_def join_path_def)
  ultimately show ?thesis
    using response_through_stack [OF _ _ _ a _ run, of "''B''" ?q 403] f(3) run by (simp add: sample_client_def)
qed

end
