(* ===== verification/Admin.thy ===== *)
theory Admin
  imports RedisDoc
begin

text \<open>
  \<open>app/routers/admin.py\<close>: key listing, inspection, TTL, deletion one by one and by pattern,
  statistics, the client list with masked keys, and the metrics of the service (their Prometheus
  text is in the theory Scrape, and the operations only the administrator may use are put together
  in AdminPlane). The clock and \<open>float()\<close> of a string are parameters.
\<close>

section \<open>Helpers\<close>

definition ask_rust :: "('r, bool) act" where
  "ask_rust = (\<lambda>e w. (Inr (use_rust e), w))"

definition validate_ns_step :: "string \<Rightarrow> ('r, string) act" where
  "validate_ns_step ns = (\<lambda>e w. (validate_ns (use_rust e) ns, w))"

fun as_str :: "pyval \<Rightarrow> exc + string" where
  "as_str (PStr s) = Inr s"
| "as_str _ = Inl (PyExc ''TypeError'')"

definition list_systems :: "('r, pyval) act" where
  "list_systems = bnd get_settings (\<lambda>s.
     ret (ok_simple (PDict
       [(''systems'', PList (map PStr (sort (filter (\<lambda>cid. cid \<noteq> ''MONITOR'') (map fst (clients s)))))),
        (''fixed'', PList [PStr ''MONITOR'', PStr ''admin''])])))"

definition is_storage_key :: "bool \<Rightarrow> string \<Rightarrow> bool" where
  "is_storage_key rust redis_key = (case parse_key rust redis_key of
       Inl x \<Rightarrow> False
     | Inr (ns, prefix, key) \<Rightarrow> prefix \<in> set STORAGE_PREFIXES)"

definition key_missing :: "string \<Rightarrow> exc" where
  "key_missing redis_key = error ''KEY_NOT_FOUND'' (''Key not found: '' @ redis_key) 404"

text \<open>The key of a path \<open>{ns}/{type}/{key}\<close>.\<close>

definition typed_key :: "string \<Rightarrow> string \<Rightarrow> string \<Rightarrow> ('r, string) act" where
  "typed_key ns type_name key =
     bnd (lift (resolve_type_prefix type_name)) (\<lambda>prefix. key_act ns prefix key)"

section \<open>Listing and inspecting keys\<close>

text \<open>What is made of the reply of \<open>SCAN\<close>.\<close>

definition list_answer :: "pyval \<Rightarrow> ('r, pyval) act" where
  "list_answer reply = (case reply of
       PList [next_cursor, keys] \<Rightarrow>
         bnd (lift (ebind (as_list keys) (emap as_str))) (\<lambda>ks.
         bnd ask_rust (\<lambda>rust.
         let user_keys = filter (is_storage_key rust) ks
         in ret (ok_simple (PDict
              [(''keys'', PList (map PStr (sort user_keys))),
               (''count'', PInt (int (length user_keys))),
               (''cursor'', next_cursor),
               (''has_more'', PBool (\<not> eq_int next_cursor 0))]))))
     | _ \<Rightarrow> bad_unpack)"

definition list_keys :: "client_info \<Rightarrow> string option \<Rightarrow> string \<Rightarrow> string option \<Rightarrow> int \<Rightarrow> int \<Rightarrow> ('r, pyval) act" where
  "list_keys client ns pattern type_name cursor count =
     bnd (case ns of
            None \<Rightarrow> ret ()
          | Some n \<Rightarrow> if n = [] then ret ()
                      else bnd (validate_ns_step n) (\<lambda>_. require_read client n)) (\<lambda>_.
     bnd (lift (build_scan_pattern ns type_name pattern)) (\<lambda>search_pattern.
     bnd (send (SCAN cursor search_pattern count)) list_answer))"

definition size_info :: "pyval \<Rightarrow> string \<Rightarrow> ('r, (string \<times> pyval) list) act" where
  "size_info key_type k =
     (if key_type = PStr ''string'' then bnd (send (STRLEN k)) (\<lambda>n. ret [(''length'', n)])
      else if key_type = PStr ''hash'' then bnd (send (HLEN k)) (\<lambda>n. ret [(''field_count'', n)])
      else if key_type = PStr ''list'' then bnd (send (LLEN k)) (\<lambda>n. ret [(''length'', n)])
      else if key_type = PStr ''set'' then bnd (send (SCARD k)) (\<lambda>n. ret [(''member_count'', n)])
      else if key_type = PStr ''zset'' then bnd (send (ZCARD k)) (\<lambda>n. ret [(''member_count'', n)])
      else if key_type = PStr ''stream'' then bnd (send (XLEN k)) (\<lambda>n. ret [(''length'', n)])
      else ret [])"

definition key_info :: "client_info \<Rightarrow> string \<Rightarrow> string \<Rightarrow> string \<Rightarrow> ('r, pyval) act" where
  "key_info client ns type_name key =
     bnd (require_read client ns) (\<lambda>_.
     bnd (typed_key ns type_name key) (\<lambda>redis_key.
     bnd (send (KEYTYPE redis_key)) (\<lambda>key_type.
     if key_type = PStr ''none'' then raise (key_missing redis_key)
     else
       bnd (send (TTL redis_key)) (\<lambda>ttl.
       bnd (send (OBJECT_ENCODING redis_key)) (\<lambda>encoding.
       bnd (size_info key_type redis_key) (\<lambda>size.
       ret (ok_simple (PDict
         ([(''redis_key'', PStr redis_key), (''type'', key_type), (''ttl'', ttl), (''encoding'', encoding)]
          @ size)))))))))"

section \<open>Changing keys\<close>

definition set_ttl :: "client_info \<Rightarrow> string \<Rightarrow> string \<Rightarrow> string \<Rightarrow> ttl_set_request \<Rightarrow> ('r, pyval) act" where
  "set_ttl client ns type_name key body =
     bnd (require_admin client) (\<lambda>_.
     bnd (typed_key ns type_name key) (\<lambda>redis_key.
     bnd (send (EXISTS redis_key)) (\<lambda>exists.
     if \<not> truthy exists then raise (key_missing redis_key)
     else
       bnd (send (ttl_cmd redis_key (touch_ttl body))) (\<lambda>_.
       bnd (send (TTL redis_key)) (\<lambda>actual_ttl.
       ret (ok_simple (PDict [(''redis_key'', PStr redis_key), (''ttl'', actual_ttl)])))))))"

definition delete_key :: "client_info \<Rightarrow> string \<Rightarrow> string \<Rightarrow> string \<Rightarrow> ('r, pyval) act" where
  "delete_key client ns type_name key =
     bnd (require_admin client) (\<lambda>_.
     bnd (typed_key ns type_name key) (\<lambda>redis_key.
     bnd (send (DEL [redis_key])) (\<lambda>deleted.
     if \<not> truthy deleted then raise (key_missing redis_key)
     else ret (ok_simple (PDict [(''redis_key'', PStr redis_key), (''deleted'', PBool True)])))))"

definition BULK_LIMIT :: nat where
  "BULK_LIMIT = 10000"

definition BULK_BATCH :: nat where
  "BULK_BATCH = 100"

text \<open>The body of the scan loop: the keys to delete, and whether more were left.\<close>

definition bulk_step :: "bool \<Rightarrow> string \<Rightarrow> string list \<times> bool \<Rightarrow> (string list \<times> bool) \<times> bool" where
  "bulk_step rust key st = (case st of (keys_to_delete, truncated) \<Rightarrow>
     if \<not> is_storage_key rust key then ((keys_to_delete, truncated), False)
     else if length keys_to_delete \<ge> BULK_LIMIT then ((keys_to_delete, True), True)
     else ((keys_to_delete @ [key], truncated), False))"

function batches :: "string list \<Rightarrow> string list list" where
  "batches xs = (if xs = [] then [] else take BULK_BATCH xs # batches (drop BULK_BATCH xs))"
  by pat_completeness auto
termination by (relation "measure length") (auto simp: BULK_BATCH_def)

declare batches.simps [simp del]

fun delete_batches :: "string list list \<Rightarrow> int \<Rightarrow> ('r, int) act" where
  "delete_batches [] deleted = ret deleted"
| "delete_batches (batch # rest) deleted =
     bnd (send (DEL batch)) (\<lambda>r.
     case r of PInt n \<Rightarrow> delete_batches rest (deleted + n) | _ \<Rightarrow> raise (PyExc ''TypeError''))"

text \<open>The two answers.\<close>

definition bulk_finish :: "bool \<Rightarrow> string list \<times> bool \<Rightarrow> ('r, pyval) act" where
  "bulk_finish dry_run st = (case st of (keys_to_delete, truncated) \<Rightarrow>
     if dry_run then
       ret (ok_simple (PDict
         [(''keys'', PList (map PStr (sort keys_to_delete))), (''count'', PInt (int (length keys_to_delete))),
          (''truncated'', PBool truncated), (''dry_run'', PBool True)]))
     else
       bnd (delete_batches (batches keys_to_delete) 0) (\<lambda>deleted.
       ret (ok_simple (PDict
         [(''deleted'', PInt deleted), (''truncated'', PBool truncated), (''dry_run'', PBool False)]))))"

definition bulk_delete_keys :: "client_info \<Rightarrow> string \<Rightarrow> string option \<Rightarrow> string \<Rightarrow> bool \<Rightarrow> ('r, pyval) act" where
  "bulk_delete_keys client ns type_name pattern dry_run =
     bnd (require_admin client) (\<lambda>_.
     bnd (validate_ns_step ns) (\<lambda>_.
     bnd (lift (build_scan_pattern (Some ns) type_name pattern)) (\<lambda>search_pattern.
     bnd ask_rust (\<lambda>rust.
     bnd (scan_fold search_pattern 500 (bulk_step rust) ([], False)) (bulk_finish dry_run)))))"

section \<open>Statistics\<close>

type_synonym ns_stats = "(string \<times> int \<times> (string \<times> int) list) list"

definition bump :: "string \<Rightarrow> (string \<times> int) list \<Rightarrow> (string \<times> int) list" where
  "bump k d = AList.update k ((case map_of d k of Some n \<Rightarrow> n | None \<Rightarrow> 0) + 1) d"

definition count_key :: "string \<Rightarrow> string \<Rightarrow> ns_stats \<Rightarrow> ns_stats" where
  "count_key ns prefix st =
     (case (case map_of st ns of Some x \<Rightarrow> x | None \<Rightarrow> (0, [])) of
        (n, by_type) \<Rightarrow> AList.update ns (n + 1, bump prefix by_type) st)"

definition stats_step :: "bool \<Rightarrow> int \<Rightarrow> string \<Rightarrow> ns_stats \<times> int \<Rightarrow> (ns_stats \<times> int) \<times> bool" where
  "stats_step rust limit key st = (case st of (stats, scanned) \<Rightarrow>
     let scanned' = scanned + 1 in
     case parse_key rust key of
       Inl x \<Rightarrow> ((stats, scanned'), scanned' \<ge> limit)
     | Inr (ns, prefix, u) \<Rightarrow>
         ((if prefix \<in> set STORAGE_PREFIXES then count_key ns prefix stats else stats, scanned'),
          scanned' \<ge> limit))"

definition stats_dict :: "ns_stats \<Rightarrow> pyval" where
  "stats_dict st = PDict (map (\<lambda>(ns, n, by_type).
     (ns, PDict [(''total_keys'', PInt n),
                 (''by_type'', PDict (map (\<lambda>(p, i). (p, PInt i)) by_type))])) st)"

text \<open>\<open>v.get(k, d)\<close> of a dict.\<close>

definition get_default :: "pyval \<Rightarrow> string \<Rightarrow> pyval \<Rightarrow> exc + pyval" where
  "get_default v k d = (case v of
       PDict kvs \<Rightarrow> Inr (case map_of kvs k of Some x \<Rightarrow> x | None \<Rightarrow> d)
     | _ \<Rightarrow> Inl (PyExc ''AttributeError''))"

definition get_stats :: "client_info \<Rightarrow> int \<Rightarrow> ('r, pyval) act" where
  "get_stats client limit =
     bnd (send (INFO ''memory'')) (\<lambda>info.
     bnd ask_rust (\<lambda>rust.
     bnd (scan_fold ''*'' 500 (stats_step rust limit) ([], 0)) (\<lambda>(stats, scanned).
     bnd (lift (get_default info ''used_memory_human'' (PStr ''N/A''))) (\<lambda>used.
     bnd (lift (get_default info ''used_memory_peak_human'' (PStr ''N/A''))) (\<lambda>peak.
     ret (ok_simple (PDict
       [(''redis_memory'', PDict [(''used_memory_human'', used), (''used_memory_peak_human'', peak)]),
        (''namespaces'', stats_dict stats),
        (''scanned_keys'', PInt scanned),
        (''truncated'', PBool (scanned \<ge> limit))])))))))"

section \<open>Clients\<close>

text \<open>\<open>len\<close> and slices count characters.\<close>

definition mask_key :: "string \<Rightarrow> string" where
  "mask_key key =
     (if char_count key \<le> 4 then ''****''
      else if char_count key \<le> 8 then char_take 4 key @ ''****''
      else char_take 8 key @ ''***'')"

definition client_entry :: "string \<Rightarrow> string \<Rightarrow> (string \<times> string list) list \<Rightarrow> pyval" where
  "client_entry api_key descr nss =
     PDict [(''api_key'', PStr (mask_key api_key)), (''description'', PStr descr),
            (''namespaces'', PDict (map (\<lambda>(ns, ops). (ns, PList (map PStr ops))) nss))]"

definition list_clients :: "client_info \<Rightarrow> ('r, pyval) act" where
  "list_clients client =
     bnd (require_admin client) (\<lambda>_.
     bnd get_settings (\<lambda>s.
     let listed = py_dict (map (\<lambda>(cid, cfg).
           (cid, client_entry (client_api_key cfg) (client_description cfg) (client_namespaces cfg))) (clients s));
         all = (if admin_api_key (admin s) \<noteq> []
                then AList.update ''admin''
                       (client_entry (admin_api_key (admin s)) ''Administrator'' [(''*'', [''read'', ''write''])]) listed
                else listed)
     in ret (ok_simple (PDict [(''clients'', PDict all)]))))"

section \<open>Metrics\<close>

definition service_metrics :: "(string \<Rightarrow> pyfloat option) \<Rightarrow> pyval \<Rightarrow> client_info \<Rightarrow> ('r, pyval) act" where
  "service_metrics pyfl uptime client =
     bnd (require_admin client) (\<lambda>_.
     bnd (get_metrics_async pyfl uptime) (\<lambda>m. ret (ok_simple m)))"

section \<open>Facts\<close>

lemma confined_ask_rust [confined_intros]: "confined P ask_rust"
  by (simp add: confined_def ask_rust_def)

lemma confined_validate_ns_step [confined_intros]: "confined P (validate_ns_step ns)"
  by (simp add: confined_def validate_ns_step_def)

lemma batches_concat: "concat (batches xs) = xs"
  by (induction xs rule: batches.induct) (subst batches.simps, simp)

lemma batches_bound: "b \<in> set (batches xs) \<Longrightarrow> b \<noteq> [] \<and> length b \<le> BULK_BATCH"
proof (induction xs rule: batches.induct)
  case (1 xs)
  then show ?case
    by (cases "xs = []") (auto simp: batches.simps [of xs] batches.simps [of "[]"] BULK_BATCH_def)
qed

lemma is_storage_key_build:
  "is_storage_key rust k \<longleftrightarrow> (\<exists>ns p u. parse_key rust k = Inr (ns, p, u) \<and> p \<in> set STORAGE_PREFIXES)"
  by (auto simp: is_storage_key_def split: sum.splits)

lemma confined_delete_batches:
  "list_all (\<lambda>b. P (DEL b)) bs \<Longrightarrow> confined P (delete_batches bs n)"
  by (induction bs arbitrary: n) (auto intro!: confined_intros split: pyval.split)

section \<open>Properties\<close>

lemma is_storage_key_rust: "is_storage_key rust k = is_storage_key True k"
  unfolding is_storage_key_build parse_key_Inr ..

lemma bulk_scan:
  "list_all (\<lambda>k. k \<in> set ks \<and> is_storage_key rust k) (fst (fst (scan_loop (bulk_step rust) ks ([], False)))) \<and>
   length (fst (fst (scan_loop (bulk_step rust) ks ([], False)))) \<le> BULK_LIMIT"
  by (rule scan_loop_inv [where I = "\<lambda>st. list_all (\<lambda>k. k \<in> set ks \<and> is_storage_key rust k) (fst st) \<and> length (fst st) \<le> BULK_LIMIT"])
     (auto simp: bulk_step_def split: prod.splits)

lemma delete_batches_sent:
  "\<exists>j. sent (snd (delete_batches bs n e w)) = sent w @ map (\<lambda>b. DEL b) (take j bs)"
proof (induction bs arbitrary: n w)
  case Nil
  then show ?case by (simp add: act_simps)
next
  case (Cons b bs)
  obtain r w1 where s: "send (DEL b) e w = (r, w1)" by fastforce
  then have w1: "sent w1 = sent w @ [DEL b]" by (auto simp: send_def split: prod.splits)
  show ?case
  proof (cases "\<exists>i. r = Inr (PInt i)")
    case True
    then obtain i where r: "r = Inr (PInt i)" by blast
    from Cons.IH [of "n + i" w1] obtain j where
      "sent (snd (delete_batches bs (n + i) e w1)) = sent w1 @ map (\<lambda>b. DEL b) (take j bs)" by blast
    then show ?thesis using s r w1 by (intro exI [of _ "Suc j"]) (simp add: act_simps)
  next
    case False
    then show ?thesis using s w1
      by (intro exI [of _ 1]) (auto simp: act_simps split: sum.splits pyval.splits)
  qed
qed

lemma bulk_pattern:
  assumes "build_scan_pattern (Some ns) ty pat = Inr p" and "ns_matches ns" and "glob p k" and "is_storage_key rust k"
  shows "\<exists>pr u. parse_key rust k = Inr (ns, pr, u) \<and> pr \<in> set STORAGE_PREFIXES"
proof -
  have "ns \<noteq> []" using assms(2) by (auto simp: ns_matches_def)
  with assms(1) obtain q where p: "p = (ns @ [colon]) @ q"
    by (auto simp: build_scan_pattern_def ebind_eq_Inr split: if_splits)
  have "c \<in> set ns \<Longrightarrow> c \<noteq> CHR ''*'' \<and> c \<noteq> CHR ''?''" for c
    using assms(2) by (auto simp: ns_matches_def list_all_iff ns_char_def is_alnum_def is_upper_def is_lower_def is_digit_def code_def)
  then obtain t where k: "k = (ns @ [colon]) @ t" using glob_literal [of "ns @ [colon]" q k] assms(3) p by auto
  from assms(4) obtain a pr u where a: "parse_key rust k = Inr (a, pr, u)" "pr \<in> set STORAGE_PREFIXES"
    by (auto simp: is_storage_key_build)
  have "colon \<notin> set ns" by (rule pub.ns_no_colon [OF assms(2)])
  have "k = join_key a pr u" and "colon \<notin> set a" using a(1) by (simp_all add: parse_key_Inr)
  then have "cut colon k = Some (a, pr @ colon # u)" by (simp add: join_key_def cut_append)
  moreover have "cut colon k = Some (ns, t)" using k \<open>colon \<notin> set ns\<close> by (simp add: cut_append)
  ultimately have "a = ns" by simp
  then show ?thesis using a by blast
qed

lemma list_all_prefix: "xs @ ys = zs \<Longrightarrow> list_all P zs \<Longrightarrow> length zs \<le> n \<Longrightarrow> list_all P xs \<and> length xs \<le> n"
  by auto

lemma bulk_finish_sends:
  "\<exists>j. sent (snd (bulk_finish dry_run (keys, trunc) e w)) = sent w @ map (\<lambda>b. DEL b) (if dry_run then [] else take j (batches keys))"
proof (cases dry_run)
  case False
  obtain r w2 where d: "delete_batches (batches keys) 0 e w = (r, w2)" by fastforce
  with delete_batches_sent [of "batches keys" 0 e w] False show ?thesis
    by (cases r) (simp_all add: bulk_finish_def act_simps)
qed (simp add: bulk_finish_def act_simps)

lemma batches_prefix:
  assumes "list_all P keys" and "length keys \<le> n"
  shows "list_all P (concat (take j (batches keys)))" and "length (concat (take j (batches keys))) \<le> n"
    and "list_all (\<lambda>b. b \<noteq> [] \<and> length b \<le> 100) (take j (batches keys))"
proof -
  have "concat (take j (batches keys)) @ concat (drop j (batches keys)) = keys"
    by (metis append_take_drop_id batches_concat concat_append)
  from list_all_prefix [OF this assms]
  show "list_all P (concat (take j (batches keys)))" and "length (concat (take j (batches keys))) \<le> n" by blast+
  show "list_all (\<lambda>b. b \<noteq> [] \<and> length b \<le> 100) (take j (batches keys))"
    using batches_bound [of _ keys] by (auto simp: list_all_iff BULK_BATCH_def dest!: in_set_takeD)
qed

lemma bulk_refused:
  assumes "\<not> (client_id client = ''admin'' \<and> ns_matches ns \<and> (\<exists>p. build_scan_pattern (Some ns) ty pat = Inr p))"
  shows "sent (snd (bulk_delete_keys client ns ty pat dry_run e w)) = sent w"
  using assms by (cases "validate_ns (use_rust e) ns"; cases "build_scan_pattern (Some ns) ty pat")
    (auto simp: bulk_delete_keys_def act_simps require_admin_apply validate_ns_step_def validate_ns_Inr split: sum.split)

text \<open>C25: deleting by pattern sends, after the scan, only \<open>DEL\<close> of at most 100 keys at a time and 10000 in
  all, every one a stored key of the namespace asked for (never an internal key or one of another
  namespace); a dry run, and a client that is not the administrator, delete nothing.\<close>

theorem bulk_delete_safe:
  assumes "scan_documented (redis e)"
  shows "\<exists>cs bs. sent (snd (bulk_delete_keys client ns ty pat dry_run e w)) = sent w @ cs @ map (\<lambda>b. DEL b) bs \<and>
    list_all is_read cs \<and> list_all (\<lambda>b. b \<noteq> [] \<and> length b \<le> 100) bs \<and> length (concat bs) \<le> 10000 \<and>
    list_all (\<lambda>k. \<exists>p u. parse_key (use_rust e) k = Inr (ns, p, u) \<and> p \<in> set STORAGE_PREFIXES) (concat bs) \<and>
    (dry_run \<or> client_id client \<noteq> ''admin'' \<longrightarrow> bs = [])"
proof (cases "client_id client = ''admin'' \<and> ns_matches ns \<and> (\<exists>p. build_scan_pattern (Some ns) ty pat = Inr p)")
  case False
  from bulk_refused [OF this] show ?thesis by (intro exI [of _ "[]"]) simp
next
  case True
  then obtain p where p: "build_scan_pattern (Some ns) ty pat = Inr p" by blast
  have v: "validate_ns (use_rust e) ns = Inr ns" using True by (simp add: validate_ns_Inr)
  obtain ks err s where scan: "scan_iter (redis e) p 500 (rstate w) = ((ks, err), s)" by (metis prod.exhaust)
  obtain keys trunc stop where loop: "scan_loop (bulk_step (use_rust e)) ks ([], False) = ((keys, trunc), stop)"
    by (metis prod.exhaust)
  let ?w1 = "w\<lparr>rstate := s, sent := sent w @ [SCAN 0 p 500]\<rparr>"
  have "list_all (glob p) ks" using assms scan unfolding scan_documented_def by (metis fst_conv)
  then have keys: "list_all (\<lambda>k. \<exists>q u. parse_key (use_rust e) k = Inr (ns, q, u) \<and> q \<in> set STORAGE_PREFIXES) keys"
    and len: "length keys \<le> 10000"
    using bulk_scan [of ks "use_rust e"] bulk_pattern [OF p] True loop by (auto simp: list_all_iff BULK_LIMIT_def)
  have run: "bulk_delete_keys client ns ty pat dry_run e w =
      (if err = None \<or> stop then bulk_finish dry_run (keys, trunc) e ?w1 else (Inl (RedisExc (the err)), ?w1))"
    using True p v scan loop
    by (cases stop; cases err)
       (simp_all add: bulk_delete_keys_def require_admin_def act_simps validate_ns_step_def ask_rust_def scan_fold_def)
  obtain j where j: "sent (snd (bulk_finish dry_run (keys, trunc) e ?w1)) =
      sent w @ [SCAN 0 p 500] @ map (\<lambda>b. DEL b) (if dry_run then [] else take j (batches keys))"
    using bulk_finish_sends [of dry_run keys trunc e ?w1] by auto
  define bs where "bs = (if dry_run \<or> \<not> (err = None \<or> stop) then [] else take j (batches keys))"
  have "sent (snd (bulk_delete_keys client ns ty pat dry_run e w)) = sent w @ [SCAN 0 p 500] @ map (\<lambda>b. DEL b) bs"
    using j by (auto simp: run bs_def)
  then show ?thesis using batches_prefix [OF keys len, of j] True
    by (intro exI [of _ "[SCAN 0 p 500]"] exI [of _ bs]) (auto simp: bs_def)
qed

theorem bulk_delete_safe_witness:
  "\<exists>cs bs. sent (snd (bulk_delete_keys admin_client ''A'' None ''*'' False sample_scan_env (sample_world Map.empty))) =
      cs @ map (\<lambda>b. DEL b) bs \<and> length (concat bs) \<le> 10000"
proof -
  from bulk_delete_safe [OF sample_scan_documented, of admin_client "''A''" None "''*''" False "sample_world Map.empty"]
  show ?thesis by auto
qed

text \<open>The keys of a namespace that count, among the first \<open>n\<close> scanned.\<close>

definition storage_of :: "string \<Rightarrow> string \<Rightarrow> bool" where
  "storage_of ns k \<longleftrightarrow> (\<exists>p u. parse_key True k = Inr (ns, p, u) \<and> p \<in> set STORAGE_PREFIXES)"

definition total_of :: "ns_stats \<Rightarrow> string \<Rightarrow> int" where
  "total_of st ns = (case map_of st ns of Some (n, d) \<Rightarrow> n | None \<Rightarrow> 0)"

text \<open>Those of one type, and what the statistics say of it.\<close>

definition storage_of_type :: "string \<Rightarrow> string \<Rightarrow> string \<Rightarrow> bool" where
  "storage_of_type ns p k = (case parse_key True k of
       Inl x \<Rightarrow> False | Inr (ns', p', u) \<Rightarrow> ns' = ns \<and> p' = p \<and> p \<in> set STORAGE_PREFIXES)"

definition type_total :: "ns_stats \<Rightarrow> string \<Rightarrow> string \<Rightarrow> int" where
  "type_total st ns p = (case map_of st ns of
       Some (n, d) \<Rightarrow> (case map_of d p of Some i \<Rightarrow> i | None \<Rightarrow> 0) | None \<Rightarrow> 0)"

lemma type_total_count:
  "type_total (count_key ns p st) ns' p' = type_total st ns' p' + (if ns' = ns \<and> p' = p then 1 else 0)"
  by (auto simp: type_total_def count_key_def bump_def update_conv' split: option.splits prod.splits)

lemma stats_step_type:
  "type_total (fst (fst (stats_step rust limit k (st, n)))) ns p = type_total st ns p + (if storage_of_type ns p k then 1 else 0)"
  by (auto simp: stats_step_def Let_def parse_key_rust [of rust] storage_of_type_def type_total_count split: sum.splits)

lemma total_of_count: "total_of (count_key ns p st) ns' = total_of st ns' + (if ns' = ns then 1 else 0)"
  by (auto simp: total_of_def count_key_def update_conv' split: option.splits prod.splits)

lemma stats_step_total:
  "total_of (fst (fst (stats_step rust limit k (st, n)))) ns = total_of st ns + (if storage_of ns k then 1 else 0)"
  by (auto simp: stats_step_def Let_def parse_key_rust [of rust] storage_of_def total_of_count split: sum.splits)

lemma stats_step_scanned:
  "snd (fst (stats_step rust limit k (st, n))) = n + 1" "snd (stats_step rust limit k (st, n)) = (n + 1 \<ge> limit)"
  by (auto simp: stats_step_def Let_def split: sum.splits)

text \<open>Any figure that each step adds one to for the keys of a kind counts the keys of that kind.\<close>

lemma stats_loop:
  fixes ks :: "string list" and figure :: "ns_stats \<Rightarrow> int"
  assumes step: "\<And>k st n. figure (fst (fst (stats_step rust limit k (st, n)))) = figure st + (if P k then 1 else 0)"
    and "n < limit"
  defines "m \<equiv> min (length ks) (nat (limit - n))"
  shows "figure (fst (fst (scan_loop (stats_step rust limit) ks (st, n)))) =
      figure st + int (length (filter P (take m ks))) \<and>
    snd (fst (scan_loop (stats_step rust limit) ks (st, n))) = n + int m"
  using assms(2) unfolding m_def
proof (induction ks arbitrary: st n)
  case (Cons k ks)
  obtain st' n' stop where f: "stats_step rust limit k (st, n) = ((st', n'), stop)" by (metis prod.exhaust)
  with step [of k st n] stats_step_scanned [of rust limit k st n]
  have st': "figure st' = figure st + (if P k then 1 else 0)" and n': "n' = n + 1"
    and stop: "stop = (n + 1 \<ge> limit)" by auto
  show ?case
  proof (cases "n + 1 \<ge> limit")
    case True
    then have "nat (limit - n) = 1" using Cons.prems by linarith
    then show ?thesis using True f st' n' stop by simp
  next
    case False
    then have *: "nat (limit - n) = Suc (nat (limit - n'))" using n' by linarith
    from Cons.IH [of n' st'] False f st' n' stop show ?thesis by (simp add: *)
  qed
qed simp

lemma map_of_stats_dict: "stats_dict st = PDict d \<Longrightarrow> map_of d ns =
   map_option (\<lambda>(n, by_type). PDict [(''total_keys'', PInt n), (''by_type'', PDict (map (\<lambda>(p, i). (p, PInt i)) by_type))]) (map_of st ns)"
  by (auto simp: stats_dict_def) (induction st arbitrary: d; auto)

text \<open>C39: the statistics are exact for the keys looked at: of the first \<open>limit\<close> keys of the scan, the total of
  a namespace is the number of its stored keys and each of its figures by type the number of those of
  that type; a namespace or type that is not listed has none; and \<open>truncated\<close> says whether the limit
  was reached.\<close>

theorem stats_exact:
  fixes e :: "'r env" and w :: "'r world"
  assumes "1 \<le> limit" and "fst (get_stats client limit e w) = Inr a"
    and "fst (fst (scan_iter (redis e) ''*'' 500 (snd (call (redis e) (INFO ''memory'') (rstate w))))) = ks"
  shows "let m = min (length ks) (nat limit);
             counted = (\<lambda>ns. int (length (filter (storage_of ns) (take m ks))));
             typed = (\<lambda>ns p. int (length (filter (storage_of_type ns p) (take m ks))))
    in data_field a ''scanned_keys'' = Some (PInt (int m)) \<and>
       data_field a ''truncated'' = Some (PBool (int m \<ge> limit)) \<and>
       (\<exists>d. data_field a ''namespaces'' = Some (PDict d) \<and>
          (case map_of d ns of None \<Rightarrow> counted ns = 0
           | Some x \<Rightarrow> \<exists>by_type. x = PDict [(''total_keys'', PInt (counted ns)), (''by_type'', PDict by_type)] \<and>
               (\<forall>p. case map_of by_type p of None \<Rightarrow> typed ns p = 0 | Some v \<Rightarrow> v = PInt (typed ns p))))"
proof -
  let ?rust = "use_rust e" and ?m = "min (length ks) (nat limit)"
  obtain r s1 where c: "call (redis e) (INFO ''memory'') (rstate w) = (r, s1)" by fastforce
  obtain err s2 where sc: "scan_iter (redis e) ''*'' 500 s1 = ((ks, err), s2)" using assms(3) c by (metis eq_fst_iff snd_conv)
  obtain st n stop where loop: "scan_loop (stats_step ?rust limit) ks ([], 0) = ((st, n), stop)" by (metis prod.exhaust)
  have tot: "total_of st ns = int (length (filter (storage_of ns) (take ?m ks)))" and n: "n = int ?m" for ns
    using stats_loop [of "\<lambda>st. total_of st ns" ?rust limit "storage_of ns" 0 ks "[]", OF stats_step_total] assms(1) loop
    by (auto simp: total_of_def)
  have per_type: "type_total st ns p = int (length (filter (storage_of_type ns p) (take ?m ks)))" for p
    using stats_loop [of "\<lambda>st. type_total st ns p" ?rust limit "storage_of_type ns p" 0 ks "[]", OF stats_step_type] assms(1) loop
    by (auto simp: type_total_def)
  from assms(2) c sc loop obtain used peak where
    a: "a = ok_simple (PDict [(''redis_memory'', PDict [(''used_memory_human'', used), (''used_memory_peak_human'', peak)]),
        (''namespaces'', stats_dict st), (''scanned_keys'', PInt n), (''truncated'', PBool (n \<ge> limit))])"
    by (auto simp: get_stats_def act_simps send_def ask_rust_def scan_fold_def split: sum.splits option.splits if_splits bool.splits)
  obtain d where d: "stats_dict st = PDict d" by (simp add: stats_dict_def)
  have "case map_of d ns of None \<Rightarrow> int (length (filter (storage_of ns) (take ?m ks))) = 0
      | Some x \<Rightarrow> \<exists>by_type. x = PDict [(''total_keys'', PInt (int (length (filter (storage_of ns) (take ?m ks))))), (''by_type'', PDict by_type)] \<and>
          (\<forall>p. case map_of by_type p of None \<Rightarrow> int (length (filter (storage_of_type ns p) (take ?m ks))) = 0
             | Some v \<Rightarrow> v = PInt (int (length (filter (storage_of_type ns p) (take ?m ks)))))"
  proof (cases "map_of st ns")
    case None
    then show ?thesis using tot [of ns] map_of_stats_dict [OF d, of ns] by (simp add: total_of_def)
  next
    case (Some x)
    obtain j bt where x: "x = (j, bt)" by fastforce
    have by_type: "case map_of (map (\<lambda>(p, i). (p, PInt i)) bt) p of None \<Rightarrow> type_total st ns p = 0 | Some v \<Rightarrow> v = PInt (type_total st ns p)" for p
      using Some x by (simp add: type_total_def map_of_map split: option.split)
    have "map_of d ns = Some (PDict [(''total_keys'', PInt (total_of st ns)), (''by_type'', PDict (map (\<lambda>(p, i). (p, PInt i)) bt))])"
      using map_of_stats_dict [OF d, of ns] Some x by (simp add: total_of_def)
    then show ?thesis using by_type unfolding tot per_type by simp
  qed
  then show ?thesis unfolding Let_def a n using d by auto
qed

theorem stats_exact_witness:
  "\<exists>a. fst (get_stats sample_client 100 sample_scan_env (sample_world Map.empty)) = Inr a \<and>
     data_field a ''scanned_keys'' = Some (PInt 2) \<and> (\<exists>d. data_field a ''namespaces'' = Some (PDict d) \<and> map_of d ''A'' \<noteq> None)"
proof -
  have ks: "sample_keys ''*'' = [''A:kv:k'', ''redgw:metrics:total_requests'']" by code_simp
  obtain st n stop where "scan_loop (stats_step True 100) (sample_keys ''*'') ([], 0) = ((st, n), stop)"
    by (metis prod.exhaust)
  then obtain a where a: "fst (get_stats sample_client 100 sample_scan_env (sample_world Map.empty)) = Inr a"
    by (cases stop) (auto simp: get_stats_def act_simps send_def ask_rust_def scan_fold_def get_default_def)
  have "filter (storage_of ''A'') [''A:kv:k'', ''redgw:metrics:total_requests''] \<noteq> []"
  proof -
    have "parse_key True ''A:kv:k'' = Inr (''A'', ''kv'', ''k'')" "''kv'' \<in> set STORAGE_PREFIXES" by code_simp+
    then have "storage_of ''A'' ''A:kv:k''" unfolding storage_of_def by blast
    then show ?thesis by simp
  qed
  with stats_exact [OF _ a, of "sample_keys ''*''" "''A''"] a show ?thesis by (auto simp: ks Let_def split: option.splits)
qed

lemma emap_as_str: "emap as_str vs = Inr ks \<Longrightarrow> vs = map PStr ks"
proof (induction vs arbitrary: ks)
  case (Cons v vs)
  then show ?case by (cases v) (auto simp: ebind_eq_Inr)
qed simp

lemma list_answer_Inr:
  assumes "fst (list_answer reply e w) = Inr a"
  shows "\<exists>c ks. reply = PList [c, PList (map PStr ks)] \<and>
    data_field a ''keys'' = Some (PList (map PStr (sort (filter (is_storage_key (use_rust e)) ks))))"
  using assms
  by (auto simp: list_answer_def act_simps ask_rust_def bad_unpack_def ebind_eq_Inr Let_def
      split: pyval.splits list.splits sum.splits dest!: emap_as_str elim!: as_list.elims)

lemma scan_pattern_keys:
  assumes "build_scan_pattern (Some ns) ty pat = Inr p" and "ns_matches ns" and "list_all (glob p) ks"
  shows "list_all (\<lambda>k. \<exists>q u. parse_key rust k = Inr (ns, q, u)) (sort (filter (is_storage_key rust) ks))"
  using bulk_pattern [OF assms(1,2)] assms(3) by (fastforce simp: list_all_iff)

text \<open>C37: the key list never shows an internal key; with a namespace it shows only keys of that namespace
  and only to a client that may read it.\<close>

theorem list_keys_scoped:
  assumes "scan_documented (redis e)" and "fst (list_keys client ns pat ty cursor n e w) = Inr a"
  shows "\<exists>ks. data_field a ''keys'' = Some (PList (map PStr ks)) \<and> sorted ks \<and>
    list_all (is_storage_key (use_rust e)) ks \<and>
    (case ns of None \<Rightarrow> True | Some m \<Rightarrow> m = [] \<or>
       check_access client m ''read'' \<and> list_all (\<lambda>k. \<exists>p u. parse_key (use_rust e) k = Inr (m, p, u)) ks)"
proof -
  obtain p where p: "build_scan_pattern ns ty pat = Inr p"
    and acc: "case ns of None \<Rightarrow> True | Some m \<Rightarrow> m = [] \<or> check_access client m ''read'' \<and> ns_matches m"
    and run: "fst (bnd (send (SCAN cursor p n)) list_answer e w) = Inr a"
    using assms(2)
    by (auto simp: list_keys_def act_simps validate_ns_step_def require_read_def require_access_apply validate_ns_Inr
        split: sum.splits option.splits if_splits prod.splits)
  obtain r s where c: "call (redis e) (SCAN cursor p n) (rstate w) = (r, s)" by fastforce
  with run obtain reply w1 where r: "r = Inr reply" and ans: "fst (list_answer reply e w1) = Inr a"
    by (auto simp: act_simps send_def split: sum.splits)
  from list_answer_Inr [OF ans] obtain c' ks where
    ks: "reply = PList [c', PList (map PStr ks)]"
    "data_field a ''keys'' = Some (PList (map PStr (sort (filter (is_storage_key (use_rust e)) ks))))" by blast
  have "list_all (glob p) ks" using assms(1) c r ks(1) unfolding scan_documented_def by (metis fst_conv)
  then show ?thesis
    using ks(2) acc p scan_pattern_keys
    by (intro exI [of _ "sort (filter (is_storage_key (use_rust e)) ks)"]) (auto simp: list_all_iff split: option.splits)
qed

theorem list_keys_scoped_witness:
  "\<exists>a ks. fst (list_keys sample_client (Some ''A'') ''*'' None 0 100 sample_scan_env (sample_world Map.empty)) = Inr a \<and>
     data_field a ''keys'' = Some (PList (map PStr ks)) \<and>
     list_all (\<lambda>k. \<exists>p u. parse_key True k = Inr (''A'', p, u)) ks"
proof -
  have p: "build_scan_pattern (Some ''A'') None ''*'' = Inr ''A:*:*''" by code_simp
  have v: "validate_ns True ''A'' = Inr ''A''" by (simp add: validate_ns_Inr sample_ns)
  have "emap as_str (map PStr ks) = Inr ks" for ks by (induction ks) simp_all
  then obtain a where a: "fst (list_keys sample_client (Some ''A'') ''*'' None 0 100 sample_scan_env (sample_world Map.empty)) = Inr a"
    by (auto simp: list_keys_def act_simps validate_ns_step_def v p require_read_def sample_access
        send_def list_answer_def ask_rust_def Let_def split: sum.splits)
  from list_keys_scoped [OF sample_scan_documented a] a show ?thesis by auto
qed

end
