(* ===== verification/AuditAdmin.thy ===== *)
theory AuditAdmin
  imports Admin AuditMiddleware
begin

text \<open>
  \<open>app/routers/admin.py\<close>, the two endpoints about the audit log: the state of its directory and
  queue, with a cache of 30 seconds, and the origin of a stored key. The clock, the rounding of a
  \<open>float\<close> and what the file system shows are parameters.
\<close>

section \<open>Health detail\<close>

definition HEALTH_DETAIL_TTL :: rat where
  "HEALTH_DETAIL_TTL = 30"

text \<open>
  What the operating system answers about the audit directory; \<open>None\<close> where it raises. A file has
  a name, whether it is a regular file, and its size.
\<close>

record audit_dir_view =
  dir_there :: bool
  disk_usage :: "(nat \<times> nat \<times> nat) option"
  dir_files :: "(string \<times> bool \<times> nat option) list option"

definition count_audit_file :: "nat \<times> nat \<Rightarrow> string \<times> bool \<times> nat option \<Rightarrow> nat \<times> nat" where
  "count_audit_file st file = (case st of (bytes_total, file_count) \<Rightarrow> case file of (name, is_file, st_size) \<Rightarrow>
     if is_file \<and> starts_with ''audit.'' name
     then (case st_size of Some n \<Rightarrow> (bytes_total + n, file_count + 1) | None \<Rightarrow> (bytes_total, file_count))
     else (bytes_total, file_count))"

definition disk_stats_dict :: "pyval \<Rightarrow> pyval \<Rightarrow> pyval \<Rightarrow> pyval \<Rightarrow> pyval \<Rightarrow> pyval \<Rightarrow> (string \<times> pyval) list" where
  "disk_stats_dict total_gb used_gb free_gb free_pct current_usage_mb file_count =
     [(''total_gb'', total_gb), (''used_gb'', used_gb), (''free_gb'', free_gb), (''free_pct'', free_pct),
      (''current_usage_mb'', current_usage_mb), (''file_count'', file_count)]"

definition compute_audit_disk_stats ::
  "(rat \<Rightarrow> nat \<Rightarrow> pyfloat) \<Rightarrow> audit_dir_view \<Rightarrow> audit_config \<Rightarrow> (string \<times> pyval) list" where
  "compute_audit_disk_stats rnd dir audit_cfg =
     (let none_all = disk_stats_dict PNone PNone PNone PNone PNone PNone;
          gb = (\<lambda>n. PFloat (rnd (of_nat n / 1024 ^ 3) 2))
      in if audit_level audit_cfg \<le> 0 then none_all
         else if \<not> dir_there dir then disk_stats_dict PNone PNone PNone PNone (PInt 0) (PInt 0)
         else case disk_usage dir of
             None \<Rightarrow> none_all
           | Some (total_b, used_b, free_b) \<Rightarrow>
               (case dir_files dir of
                  None \<Rightarrow> none_all
                | Some files \<Rightarrow>
                    (case foldl count_audit_file (0, 0) files of (bytes_total, file_count) \<Rightarrow>
                       disk_stats_dict (gb total_b) (gb used_b) (gb free_b)
                         (if total_b > 0 then PFloat (rnd (of_nat free_b / of_nat total_b * 100) 1) else PNone)
                         (PFloat (rnd (of_nat bytes_total / 1024 ^ 2) 2)) (PInt (int file_count)))))"

text \<open>\<open>payload.update(...)\<close>, entry by entry.\<close>

definition dict_update :: "(string \<times> pyval) list \<Rightarrow> (string \<times> pyval) list \<Rightarrow> (string \<times> pyval) list" where
  "dict_update d new = foldl (\<lambda>r (k, v). AList.update k v r) d new"

definition health_payload ::
  "(rat \<Rightarrow> nat \<Rightarrow> pyfloat) \<Rightarrow> audit_dir_view \<Rightarrow> audit_state \<Rightarrow> audit_config \<Rightarrow> (string \<times> pyval) list" where
  "health_payload rnd dir st audit_cfg =
     dict_update
       [(''audit_level'', PInt (audit_level audit_cfg)),
        (''audit_directory'', if audit_level audit_cfg > 0 then PStr (audit_directory audit_cfg) else PNone),
        (''max_total_size_mb'', PInt (max_total_size_mb audit_cfg)),
        (''retention_days'', PInt (retention_days audit_cfg)),
        (''per_worker_files'', PBool (per_worker_files audit_cfg)),
        (''payload_prefix_bytes'', PInt (payload_prefix_bytes audit_cfg)),
        (''exclude_paths'', PList (map PStr (exclude_paths audit_cfg))),
        (''queue_size'', PInt (int (get_queue_size st))),
        (''dropped_local'', get_dropped_counts st)]
       (compute_audit_disk_stats rnd dir audit_cfg)"

type_synonym health_cache = "rat \<times> (string \<times> pyval) list option"

definition admin_health_detail ::
  "(rat \<Rightarrow> nat \<Rightarrow> pyfloat) \<Rightarrow> audit_dir_view \<Rightarrow> audit_state \<Rightarrow> rat \<Rightarrow> health_cache \<Rightarrow> client_info
     \<Rightarrow> ('r, pyval \<times> health_cache) act" where
  "admin_health_detail rnd dir st now cache client =
     bnd (require_admin client) (\<lambda>_.
     case cache of
       (ts, Some cached) \<Rightarrow>
         if cached \<noteq> [] \<and> now - ts < HEALTH_DETAIL_TTL
         then ret (PDict (AList.update ''queue_size'' (PInt (int (get_queue_size st))) cached), cache)
         else bnd get_settings (\<lambda>s. let p = health_payload rnd dir st (audit s) in ret (PDict p, (now, Some p)))
     | (ts, None) \<Rightarrow>
         bnd get_settings (\<lambda>s. let p = health_payload rnd dir st (audit s) in ret (PDict p, (now, Some p))))"

section \<open>The origin of a key\<close>

definition origin_missing :: "string \<Rightarrow> string \<Rightarrow> string \<Rightarrow> exc" where
  "origin_missing ns type_prefix key =
     error ''KEY_NOT_FOUND'' (''No audit origin for '' @ ns @ '':'' @ type_prefix @ '':'' @ key @
       '' (correlation disabled or expired)'') 404"

text \<open>\<open>payload[k] = v\<close>, which raises unless \<open>payload\<close> is a dict.\<close>

definition set_item :: "pyval \<Rightarrow> string \<Rightarrow> pyval \<Rightarrow> exc + pyval" where
  "set_item d k v = (case d of PDict kvs \<Rightarrow> Inr (PDict (AList.update k v kvs)) | _ \<Rightarrow> Inl (PyExc ''TypeError''))"

definition decode_origin :: "(string \<Rightarrow> pyfloat option) \<Rightarrow> pyval \<Rightarrow> exc + pyval" where
  "decode_origin pyfl raw = (case raw of
       PStr s \<Rightarrow> (case json_loads pyfl s of Some payload \<Rightarrow> Inr payload | None \<Rightarrow> Inr (PDict [(''raw'', raw)]))
     | _ \<Rightarrow> Inl (PyExc ''TypeError''))"

definition ttl_or_none :: "pyval \<Rightarrow> exc + pyval" where
  "ttl_or_none ttl = (case ttl of PInt n \<Rightarrow> Inr (if n \<ge> 0 then PInt n else PNone) | _ \<Rightarrow> Inl (PyExc ''TypeError''))"

definition admin_audit_origin ::
  "(string \<Rightarrow> pyfloat option) \<Rightarrow> client_info \<Rightarrow> string \<Rightarrow> string \<Rightarrow> string \<Rightarrow> ('r, pyval) act" where
  "admin_audit_origin pyfl client ns type_name key =
     bnd (require_admin client) (\<lambda>_.
     bnd (lift (resolve_type_prefix type_name)) (\<lambda>type_prefix.
     bnd (key_act ns type_prefix key) (\<lambda>redis_key.
     bnd (send (GET (origin_key redis_key))) (\<lambda>raw.
     if raw = PNone then raise (origin_missing ns type_prefix key)
     else
       bnd (lift (decode_origin pyfl raw)) (\<lambda>payload.
       bnd (send (TTL (origin_key redis_key))) (\<lambda>ttl.
       bnd (lift (ttl_or_none ttl)) (\<lambda>ttl_seconds.
       bnd (lift (set_item payload ''ttl_seconds'' ttl_seconds)) (\<lambda>payload1.
       lift (set_item payload1 ''redis_key'' (PStr redis_key))))))))))"

section \<open>Only the administrator\<close>

lemma admin_audit_refused:
  assumes "client_id client \<noteq> ''admin''"
  shows "\<exists>x. fst (admin_health_detail rnd dir st now cache client e w) = Inl x \<and>
      fst (admin_audit_origin pyfl client ns ty key e w) = Inl x \<and> fst (respond (Inl x)) = 403"
    and "sent (snd (admin_health_detail rnd dir st now cache client e w)) = sent w"
    and "sent (snd (admin_audit_origin pyfl client ns ty key e w)) = sent w"
  using assms by (simp_all add: admin_health_detail_def admin_audit_origin_def act_simps require_admin_apply respond_def error_def)

section \<open>The cache\<close>

text \<open>Within the 30 seconds the queue size is the current one and everything else is the cached answer.\<close>

lemma health_cached:
  assumes "client_id client = ''admin''" and "now - ts < HEALTH_DETAIL_TTL" and "cached \<noteq> []"
  shows "admin_health_detail rnd dir st now (ts, Some cached) client e w =
    (Inr (PDict (AList.update ''queue_size'' (PInt (int (get_queue_size st))) cached), (ts, Some cached)), w)"
  using assms by (simp add: admin_health_detail_def act_simps require_admin_apply)

section \<open>The origin is found again\<close>

definition ns_path :: "string \<Rightarrow> string \<Rightarrow> string \<Rightarrow> string" where
  "ns_path ns ty rest = ns_root @ ns @ CHR ''/'' # ty @ CHR ''/'' # rest"

lemma split_ns_path:
  assumes "CHR ''/'' \<notin> set ns" and "CHR ''/'' \<notin> set ty"
  shows "split_on (CHR ''/'') (ns_path ns ty rest) = [[], ''api'', ''v1'', ''ns'', ns, ty] @ split_on (CHR ''/'') rest"
proof -
  have "ns_path ns ty rest = [] @ CHR ''/'' # ''api'' @ CHR ''/'' # ''v1'' @ CHR ''/'' # ''ns'' @ CHR ''/'' # (ns @ CHR ''/'' # ty @ CHR ''/'' # rest)"
    by (simp add: ns_path_def ns_root_def)
  then show ?thesis using assms by (simp only: split_on_sep) (simp add: split_on_sep)
qed

lemma extract_ns_path: "CHR ''/'' \<notin> set ns \<Longrightarrow> ns \<noteq> [] \<Longrightarrow> extract_ns (ns_path ns ty rest) = Some ns"
proof -
  assume a: "CHR ''/'' \<notin> set ns" "ns \<noteq> []"
  have "drop (length ns_root) (ns_path ns ty rest) = ns @ CHR ''/'' # ty @ CHR ''/'' # rest" by (simp add: ns_path_def)
  moreover have "starts_with ns_root (ns_path ns ty rest)" by (simp add: ns_path_def)
  ultimately show ?thesis using a by (simp add: extract_ns_def ns_segment_def cut_append)
qed

lemma route_type_prefix:
  assumes "ty \<in> set route_types"
  shows "CHR ''/'' \<notin> set ty" and "\<exists>p \<in> set STORAGE_PREFIXES. resolve_type_prefix ty = Inr p"
  using assms by (auto simp: route_types_def resolve_type_prefix_def TYPE_PREFIX_MAP_def STORAGE_PREFIXES_def prefix_defs)

text \<open>Storing the origin of a write on documented Redis.\<close>

lemma write_origin_doc:
  assumes "documented_redis (redis e) view" and "connected w"
    and "ns_matches ns" and "key_matches key" and "ty \<in> set route_types"
    and "0 < correlation_ttl_seconds config"
  shows "\<exists>p s w'. resolve_type_prefix ty = Inr p \<and>
    json_dumps (float_text clock) (origin_value rid (scope_client w) (format_iso_ts_now (utc_now clock))) = Inr s \<and>
    write_origin clock config rid (ns_path ns ty rest) ns key e w = (Inr (), w') \<and>
    view (rstate w') (origin_key (join_key ns p key)) = Some (Entry (RStr s) (Some (correlation_ttl_seconds config)))"
proof -
  obtain p where p: "resolve_type_prefix ty = Inr p" using route_type_prefix(2) [OF assms(5)] by blast
  have "list_all (\<lambda>(k, v). scalar v)
      [(''request_id'', PStr rid), (''client_id'', opt_str (scope_client w)), (''ts'', PStr (format_iso_ts_now (utc_now clock)))]" by simp
  from json_dumps_scalars [OF this] obtain s where
    s: "json_dumps (float_text clock) (origin_value rid (scope_client w) (format_iso_ts_now (utc_now clock))) = Inr s"
    unfolding origin_value_def by blast
  let ?c = "SET (origin_key (join_key ns p key)) s (Some (correlation_ttl_seconds config)) False"
  have "covered ?c" by simp
  from send_docE [OF assms(1) this, of w] obtain r where
    r: "send ?c e w = (map_sum RedisExc id (fst (doc_step ?c (view (rstate w)))), w\<lparr>rstate := r, sent := sent w @ [?c]\<rparr>)"
    "view r = snd (doc_step ?c (view (rstate w)))" by blast
  have five: "split_on (CHR ''/'') (ns_path ns ty rest) ! 5 = ty" "6 \<le> length (split_on (CHR ''/'') (ns_path ns ty rest))"
    using split_ns_path [of ns ty rest] ns_no_slash [OF assms(3)] route_type_prefix(1) [OF assms(5)] by simp_all
  have "write_origin clock config rid (ns_path ns ty rest) ns key e w = (Inr (), w\<lparr>rstate := r, sent := sent w @ [?c]\<rparr>)"
    using five p s r assms(2,6)
    by (simp add: key_act_ok assms(3,4) write_origin_def Let_def act_simps get_scope_client_def get_redis_def)
  then show ?thesis using p s r assms(6) by auto
qed

text \<open>
  With \<open>correlation_ttl_seconds\<close> not positive, which the settings allow, Redis refuses the \<open>SET\<close>; the
  middleware ignores the error, so no origin is kept.
\<close>

lemma write_origin_refused:
  assumes "documented_redis (redis e) view" and "connected w"
    and "ns_matches ns" and "key_matches key" and "ty \<in> set route_types"
    and "correlation_ttl_seconds config \<le> 0"
  shows "\<exists>w'. write_origin clock config rid (ns_path ns ty rest) ns key e w = (Inl (RedisExc (invalid_expire ''set'')), w') \<and>
    view (rstate w') = view (rstate w)"
proof -
  obtain p where p: "resolve_type_prefix ty = Inr p" using route_type_prefix(2) [OF assms(5)] by blast
  have "list_all (\<lambda>(k, v). scalar v)
      [(''request_id'', PStr rid), (''client_id'', opt_str (scope_client w)), (''ts'', PStr (format_iso_ts_now (utc_now clock)))]" by simp
  from json_dumps_scalars [OF this] obtain s where
    s: "json_dumps (float_text clock) (origin_value rid (scope_client w) (format_iso_ts_now (utc_now clock))) = Inr s"
    unfolding origin_value_def by blast
  let ?c = "SET (origin_key (join_key ns p key)) s (Some (correlation_ttl_seconds config)) False"
  have "covered ?c" by simp
  from send_docE [OF assms(1) this, of w] obtain r where
    r: "send ?c e w = (map_sum RedisExc id (fst (doc_step ?c (view (rstate w)))), w\<lparr>rstate := r, sent := sent w @ [?c]\<rparr>)"
    "view r = snd (doc_step ?c (view (rstate w)))" by blast
  have five: "split_on (CHR ''/'') (ns_path ns ty rest) ! 5 = ty" "6 \<le> length (split_on (CHR ''/'') (ns_path ns ty rest))"
    using split_ns_path [of ns ty rest] ns_no_slash [OF assms(3)] route_type_prefix(1) [OF assms(5)] by simp_all
  show ?thesis
    using five p s r assms(2,6)
    by (simp add: key_act_ok assms(3,4) write_origin_def Let_def act_simps get_scope_client_def get_redis_def)
qed

lemma audit_origin_doc:
  assumes "documented_redis (redis e) view" and "ns_matches ns" and "key_matches key" and "client_id client = ''admin''"
    and "resolve_type_prefix ty = Inr p"
    and "view (rstate w) (origin_key (join_key ns p key)) = Some (Entry (RStr s) (Some n))" and "0 \<le> n"
    and "json_loads pyfl s = Some (PDict kvs)"
  shows "fst (admin_audit_origin pyfl client ns ty key e w) =
    Inr (PDict (AList.update ''redis_key'' (PStr (join_key ns p key)) (AList.update ''ttl_seconds'' (PInt n) kvs)))"
proof -
  let ?k = "origin_key (join_key ns p key)"
  have c: "covered (GET ?k)" "covered (TTL ?k)" by simp_all
  from send_docE [OF assms(1) c(1), of w] obtain r where
    r: "send (GET ?k) e w = (map_sum RedisExc id (fst (doc_step (GET ?k) (view (rstate w)))), w\<lparr>rstate := r, sent := sent w @ [GET ?k]\<rparr>)"
    "view r = snd (doc_step (GET ?k) (view (rstate w)))" by blast
  let ?w = "w\<lparr>rstate := r, sent := sent w @ [GET ?k]\<rparr>"
  from send_docE [OF assms(1) c(2), of ?w] obtain r' where
    r': "send (TTL ?k) e ?w = (map_sum RedisExc id (fst (doc_step (TTL ?k) (view r))), ?w\<lparr>rstate := r', sent := sent ?w @ [TTL ?k]\<rparr>)"
    by auto
  show ?thesis
    using r r' assms(4-8)
    by (simp add: key_act_ok assms(2,3) admin_audit_origin_def act_simps require_admin_apply decode_origin_def ttl_or_none_def set_item_def)
qed

text \<open>C22: with correlation on and \<open>correlation_ttl_seconds\<close> positive and at most \<open>9999999999\<close> (the
  settings bound it nowhere; Redis refuses what is not positive, see \<open>write_origin_refused\<close>), after a
  captured write that succeeded, the administrator who asks for the origin of the key is answered the request id, the client and the time of that very request, the time it is
  kept, and the stored key.\<close>

theorem origin_roundtrip:
  assumes "documented_redis (redis e) view" and "connected w" and "ns_matches ns" and "key_matches key"
    and "ty \<in> set route_types"
    and "correlation config" and "0 < correlation_ttl_seconds config" and "correlation_ttl_seconds config \<le> 9999999999"
    and "is_write (scope_method scope)" and "scope_path scope = ns_path ns ty rest"
    and "path_key out = Some key" and "status_seen (emitted out) < 400"
    and "client_id client = ''admin''"
    and "finish_capture clock sha config scope rid out e (w, st) = (w1, st1)"
  shows "\<exists>p. resolve_type_prefix ty = Inr p \<and>
    fst (admin_audit_origin pyfl client ns ty key e w1) =
    Inr (PDict [(''request_id'', PStr rid), (''client_id'', opt_str (scope_client w)), (''ts'', PStr (format_iso_ts_now (utc_now clock))),
      (''ttl_seconds'', PInt (correlation_ttl_seconds config)), (''redis_key'', PStr (join_key ns p key))])"
proof -
  let ?kvs = "[(''request_id'', PStr rid), (''client_id'', opt_str (scope_client w)), (''ts'', PStr (format_iso_ts_now (utc_now clock)))]"
  let ?w = "w\<lparr>pending := None\<rparr>"
  have w: "connected ?w" "scope_client ?w = scope_client w" using assms(2) by simp_all
  obtain line where line: "json_dumps (float_text clock) (PDict (capture_record clock sha config scope rid (scope_client w) (pending w)
      (capture_body (received out)) (status_seen (emitted out)))) = Inr line" by (rule capture_record_dumps)
  from write_origin_doc [OF assms(1) w(1) assms(3-5,7), of clock rid rest] obtain p s w' where
    p: "resolve_type_prefix ty = Inr p" and s: "json_dumps (float_text clock) (PDict ?kvs) = Inr s"
    and run: "write_origin clock config rid (ns_path ns ty rest) ns key e ?w = (Inr (), w')"
    and v: "view (rstate w') (origin_key (join_key ns p key)) = Some (Entry (RStr s) (Some (correlation_ttl_seconds config)))"
    unfolding w(2) origin_value_def by blast
  have "key \<noteq> []" using assms(4) by (auto simp: key_matches_def)
  then have "w1 = w'"
    using assms(6,9-12,14) line run ns_no_slash [OF assms(3)] extract_ns_path [of ns ty rest]
    by (simp add: finish_capture_def Let_def ignore_errors_def del: json_dumps.simps)
  moreover have "\<exists>s'. json_dumps (float_text clock) (PDict ?kvs) = Inr s' \<and> json_loads pyfl s' = Some (PDict ?kvs)"
    by (rule json_roundtrip_flat) (auto simp: flat_value_def opt_str_def split: option.splits)
  ultimately show ?thesis
    using audit_origin_doc [OF assms(1,3,4,13) p v] assms(7) s p by simp
qed

theorem origin_roundtrip_witness:
  "let config = (audit default_settings)\<lparr>correlation := True, correlation_ttl_seconds := 60\<rparr>;
       scope = \<lparr>scope_http = True, scope_path = ''/api/v1/ns/A/kv/k'', scope_method = ''PUT'', scope_headers = [], scope_peer = None\<rparr>;
       out = \<lparr>received = [], emitted = [ResponseStart 200 []], failure = None, path_key = Some ''k''\<rparr>;
       clock = \<lparr>fresh_uuid = ''u'', utc_now = sample_time, elapsed_ms = NaN, float_text = (\<lambda>_. ''0.0'')\<rparr>;
       w1 = fst (finish_capture clock id config scope ''id'' out sample_env (sample_world Map.empty, audit_off))
   in fst (admin_audit_origin (\<lambda>_. None) admin_client ''A'' ''kv'' ''k'' sample_env w1) =
     Inr (PDict [(''request_id'', PStr ''id''), (''client_id'', PNone), (''ts'', PStr (format_iso_ts_now sample_time)),
       (''ttl_seconds'', PInt 60), (''redis_key'', PStr ''A:kv:k'')])"
proof -
  let ?config = "(audit default_settings)\<lparr>correlation := True, correlation_ttl_seconds := 60\<rparr>"
  let ?scope = "\<lparr>scope_http = True, scope_path = ''/api/v1/ns/A/kv/k'', scope_method = ''PUT'', scope_headers = [], scope_peer = None\<rparr>"
  let ?out = "\<lparr>received = [], emitted = [ResponseStart 200 []], failure = None, path_key = Some ''k''\<rparr>"
  let ?clock = "\<lparr>fresh_uuid = ''u'', utc_now = sample_time, elapsed_ms = NaN, float_text = (\<lambda>_. ''0.0'')\<rparr>"
  obtain w1 st1 where run: "finish_capture ?clock id ?config ?scope ''id'' ?out sample_env (sample_world Map.empty, audit_off) = (w1, st1)"
    by fastforce
  have "connected (sample_world Map.empty)" "scope_client (sample_world Map.empty) = None" by (simp_all add: sample_world_def)
  moreover have "''kv'' \<in> set route_types" "is_write (scope_method ?scope)" "scope_path ?scope = ns_path ''A'' ''kv'' ''k''"
    "status_seen (emitted ?out) < 400" "client_id admin_client = ''admin''" "correlation ?config"
    "0 < correlation_ttl_seconds ?config" "correlation_ttl_seconds ?config \<le> 9999999999" "path_key ?out = Some ''k''"
    by (simp_all add: route_types_def is_write_def ns_path_def ns_root_def status_seen_def admin_client_def)
  moreover have "resolve_type_prefix ''kv'' = Inr ''kv''" by code_simp
  ultimately show ?thesis
    using origin_roundtrip [OF sample_doc _ sample_ns sample_key(1) _ _ _ _ _ _ _ _ _ run, of "''kv''" "''k''" admin_client "\<lambda>_. None"] run
    by (simp add: opt_str_def join_key_def)
qed

end
