(* ===== verification/ConfigValidator.thy ===== *)
theory ConfigValidator
  imports Config
begin

text \<open>
  \<open>app/config_validator.py\<close>: the report on the settings that the first worker logs at start-up. The
  Korean hints are named by a datatype; the text \<open>{invalid}\<close> of a list is a parameter, as is what
  \<open>get_settings\<close> gives (\<open>None\<close> when it raises).
\<close>

section \<open>The report\<close>

datatype severity = FATAL | ERROR | WARNING | INFO

datatype hint =
    NoHint
  | UniqueKeys
  | SetAdminKey
  | AddClients
  | SetClientKey string
  | RedisUrlForm
  | PortRange
  | AllowedPermissions
  | PositiveTtl
  | ValueSizeRange
  | LogLevels
  | ExplicitOrigins

record config_issue =
  issue_severity :: severity
  issue_source :: string
  issue_message :: string
  issue_hint :: hint

type_synonym report = "config_issue list"

definition has_fatal :: "report \<Rightarrow> bool" where
  "has_fatal r \<longleftrightarrow> list_ex (\<lambda>i. issue_severity i = FATAL) r"

definition summary :: "report \<Rightarrow> severity \<Rightarrow> nat" where
  "summary r sev = foldl (\<lambda>c i. c(issue_severity i := c (issue_severity i) + 1)) (\<lambda>_. 0) r sev"

definition add_issue :: "severity \<Rightarrow> string \<Rightarrow> string \<Rightarrow> hint \<Rightarrow> report \<Rightarrow> report" where
  "add_issue sev src message h r =
     r @ [\<lparr>issue_severity = sev, issue_source = src, issue_message = message, issue_hint = h\<rparr>]"

section \<open>The checks\<close>

definition config_source :: string where
  "config_source = ''config.yaml''"

text \<open>\<open>seen\<close> and \<open>duplicates\<close> are sets here; every key is added to \<open>seen\<close>.\<close>

definition duplicate_step :: "string list \<times> string list \<Rightarrow> string \<Rightarrow> string list \<times> string list" where
  "duplicate_step st k = (case st of (seen, duplicates) \<Rightarrow>
     (List.insert k seen, if k \<in> set seen then List.insert k duplicates else duplicates))"

definition duplicate_keys :: "string list \<Rightarrow> string list" where
  "duplicate_keys api_keys = snd (foldl duplicate_step ([], []) api_keys)"

definition check_placeholder :: "report \<Rightarrow> string \<times> client_config \<Rightarrow> report" where
  "check_placeholder r entry = (case entry of (cid, cfg) \<Rightarrow>
     if looks_placeholder (client_api_key cfg)
     then add_issue WARNING config_source (''Client '' @ quoted cid @ '' API key looks like a placeholder'') (SetClientKey cid) r
     else r)"

definition check_permissions :: "(string list \<Rightarrow> string) \<Rightarrow> string \<Rightarrow> report \<Rightarrow> string \<times> string list \<Rightarrow> report" where
  "check_permissions show_list cid r entry = (case entry of (ns, perms) \<Rightarrow>
     let invalid = filter (\<lambda>p. p \<notin> {''read'', ''write''}) perms in
     if invalid \<noteq> []
     then add_issue ERROR config_source (''Client '' @ quoted cid @ '' namespace '' @ quoted ns @
            '' has invalid permissions: '' @ show_list invalid) AllowedPermissions r
     else r)"

definition check_client_permissions :: "(string list \<Rightarrow> string) \<Rightarrow> report \<Rightarrow> string \<times> client_config \<Rightarrow> report" where
  "check_client_permissions show_list r entry = (case entry of (cid, cfg) \<Rightarrow>
     foldl (check_permissions show_list cid) r (client_namespaces cfg))"

definition valid_levels :: "string list" where
  "valid_levels = [''DEBUG'', ''INFO'', ''WARNING'', ''ERROR'', ''CRITICAL'']"

definition add_if :: "bool \<Rightarrow> severity \<Rightarrow> string \<Rightarrow> hint \<Rightarrow> report \<Rightarrow> report" where
  "add_if b sev message h r = (if b then add_issue sev config_source message h r else r)"

definition validate_main_config :: "(string list \<Rightarrow> string) \<Rightarrow> settings \<Rightarrow> report \<Rightarrow> report" where
  "validate_main_config show_list s r =
     (let api_keys = map (client_api_key \<circ> snd) (clients s) @
            (if admin_api_key (admin s) \<noteq> [] then [admin_api_key (admin s)] else []);
          r1 = add_if (duplicate_keys api_keys \<noteq> []) FATAL ''Duplicate API keys detected'' UniqueKeys r;
          r2 = add_if (admin_api_key (admin s) = []) WARNING ''admin.api_key is empty'' SetAdminKey r1;
          r3 = add_if (clients s = []) WARNING ''No clients defined'' AddClients r2;
          r4 = foldl check_placeholder r3 (clients s);
          r5 = add_if (\<not> starts_with ''redis://'' (redis_url (redis_cfg s))) ERROR
                 (''Invalid Redis URL: '' @ redis_url (redis_cfg s)) RedisUrlForm r4;
          port = server_port (server s);
          r6 = add_if (\<not> (1 \<le> port \<and> port \<le> 65535)) WARNING (''Server port '' @ int_str port @ '' out of range'') PortRange r5;
          r7 = foldl (check_client_permissions show_list) r6 (clients s);
          ttl = default_ttl (defaults s);
          r8 = add_if (ttl \<le> 0) WARNING (''Default TTL ('' @ int_str ttl @ '') is not positive'') PositiveTtl r7;
          mvs = max_value_size (defaults s);
          r9 = add_if (mvs < 1 \<or> mvs > 10485760) WARNING
                 (''max_value_size ('' @ int_str mvs @ '') outside recommended range'') ValueSizeRange r8;
          r10 = add_if (upper (log_level (logging s)) \<notin> set valid_levels) WARNING
                 (''Invalid log level: '' @ log_level (logging s)) LogLevels r9
      in add_if (''*'' \<in> set (cors_origins (server s))) WARNING
           (''cors_origins contains '' @ quoted ''*'' @ '' while CORS runs with allow_credentials=True'') ExplicitOrigins r10)"

text \<open>\<open>except Exception\<close> lets a \<open>SystemExit\<close> through.\<close>

definition load_settings_safe :: "exc + settings \<Rightarrow> settings option \<Rightarrow> exc + settings option" where
  "load_settings_safe loads cached = (case fst (get_settings_cached loads cached) of
       Inr s \<Rightarrow> Inr (Some s)
     | Inl x \<Rightarrow> if x = sys_exit then Inl x else Inr None)"

definition validate_all_configs :: "(string list \<Rightarrow> string) \<Rightarrow> settings option \<Rightarrow> report" where
  "validate_all_configs show_list loaded = (case loaded of
       Some s \<Rightarrow> validate_main_config show_list s []
     | None \<Rightarrow> add_issue ERROR config_source ''Failed to load config.yaml'' NoHint [])"

section \<open>The log of the report\<close>

definition mask_api_key :: "string \<Rightarrow> string" where
  "mask_api_key key =
     (if key = [] \<or> char_count key \<le> 14 then ''****''
      else char_take 10 key @ ''****'' @ concat (drop (char_count key - 4) (utf8_chars key)))"

text \<open>A line of the report: the tag is always \<open>CONFIG\<close>, then the level and the text.\<close>

type_synonym report_line = "string \<times> string"

primrec severity_value :: "severity \<Rightarrow> string" where
  "severity_value FATAL = ''FATAL''"
| "severity_value ERROR = ''ERROR''"
| "severity_value WARNING = ''WARNING''"
| "severity_value INFO = ''INFO''"

primrec severity_level :: "severity \<Rightarrow> string" where
  "severity_level FATAL = ''F''"
| "severity_level ERROR = ''E''"
| "severity_level WARNING = ''W''"
| "severity_level INFO = ''I''"

definition issue_lines :: "(hint \<Rightarrow> string) \<Rightarrow> config_issue \<Rightarrow> report_line list" where
  "issue_lines hint_text i =
     (let lvl = severity_level (issue_severity i);
          msg = ''['' @ severity_value (issue_severity i) @ ''] '' @ issue_source i @ '': '' @ issue_message i
      in (lvl, msg) # (if issue_hint i \<noteq> NoHint then [(lvl, ''  -> '' @ hint_text (issue_hint i))] else []))"

definition client_line :: "string \<times> client_config \<Rightarrow> report_line" where
  "client_line entry = (case entry of (cid, cfg) \<Rightarrow>
     (''I'', ''  - '' @ cid @ '': key='' @ mask_api_key (client_api_key cfg) @
       (if client_description cfg \<noteq> [] then '' ('' @ client_description cfg @ '')'' else [])))"

definition settings_lines :: "settings \<Rightarrow> report_line list" where
  "settings_lines s =
     (''I'', ''config.yaml          : '' @ int_str (int (length (clients s))) @ '' clients, admin key '' @
        (if admin_api_key (admin s) \<noteq> [] then ''set'' else ''NOT SET'')) # map client_line (clients s)"

definition rule_line :: "char \<Rightarrow> report_line" where
  "rule_line c = (''I'', replicate 60 c)"

definition log_validation_report :: "(hint \<Rightarrow> string) \<Rightarrow> settings option \<Rightarrow> report \<Rightarrow> report_line list" where
  "log_validation_report hint_text loaded r =
     [rule_line CHR ''='', (''I'', ''  RedGW Configuration Validation Report''), rule_line CHR ''=''] @
     (case loaded of Some s \<Rightarrow> settings_lines s | None \<Rightarrow> []) @
     [rule_line CHR ''-'',
      (''I'', ''Summary: '' @ nat_str (summary r FATAL) @ '' FATAL, '' @ nat_str (summary r ERROR) @ '' ERROR, '' @
         nat_str (summary r WARNING) @ '' WARNING, '' @ nat_str (summary r INFO) @ '' INFO'')] @
     concat (map (issue_lines hint_text) r) @ [rule_line CHR ''='']"

section \<open>Which severities appear\<close>

lemma issues_add_issue [simp]: "has_fatal (add_issue sev src m h r) \<longleftrightarrow> sev = FATAL \<or> has_fatal r"
  by (auto simp: has_fatal_def add_issue_def)

lemma has_fatal_add_if [simp]: "has_fatal (add_if b sev m h r) \<longleftrightarrow> (b \<and> sev = FATAL) \<or> has_fatal r"
  by (simp add: add_if_def)

lemma has_fatal_foldl: "(\<And>r x. has_fatal (f r x) \<longleftrightarrow> has_fatal r) \<Longrightarrow> has_fatal (foldl f r xs) \<longleftrightarrow> has_fatal r"
  by (induction xs arbitrary: r) simp_all

lemma has_fatal_check_step [simp]:
  "has_fatal (check_placeholder r c) \<longleftrightarrow> has_fatal r"
  "has_fatal (check_permissions show_list cid r e) \<longleftrightarrow> has_fatal r"
  by (simp_all add: check_placeholder_def check_permissions_def Let_def split: prod.splits)

lemma has_fatal_checks [simp]:
  "has_fatal (foldl check_placeholder r cs) \<longleftrightarrow> has_fatal r"
  "has_fatal (foldl (check_client_permissions show_list) r cs) \<longleftrightarrow> has_fatal r"
  by (simp_all add: has_fatal_foldl check_client_permissions_def split: prod.splits)

lemma duplicate_keys_run:
  "snd (foldl duplicate_step (seen, dups) ks) = [] \<longleftrightarrow> dups = [] \<and> distinct ks \<and> set seen \<inter> set ks = {}"
proof (induction ks arbitrary: seen dups)
  case (Cons k ks)
  then show ?case by (auto simp: duplicate_step_def List.insert_def)
qed simp

lemma duplicate_keys_Nil: "duplicate_keys ks = [] \<longleftrightarrow> distinct ks"
  by (simp add: duplicate_keys_def duplicate_keys_run)

text \<open>The counts of the summary are the issues of each severity, so that they add up to all of them.\<close>

lemma summary_count: "summary r sev = length (filter (\<lambda>i. issue_severity i = sev) r)"
proof -
  have "foldl (\<lambda>c i. c(issue_severity i := c (issue_severity i) + 1)) c r sev = c sev + length (filter (\<lambda>i. issue_severity i = sev) r)" for c :: "severity \<Rightarrow> nat"
    by (induction r arbitrary: c) auto
  then show ?thesis by (simp add: summary_def)
qed

lemma summary_total: "summary r FATAL + summary r ERROR + summary r WARNING + summary r INFO = length r"
proof (induction r)
  case (Cons i r)
  then show ?case by (cases "issue_severity i") (simp_all add: summary_count)
qed (simp add: summary_count)

lemma fatal_iff_duplicates: "has_fatal (validate_all_configs show_list (Some s)) \<longleftrightarrow> \<not> distinct (configured_keys s)"
  by (simp add: validate_all_configs_def validate_main_config_def Let_def duplicate_keys_Nil configured_keys_def has_fatal_def [of "[]"])

text \<open>At a start the settings have been loaded before, so the report is on them.\<close>

lemma report_on_loaded:
  assumes "get_settings_cached loads cached = (Inr s, cached')"
  shows "load_settings_safe other cached' = Inr (Some s)"
  using settings_cached(2) [OF assms] by (simp add: load_settings_safe_def)

text \<open>C30: the two start-up checks agree: the report has a fatal issue exactly for the settings
  \<open>validate_config\<close> refuses, namely those with an API key given twice.\<close>

theorem report_fatal_iff_refused:
  "has_fatal (validate_all_configs show_list (Some s)) \<longleftrightarrow> validate_config env s = Inl sys_exit"
proof -
  have "has_fatal (validate_all_configs show_list (Some s)) \<longleftrightarrow> \<not> distinct (configured_keys s)"
    by (rule fatal_iff_duplicates)
  also have "\<dots> \<longleftrightarrow> validate_config env s = Inl sys_exit"
    by (simp add: validate_config_def Let_def find_duplicates_Nil)
  finally show ?thesis .
qed

section \<open>Permissions\<close>

text \<open>Nothing is said of the permissions exactly when every one is \<open>read\<close> or \<open>write\<close>.\<close>

lemma permissions_reported:
  "foldl (check_permissions show_list cid) r nss = r \<longleftrightarrow> list_all (\<lambda>(ns, perms). set perms \<subseteq> {''read'', ''write''}) nss"
proof (induction nss arbitrary: r)
  case (Cons e nss)
  have longer: "length r \<le> length (foldl (check_permissions show_list cid) r xs)" for r xs
  proof (induction xs arbitrary: r)
    case (Cons x xs)
    have "length r \<le> length (check_permissions show_list cid r x)"
      by (auto simp: check_permissions_def add_issue_def Let_def split: prod.splits)
    with Cons [of "check_permissions show_list cid r x"] show ?case by simp
  qed simp
  obtain ns perms where e: "e = (ns, perms)" by (cases e)
  show ?case
  proof (cases "set perms \<subseteq> {''read'', ''write''}")
    case True
    then have "filter (\<lambda>p. p \<notin> {''read'', ''write''}) perms = []" by (auto simp: filter_empty_conv)
    then show ?thesis using Cons True by (simp add: e check_permissions_def)
  next
    case False
    then have "filter (\<lambda>p. p \<notin> {''read'', ''write''}) perms \<noteq> []" by (auto simp: filter_empty_conv)
    then have "length (check_permissions show_list cid r e) = length r + 1"
      by (simp add: e check_permissions_def add_issue_def)
    with longer [of "check_permissions show_list cid r e" nss] False show ?thesis by (auto simp: e)
  qed
qed simp

section \<open>Masking\<close>

text \<open>A key of fifteen characters is shown but for one.\<close>

lemma mask_shows: "mask_api_key ''abcdefghijXklmn'' = ''abcdefghij****klmn''"
  by code_simp

end
