(* ===== verification/RedisManager.thy ===== *)
theory RedisManager
  imports Config
begin

text \<open>
  \<open>app/redis_client.py\<close>: the manager of the connection pool. What redis-py does with one attempt to
  connect is a parameter of it (building the client, the ping, closing it again); clients are
  numbered by the attempt that made them. The theory follows which of them are open.
\<close>

section \<open>State\<close>

datatype ping_result = PingTrue | PingFalse | PingRaises

record attempt =
  builds :: bool
  pinged :: ping_result
  first_close_ok :: bool
  second_close_ok :: bool

record manager =
  pool_client :: "nat option"
  open_clients :: "nat list"
  tried :: nat
  slept :: nat

definition new_manager :: manager where
  "new_manager = \<lparr>pool_client = None, open_clients = [], tried = 0, slept = 0\<rparr>"

section \<open>Connecting\<close>

definition close_client :: "nat \<Rightarrow> bool \<Rightarrow> manager \<Rightarrow> manager" where
  "close_client c works m = (if works then m\<lparr>open_clients := removeAll c (open_clients m)\<rparr> else m)"

definition sleep_between :: "nat \<Rightarrow> nat \<Rightarrow> manager \<Rightarrow> manager" where
  "sleep_between i max_retries m = (if i < max_retries then m\<lparr>slept := slept m + 1\<rparr> else m)"

text \<open>
  One turn of the loop: whether it returns. When the ping answers \<open>False\<close> the client is closed and the
  next attempt follows without a pause; closing it may raise, which is an attempt that failed.
\<close>

definition try_connect :: "nat \<Rightarrow> nat \<Rightarrow> attempt \<Rightarrow> manager \<Rightarrow> bool \<times> manager" where
  "try_connect max_retries i a m =
     (let m1 = m\<lparr>tried := tried m + 1\<rparr> in
      if \<not> builds a then (False, sleep_between i max_retries m1)
      else
        (let m2 = m1\<lparr>open_clients := open_clients m1 @ [i]\<rparr> in
         case pinged a of
           PingTrue \<Rightarrow> (True, m2\<lparr>pool_client := Some i\<rparr>)
         | PingFalse \<Rightarrow>
             if first_close_ok a then (False, close_client i True m2)
             else (False, sleep_between i max_retries (close_client i (second_close_ok a) m2))
         | PingRaises \<Rightarrow> (False, sleep_between i max_retries (close_client i (second_close_ok a) m2))))"

function connect_from :: "nat \<Rightarrow> nat \<Rightarrow> (nat \<Rightarrow> attempt) \<Rightarrow> manager \<Rightarrow> bool \<times> manager" where
  "connect_from max_retries i world m =
     (if i > max_retries then (False, m)
      else case try_connect max_retries i (world i) m of
             (True, m') \<Rightarrow> (True, m')
           | (False, m') \<Rightarrow> connect_from max_retries (i + 1) world m')"
  by pat_completeness auto
termination by (relation "measure (\<lambda>(n, i, world, m). Suc n - i)") auto

declare connect_from.simps [simp del]

definition connect :: "nat \<Rightarrow> (nat \<Rightarrow> attempt) \<Rightarrow> manager \<Rightarrow> bool \<times> manager" where
  "connect max_retries world m = connect_from max_retries 1 world m"

section \<open>The other operations\<close>

text \<open>\<open>disconnect\<close>: the \<open>finally\<close> forgets the client even when closing it raises.\<close>

definition disconnect :: "exc option \<Rightarrow> manager \<Rightarrow> (exc + unit) \<times> manager" where
  "disconnect close_error m = (case pool_client m of
       None \<Rightarrow> (Inr (), m)
     | Some c \<Rightarrow> (case close_error of
           None \<Rightarrow> (Inr (), (close_client c True m)\<lparr>pool_client := None\<rparr>)
         | Some x \<Rightarrow> (Inl x, m\<lparr>pool_client := None\<rparr>)))"

definition ping :: "ping_result \<Rightarrow> manager \<Rightarrow> bool" where
  "ping answer m = (case pool_client m of None \<Rightarrow> False | Some c \<Rightarrow> answer = PingTrue)"

definition get_client :: "manager \<Rightarrow> exc + nat" where
  "get_client m = (case pool_client m of None \<Rightarrow> Inl (PyExc ''RuntimeError'') | Some c \<Rightarrow> Inr c)"

definition get_redis_manager :: "manager option \<Rightarrow> exc + manager" where
  "get_redis_manager singleton = (case singleton of None \<Rightarrow> Inl (PyExc ''RuntimeError'') | Some m \<Rightarrow> Inr m)"

definition init_redis_manager :: "manager option" where
  "init_redis_manager = Some new_manager"

section \<open>The retry loop\<close>

text \<open>An attempt succeeds; closing a client works at the first or the second try.\<close>

definition succeeds :: "attempt \<Rightarrow> bool" where
  "succeeds a \<longleftrightarrow> builds a \<and> pinged a = PingTrue"

definition closes :: "attempt \<Rightarrow> bool" where
  "closes a \<longleftrightarrow> second_close_ok a"

lemma try_connect_result:
  "fst (try_connect n i a m) \<longleftrightarrow> succeeds a"
  by (auto simp: try_connect_def succeeds_def Let_def split: ping_result.splits)

lemma try_connect_tried: "tried (snd (try_connect n i a m)) = tried m + 1"
  by (auto simp: try_connect_def Let_def sleep_between_def close_client_def split: ping_result.splits)

lemma try_connect_success:
  "succeeds a \<Longrightarrow> try_connect n i a m = (True, m\<lparr>tried := tried m + 1, open_clients := open_clients m @ [i], pool_client := Some i\<rparr>)"
  by (simp add: try_connect_def succeeds_def Let_def)

lemma try_connect_failure:
  assumes "\<not> succeeds a" and "closes a" and "i \<notin> set (open_clients m)"
  shows "open_clients (snd (try_connect n i a m)) = open_clients m" and "pool_client (snd (try_connect n i a m)) = pool_client m"
  using assms by (auto simp: try_connect_def succeeds_def closes_def Let_def sleep_between_def close_client_def split: ping_result.splits)

definition first_success :: "nat \<Rightarrow> nat \<Rightarrow> (nat \<Rightarrow> attempt) \<Rightarrow> nat option" where
  "first_success i n world = List.find (\<lambda>j. succeeds (world j)) [i..<Suc n]"

lemma first_success_step:
  "first_success i n world = (if i > n then None else if succeeds (world i) then Some i else first_success (Suc i) n world)"
  by (simp add: first_success_def upt_rec [of i "Suc n"] del: upt_Suc)

lemma first_success_None: "first_success i n world = None \<longleftrightarrow> (\<forall>j. i \<le> j \<and> j \<le> n \<longrightarrow> \<not> succeeds (world j))"
  by (auto simp: first_success_def find_None_iff simp del: upt_Suc)

lemma first_success_Some:
  assumes "first_success i n world = Some j"
  shows "i \<le> j \<and> j \<le> n \<and> succeeds (world j) \<and> (\<forall>k. i \<le> k \<and> k < j \<longrightarrow> \<not> succeeds (world k))"
proof -
  obtain d where d: "d < Suc n - i" "succeeds (world (i + d))" "j = i + d" "\<forall>c < d. \<not> succeeds (world (i + c))"
    using assms by (auto simp: first_success_def find_Some_iff simp del: upt_Suc)
  have "\<not> succeeds (world k)" if "i \<le> k" "k < j" for k
  proof -
    have "k - i < d" "k = i + (k - i)" using that d(3) by simp_all
    then show ?thesis using d(4) by metis
  qed
  with d show ?thesis by simp
qed

lemma connect_from_spec:
  assumes "open_clients m = []" and "pool_client m = None" and "\<forall>j. closes (world j)"
  shows "\<exists>m'. connect_from n i world m = (first_success i n world \<noteq> None, m') \<and>
    pool_client m' = first_success i n world \<and>
    open_clients m' = (case first_success i n world of None \<Rightarrow> [] | Some j \<Rightarrow> [j]) \<and>
    tried m' = tried m + (case first_success i n world of None \<Rightarrow> Suc n - i | Some j \<Rightarrow> Suc j - i)"
  using assms
proof (induction n i world m rule: connect_from.induct)
  case (1 n i world m)
  show ?case
  proof (cases "i > n")
    case True
    with 1 show ?thesis by (simp add: connect_from.simps [of n i] first_success_step [of i])
  next
    case False
    show ?thesis
    proof (cases "succeeds (world i)")
      case True
      with False 1 show ?thesis
        by (simp add: connect_from.simps [of n i] first_success_step [of i] try_connect_success)
    next
      case no: False
      obtain m1 where t: "try_connect n i (world i) m = (False, m1)"
        using try_connect_result [of n i "world i" m] no by (metis prod.collapse)
      have m1: "open_clients m1 = []" "pool_client m1 = None" "tried m1 = tried m + 1"
        using try_connect_failure [OF no, of i m n] try_connect_tried [of n i "world i" m] t 1(2-4) by simp_all
      have le: "Suc i \<le> j" if "first_success (Suc i) n world = Some j" for j
        using first_success_Some [OF that] by simp
      from "1.IH" [OF False t [symmetric] refl m1(1,2) 1(4)] show ?thesis
        using False no t m1(3) le
        by (auto simp: connect_from.simps [of n i] first_success_step [of i] Suc_diff_le split: option.splits)
    qed
  qed
qed

lemma connect_result:
  assumes "\<forall>j. closes (world j)"
  shows "\<exists>r m'. connect max_retries world new_manager = (r, m') \<and> tried m' \<le> max_retries \<and>
    (r \<longleftrightarrow> (\<exists>j. 1 \<le> j \<and> j \<le> max_retries \<and> succeeds (world j))) \<and>
    (r \<longrightarrow> (\<exists>j. pool_client m' = Some j \<and> open_clients m' = [j] \<and> tried m' = j \<and> succeeds (world j) \<and>
      (\<forall>i. 1 \<le> i \<and> i < j \<longrightarrow> \<not> succeeds (world i)))) \<and>
    (\<not> r \<longrightarrow> pool_client m' = None \<and> open_clients m' = [] \<and> tried m' = max_retries)"
proof -
  have n: "open_clients new_manager = []" "pool_client new_manager = None" "tried new_manager = 0"
    by (simp_all add: new_manager_def)
  from connect_from_spec [OF n(1,2) assms, of max_retries 1] obtain m' where
    m': "connect max_retries world new_manager = (first_success 1 max_retries world \<noteq> None, m')"
      "pool_client m' = first_success 1 max_retries world"
      "open_clients m' = (case first_success 1 max_retries world of None \<Rightarrow> [] | Some j \<Rightarrow> [j])"
      "tried m' = (case first_success 1 max_retries world of None \<Rightarrow> max_retries | Some j \<Rightarrow> j)"
    by (auto simp: connect_def n(3) split: option.splits)
  show ?thesis
  proof (cases "first_success 1 max_retries world")
    case None
    then have "\<not> (\<exists>j. 1 \<le> j \<and> j \<le> max_retries \<and> succeeds (world j))"
      by (simp add: first_success_None)
    with None m' show ?thesis by simp
  next
    case (Some j)
    from first_success_Some [OF this] have "1 \<le> j" "j \<le> max_retries" "succeeds (world j)"
      "\<forall>i. 1 \<le> i \<and> i < j \<longrightarrow> \<not> succeeds (world i)" by simp_all
    with Some m' show ?thesis by auto
  qed
qed

text \<open>C29: connecting always ends, after at most the allowed number of attempts; it reports success exactly when
  one of them succeeds, stops at the first that does and keeps that client; and every other client it
  made has been closed, so that a gateway that starts without Redis leaks no connection.\<close>

theorem connect_terminates:
  assumes "\<forall>j. closes (world j)"
  shows "\<exists>r m'. connect max_retries world new_manager = (r, m') \<and> tried m' \<le> max_retries \<and>
    (r \<longleftrightarrow> (\<exists>j. 1 \<le> j \<and> j \<le> max_retries \<and> succeeds (world j))) \<and>
    (r \<longrightarrow> (\<exists>j. pool_client m' = Some j \<and> open_clients m' = [j] \<and> tried m' = j \<and> succeeds (world j) \<and>
      (\<forall>i. 1 \<le> i \<and> i < j \<longrightarrow> \<not> succeeds (world i)))) \<and>
    (\<not> r \<longrightarrow> pool_client m' = None \<and> open_clients m' = [] \<and> tried m' = max_retries)"
  using assms by (rule connect_result)

theorem connect_terminates_witness:
  "let world = (\<lambda>i. \<lparr>builds = True, pinged = (if i = 2 then PingTrue else PingRaises), first_close_ok = True, second_close_ok = True\<rparr>)
   in \<exists>m'. connect 3 world new_manager = (True, m') \<and> pool_client m' = Some 2 \<and> open_clients m' = [2] \<and> tried m' = 2"
proof -
  let ?world = "\<lambda>i :: nat. \<lparr>builds = True, pinged = (if i = 2 then PingTrue else PingRaises), first_close_ok = True, second_close_ok = True\<rparr>"
  have s: "succeeds (?world j) \<longleftrightarrow> j = 2" for j by (simp add: succeeds_def)
  have "\<forall>j. closes (?world j)" by (simp add: closes_def)
  from connect_terminates [OF this, of 3] obtain r m' where
    c: "connect 3 ?world new_manager = (r, m')" "r \<longleftrightarrow> (\<exists>j :: nat. 1 \<le> j \<and> j \<le> 3 \<and> j = 2)"
      "r \<longrightarrow> (\<exists>j. pool_client m' = Some j \<and> open_clients m' = [j] \<and> tried m' = j \<and> j = 2)"
    unfolding s by blast
  from c(2) have r: "r" by simp
  with c(3) have "pool_client m' = Some 2 \<and> open_clients m' = [2] \<and> tried m' = 2" by auto
  with c(1) r show ?thesis by (simp add: Let_def)
qed

end
