(* ===== verification/LogFiles.thy ===== *)
theory LogFiles
  imports PyValues
begin

text \<open>
  \<open>app/utils/file_logger.py\<close>, \<open>DailySizeRotatingHandler\<close>: one log file per day, rotated by size, with
  numbered backups that a background thread compresses, a retention in days and a bound on the
  size of the directory. The directory is the list of its files in the order \<open>iterdir\<close> gives
  them; what the operating system adds (the clock, gzip, the names it refuses to delete, stat, compress,
  rename or open) is the environment of each operation. An operation of the rotation that can raise
  gives the exception beside the state it leaves. Listing the directory and writing to an open file
  are taken not to fail, nor is anything in \<open>__init__\<close>. A file knows the processes whose stream is open on
  it: a rename does not change them, and what is written to a file that has lost its name is gone.
\<close>

section \<open>Files\<close>

record logfile =
  content :: string
  mtime :: rat
  writers :: "nat list"

type_synonym dir = "(string \<times> logfile) list"

text \<open>
  \<open>stamp\<close> is what \<open>_format_ts_cached\<close> returns in \<open>shouldRollover\<close> and \<open>stamp_later\<close> what it returns in the
  \<open>doRollover\<close> that follows, \<open>file_clock\<close> the time given to a file that is written, \<open>cutoff\<close> the date
  \<open>retention_days\<close> ago.
\<close>

record log_env =
  stamp :: string
  stamp_later :: string
  file_clock :: rat
  cutoff :: string
  gzip :: "string \<Rightarrow> string"
  no_unlink :: "string \<Rightarrow> bool"
  no_stat :: "string \<Rightarrow> bool"
  no_gzip :: "string \<Rightarrow> bool"
  no_rename :: "string \<Rightarrow> bool"
  no_open :: "string \<Rightarrow> bool"

record log_handler =
  process :: nat
  name_prefix :: string
  max_bytes :: int
  backup_count :: int
  compress :: bool
  max_total_bytes :: int
  current_date :: string
  base_name :: string
  current_bytes :: int
  stream_open :: bool
  files :: dir
  jobs :: "string list"
  disk_full :: nat

definition file_exists :: "string \<Rightarrow> dir \<Rightarrow> bool" where
  "file_exists n d \<longleftrightarrow> map_of d n \<noteq> None"

definition unlink :: "string \<Rightarrow> dir \<Rightarrow> dir" where
  "unlink n d = AList.delete n d"

definition rename :: "string \<Rightarrow> string \<Rightarrow> dir \<Rightarrow> dir" where
  "rename a b d = (case map_of d a of None \<Rightarrow> d | Some f \<Rightarrow> AList.update b f (AList.delete a d))"

text \<open>
  The stream of process \<open>p\<close>: \<open>open(mode="a")\<close> makes an empty file if there is none; writing goes to the
  file the stream is open on, whatever its name is now; and closing.
\<close>

definition open_append :: "nat \<Rightarrow> rat \<Rightarrow> string \<Rightarrow> dir \<Rightarrow> dir" where
  "open_append p now n d = AList.update n
     (case map_of d n of
        None \<Rightarrow> \<lparr>content = [], mtime = now, writers = [p]\<rparr>
      | Some f \<Rightarrow> f\<lparr>writers := List.insert p (writers f)\<rparr>) d"

definition write_to :: "nat \<Rightarrow> rat \<Rightarrow> string \<Rightarrow> dir \<Rightarrow> dir" where
  "write_to p now s d =
     map (\<lambda>(n, f). (n, if p \<in> set (writers f) then f\<lparr>content := content f @ s, mtime := now\<rparr> else f)) d"

definition close_stream :: "nat \<Rightarrow> dir \<Rightarrow> dir" where
  "close_stream p d = map (\<lambda>(n, f). (n, f\<lparr>writers := removeAll p (writers f)\<rparr>)) d"

section \<open>Names\<close>

definition log_path :: "string \<Rightarrow> string \<Rightarrow> string" where
  "log_path prefix_str d = prefix_str @ CHR ''.'' # d @ ''.log''"

definition backup_name :: "string \<Rightarrow> nat \<Rightarrow> string" where
  "backup_name base i = base @ CHR ''.'' # nat_str i"

definition gz_name :: "string \<Rightarrow> string" where
  "gz_name n = n @ ''.gz''"

text \<open>\<open>_date_re\<close>: the date of the name, and what follows \<open>.log\<close>.\<close>

definition dated_name :: "string \<Rightarrow> string \<Rightarrow> (string \<times> string) option" where
  "dated_name prefix_str n =
     (if starts_with (prefix_str @ ''.'') n
      then (let r = drop (length prefix_str + 1) n in
            if length r \<ge> 8 \<and> list_all is_digit (take 8 r) \<and> starts_with ''.log'' (drop 8 r)
            then Some (take 8 r, drop 12 r) else None)
      else None)"

text \<open>\<open>(?:\.\d+)?(?:\.gz)?$\<close>, where \<open>$\<close> also matches before a final line feed.\<close>

definition archive_tail :: "string \<Rightarrow> bool" where
  "archive_tail t \<longleftrightarrow> t \<in> {[], ''.gz''} \<or>
     (case t of c # r \<Rightarrow> c = CHR ''.'' \<and> takeWhile is_digit r \<noteq> [] \<and> dropWhile is_digit r \<in> {[], ''.gz''} | [] \<Rightarrow> False)"

definition archive_matches :: "string \<Rightarrow> string \<Rightarrow> bool" where
  "archive_matches prefix_str n = (case dated_name prefix_str n of
       None \<Rightarrow> False
     | Some (d, t) \<Rightarrow> archive_tail t \<or> (t \<noteq> [] \<and> last t = newline \<and> archive_tail (butlast t)))"

section \<open>Compression in the background\<close>

text \<open>
  \<open>_compress_file\<close>: without the file, or when compressing fails, what there is of the \<open>.gz\<close> is
  removed; otherwise the \<open>.gz\<close> stays whether or not the original can be deleted. (That an incomplete
  \<open>.gz\<close> is left where it cannot be deleted is not modelled: the directory stays as it was.)
\<close>

definition compress_file :: "log_env \<Rightarrow> string \<Rightarrow> dir \<Rightarrow> dir" where
  "compress_file env n d =
     (let gz_path = gz_name n in
      case (map_of d n, no_gzip env n) of
        (Some f, False) \<Rightarrow>
          (let d1 = AList.update gz_path \<lparr>content = gzip env (content f), mtime = file_clock env, writers = []\<rparr> d
           in if no_unlink env n then d1 else unlink n d1)
      | _ \<Rightarrow> if no_unlink env gz_path then d else unlink gz_path d)"

definition compress_file_async :: "string \<Rightarrow> log_handler \<Rightarrow> log_handler" where
  "compress_file_async n h = h\<lparr>jobs := jobs h @ [n]\<rparr>"

text \<open>The only worker thread takes the next job.\<close>

definition gzip_step :: "log_env \<Rightarrow> log_handler \<Rightarrow> log_handler" where
  "gzip_step env h = (case jobs h of [] \<Rightarrow> h
     | n # ns \<Rightarrow> h\<lparr>files := compress_file env n (files h), jobs := ns\<rparr>)"

definition wait_pending_compressions :: "log_env \<Rightarrow> log_handler \<Rightarrow> log_handler" where
  "wait_pending_compressions env h = h\<lparr>files := foldl (\<lambda>d n. compress_file env n d) (files h) (jobs h), jobs := []\<rparr>"

section \<open>Cleaning up\<close>

definition expired :: "string \<Rightarrow> log_env \<Rightarrow> string \<Rightarrow> bool" where
  "expired prefix_str env n = (case dated_name prefix_str n of None \<Rightarrow> False | Some (d, t) \<Rightarrow> d < cutoff env)"

definition retention_step :: "string \<Rightarrow> log_env \<Rightarrow> dir \<Rightarrow> string \<Rightarrow> dir" where
  "retention_step prefix_str env d n =
     (if expired prefix_str env n \<and> \<not> no_unlink env n then unlink n d else d)"

definition cleanup_old_files :: "log_env \<Rightarrow> log_handler \<Rightarrow> log_handler" where
  "cleanup_old_files env h =
     h\<lparr>files := foldl (retention_step (name_prefix h) env) (files h) (map fst (files h))\<rparr>"

type_synonym archive_entry = "string \<times> nat \<times> rat"

definition archive_entries :: "log_env \<Rightarrow> log_handler \<Rightarrow> archive_entry list" where
  "archive_entries env h =
     map (\<lambda>(n, f). (n, length (content f), mtime f))
       (filter (\<lambda>(n, f). archive_matches (name_prefix h) n \<and> \<not> no_stat env n) (files h))"

fun total_size_loop :: "log_env \<Rightarrow> string \<Rightarrow> int \<Rightarrow> archive_entry list \<Rightarrow> int \<Rightarrow> nat \<Rightarrow> dir \<Rightarrow> nat \<times> dir" where
  "total_size_loop env active_name limit [] tot deleted d = (deleted, d)"
| "total_size_loop env active_name limit ((n, sz, mt) # es) tot deleted d =
     (if tot \<le> limit then (deleted, d)
      else if n = active_name then total_size_loop env active_name limit es tot deleted d
      else if no_unlink env n then total_size_loop env active_name limit es tot deleted d
      else total_size_loop env active_name limit es (tot - int sz) (deleted + 1) (unlink n d))"

definition entries_size :: "archive_entry list \<Rightarrow> int" where
  "entries_size es = (\<Sum>(n, sz, mt) \<leftarrow> es. int sz)"

definition cleanup_by_total_size :: "log_env \<Rightarrow> log_handler \<Rightarrow> log_handler" where
  "cleanup_by_total_size env h =
     (if max_total_bytes h \<le> 0 then h
      else
        (let entries = archive_entries env h; tot = entries_size entries in
         if tot \<le> max_total_bytes h then h
         else
           (case total_size_loop env (base_name h) (max_total_bytes h) (sort_key (\<lambda>(n, sz, mt). mt) entries) tot 0 (files h) of
              (deleted, d) \<Rightarrow>
                (let h1 = h\<lparr>files := d\<rparr> in
                 if deleted > 0 \<and> starts_with ''audit'' (name_prefix h)
                 then h1\<lparr>disk_full := disk_full h1 + deleted\<rparr> else h1))))"

section \<open>Rotation\<close>

text \<open>\<open>"YYYY-MM-DD HH:MM:SS"\<close> to \<open>"YYYYMMDD"\<close>.\<close>

definition day_of :: "string \<Rightarrow> string" where
  "day_of ts = take 4 ts @ take 2 (drop 5 ts) @ take 2 (drop 8 ts)"

definition should_rollover :: "log_env \<Rightarrow> string \<Rightarrow> log_handler \<Rightarrow> bool \<times> log_handler" where
  "should_rollover env msg h =
     (if day_of (stamp env) \<noteq> current_date h then (True, h)
      else if max_bytes h > 0 then
        (let msg_bytes = int (length msg) + 1 in
         if current_bytes h + msg_bytes \<ge> max_bytes h then (True, h)
         else (False, h\<lparr>current_bytes := current_bytes h + msg_bytes\<rparr>))
      else (False, h))"

text \<open>What raises on the way ends the operation, and leaves what was done before.\<close>

type_synonym 's tried = "exc option \<times> 's"

definition os_error :: exc where
  "os_error = PyExc ''OSError''"

definition and_then :: "'s tried \<Rightarrow> ('s \<Rightarrow> 's tried) \<Rightarrow> 's tried" where
  "and_then r f = (case r of (Some x, s) \<Rightarrow> (Some x, s) | (None, s) \<Rightarrow> f s)"

definition unlink_missing_ok :: "log_env \<Rightarrow> string \<Rightarrow> dir \<Rightarrow> dir tried" where
  "unlink_missing_ok env n d =
     (if file_exists n d \<and> no_unlink env n then (Some os_error, d) else (None, unlink n d))"

definition rename_file :: "log_env \<Rightarrow> string \<Rightarrow> string \<Rightarrow> dir \<Rightarrow> dir tried" where
  "rename_file env a b d = (if no_rename env a then (Some os_error, d) else (None, rename a b d))"

text \<open>One turn of the loop of \<open>_shift_backups\<close>, and the loop, from the highest number down.\<close>

definition shift_one :: "log_env \<Rightarrow> string \<Rightarrow> nat \<Rightarrow> nat \<Rightarrow> dir \<Rightarrow> dir tried" where
  "shift_one env base n i d =
     (let src_plain = backup_name base i; src_gz = gz_name src_plain in
      if i = n then and_then (unlink_missing_ok env src_gz d) (unlink_missing_ok env src_plain)
      else
        (let dst_plain = backup_name base (i + 1); dst_gz = gz_name dst_plain in
         if file_exists src_gz d then rename_file env src_gz dst_gz d
         else if file_exists src_plain d then rename_file env src_plain dst_plain d
         else (None, d)))"

primrec shift_down :: "log_env \<Rightarrow> string \<Rightarrow> nat \<Rightarrow> nat \<Rightarrow> dir \<Rightarrow> dir tried" where
  "shift_down env base n 0 d = (None, d)"
| "shift_down env base n (Suc i) d = and_then (shift_one env base n (Suc i) d) (shift_down env base n i)"

definition shift_backups :: "log_env \<Rightarrow> log_handler \<Rightarrow> log_handler tried" where
  "shift_backups env h =
     (let base = log_path (name_prefix h) (current_date h);
          n = nat (backup_count h)
      in case shift_down env base n n (files h) of
           (Some x, d) \<Rightarrow> (Some x, h\<lparr>files := d\<rparr>)
         | (None, d) \<Rightarrow>
             if file_exists base d
             then (let target = backup_name base 1 in
                   case rename_file env base target d of
                     (Some x, d1) \<Rightarrow> (Some x, h\<lparr>files := d1\<rparr>)
                   | (None, d1) \<Rightarrow>
                       (None, if compress h then compress_file_async target (h\<lparr>files := d1\<rparr>) else h\<lparr>files := d1\<rparr>))
             else (None, h\<lparr>files := d\<rparr>))"

definition change_day :: "log_env \<Rightarrow> log_handler \<Rightarrow> log_handler" where
  "change_day env h =
     (let old_path = log_path (name_prefix h) (current_date h);
          h1 = (if file_exists old_path (files h) \<and> compress h then compress_file_async old_path h else h)
      in cleanup_old_files env (h1\<lparr>current_date := day_of (stamp_later env)\<rparr>))"

text \<open>A new base file is opened, its counter starts at 0.\<close>

definition open_base :: "log_env \<Rightarrow> log_handler \<Rightarrow> log_handler tried" where
  "open_base env h =
     (let base = log_path (name_prefix h) (current_date h); h1 = h\<lparr>base_name := base\<rparr>
      in if no_open env base then (Some os_error, h1)
         else (None, h1\<lparr>stream_open := True, files := open_append (process h1) (file_clock env) base (files h1), current_bytes := 0\<rparr>))"

definition do_rollover :: "log_env \<Rightarrow> log_handler \<Rightarrow> log_handler tried" where
  "do_rollover env h =
     (let h0 = wait_pending_compressions env h;
          h1 = h0\<lparr>stream_open := False, files := close_stream (process h0) (files h0)\<rparr>;
          r = (if day_of (stamp_later env) \<noteq> current_date h1 then (None, change_day env h1) else shift_backups env h1)
      in and_then (and_then r (open_base env)) (\<lambda>h2. (None, cleanup_by_total_size env h2)))"

text \<open>\<open>FileHandler.emit\<close>: a closed stream is opened again on \<open>baseFilename\<close>.\<close>

definition emit_line :: "log_env \<Rightarrow> string \<Rightarrow> log_handler \<Rightarrow> log_handler tried" where
  "emit_line env msg h =
     (let base = base_name h in
      if \<not> stream_open h \<and> no_open env base then (Some os_error, h)
      else
        (let d = (if stream_open h then files h else open_append (process h) (file_clock env) base (files h))
         in (None, h\<lparr>stream_open := True, files := write_to (process h) (file_clock env) (msg @ [newline]) d\<rparr>)))"

text \<open>
  \<open>BaseRotatingHandler.emit\<close>: roll over if needed, then write the line. What raises goes to
  \<open>handleError\<close>, which keeps it from the caller: the record is not written.
\<close>

definition emit :: "log_env \<Rightarrow> string \<Rightarrow> log_handler \<Rightarrow> log_handler" where
  "emit env msg h =
     (case should_rollover env msg h of (roll, h1) \<Rightarrow>
        snd (and_then (if roll then do_rollover env h1 else (None, h1)) (emit_line env msg)))"

definition size_of :: "string \<Rightarrow> dir \<Rightarrow> int" where
  "size_of n d = (case map_of d n of None \<Rightarrow> 0 | Some f \<Rightarrow> int (length (content f)))"

text \<open>\<open>__init__\<close>: the file of the day is opened and measured, then both clean-ups run.\<close>

definition init_handler ::
  "log_env \<Rightarrow> nat \<Rightarrow> string \<Rightarrow> int \<Rightarrow> int \<Rightarrow> bool \<Rightarrow> int \<Rightarrow> dir \<Rightarrow> log_handler" where
  "init_handler env pid prefix_str max_b backups compr max_total_size_mb d =
     (let today = day_of (stamp env);
          base = log_path prefix_str today;
          d1 = open_append pid (file_clock env) base d;
          h = \<lparr>process = pid, name_prefix = prefix_str, max_bytes = max_b, backup_count = backups, compress = compr,
               max_total_bytes = (if max_total_size_mb > 0 then max_total_size_mb * 1024 * 1024 else 0),
               current_date = today, base_name = base,
               current_bytes = (if no_stat env base then 0 else size_of base d1), stream_open = True,
               files = d1, jobs = [], disk_full = 0\<rparr>
      in cleanup_by_total_size env (cleanup_old_files env h))"

section \<open>Tried operations\<close>

lemma and_then_simps [simp]: "and_then (None, s) f = f s" "and_then (Some x, s) f = (Some x, s)"
  by (simp_all add: and_then_def)

text \<open>Nothing is refused.\<close>

definition env_works :: "log_env \<Rightarrow> bool" where
  "env_works env \<longleftrightarrow> (\<forall>m. \<not> no_unlink env m) \<and> (\<forall>m. \<not> no_rename env m) \<and> (\<forall>m. \<not> no_open env m)"

lemma env_worksD [simp]:
  assumes "env_works env"
  shows "unlink_missing_ok env n d = (None, unlink n d)" and "rename_file env a b d = (None, rename a b d)"
    and "\<not> no_open env m"
  using assms by (simp_all add: env_works_def unlink_missing_ok_def rename_file_def)

section \<open>The directory as a map\<close>

lemma look_unlink [simp]: "map_of (unlink n d) = (map_of d)(n := None)"
  by (simp add: unlink_def delete_conv')

lemma look_rename: "map_of (rename a b d) = (case map_of d a of None \<Rightarrow> map_of d | Some f \<Rightarrow> (map_of d)(a := None, b \<mapsto> f))"
  by (simp add: rename_def update_conv' delete_conv' split: option.splits)

lemma look_open [simp]: "map_of (open_append p now n d) = (map_of d)(n \<mapsto>
    (case map_of d n of None \<Rightarrow> \<lparr>content = [], mtime = now, writers = [p]\<rparr>
     | Some f \<Rightarrow> f\<lparr>writers := List.insert p (writers f)\<rparr>))"
  by (simp add: open_append_def update_conv')

lemma look_write [simp]: "map_of (write_to p now s d) n =
    map_option (\<lambda>f. if p \<in> set (writers f) then f\<lparr>content := content f @ s, mtime := now\<rparr> else f) (map_of d n)"
  by (induction d) (auto simp: write_to_def)

lemma look_close [simp]: "map_of (close_stream p d) n = map_option (\<lambda>f. f\<lparr>writers := removeAll p (writers f)\<rparr>) (map_of d n)"
  by (induction d) (auto simp: close_stream_def)

lemma file_exists_close [simp]: "file_exists n (close_stream p d) = file_exists n d"
  by (simp add: file_exists_def)

lemma look_compress: "map_of (compress_file env n d) =
    (case (map_of d n, no_gzip env n) of
       (Some f, False) \<Rightarrow> ((map_of d)(gz_name n \<mapsto> \<lparr>content = gzip env (content f), mtime = file_clock env, writers = []\<rparr>))
          (n := if no_unlink env n then map_of d n else None)
     | _ \<Rightarrow> if no_unlink env (gz_name n) then map_of d else (map_of d)(gz_name n := None))"
  by (auto simp: compress_file_def Let_def update_conv' gz_name_def fun_eq_iff split: option.splits bool.splits)

lemma gz_name_neq [simp]: "gz_name n \<noteq> n" "n \<noteq> gz_name n"
  by (simp_all add: gz_name_def)

lemma gz_name_inject [simp]: "gz_name a = gz_name b \<longleftrightarrow> a = b"
  by (simp add: gz_name_def)

lemma nat_str_inject [simp]: "nat_str i = nat_str j \<longleftrightarrow> i = j"
  by (metis digits_val_nat_str)

section \<open>What holds of every file\<close>

text \<open>Renaming and deleting make no file; compressing makes one that is open nowhere.\<close>

definition every_file :: "(logfile \<Rightarrow> bool) \<Rightarrow> dir \<Rightarrow> bool" where
  "every_file P d \<longleftrightarrow> (\<forall>n f. map_of d n = Some f \<longrightarrow> P f)"

lemma every_fileD: "every_file P d \<Longrightarrow> map_of d n = Some f \<Longrightarrow> P f"
  by (simp add: every_file_def)

lemma every_file_unlink [intro]: "every_file P d \<Longrightarrow> every_file P (unlink n d)"
  by (auto simp: every_file_def split: if_splits)

lemma every_file_rename [intro]: "every_file P d \<Longrightarrow> every_file P (rename a b d)"
  by (auto simp: every_file_def look_rename split: option.splits if_splits)

lemma every_file_tried [intro]:
  "every_file P d \<Longrightarrow> every_file P (snd (unlink_missing_ok env n d))"
  "every_file P d \<Longrightarrow> every_file P (snd (rename_file env a b d))"
  by (auto simp: unlink_missing_ok_def rename_file_def)

lemma every_file_compress [intro]:
  assumes "every_file P d" and "\<And>g. writers g = [] \<Longrightarrow> P g"
  shows "every_file P (compress_file env n d)"
  using assms by (auto simp: every_file_def look_compress split: option.splits bool.splits if_splits)

lemma every_file_and_then:
  "every_file P (snd r) \<Longrightarrow> (\<And>d. every_file P d \<Longrightarrow> every_file P (snd (f d))) \<Longrightarrow> every_file P (snd (and_then r f))"
  by (simp add: and_then_def case_prod_beta split: option.split)

lemma every_file_shift_one [intro]: "every_file P d \<Longrightarrow> every_file P (snd (shift_one env b n i d))"
  by (auto simp: shift_one_def Let_def intro!: every_file_and_then)

lemma every_file_shift [intro]: "every_file P d \<Longrightarrow> every_file P (snd (shift_down env b n j d))"
  by (induction j arbitrary: d) (auto intro!: every_file_and_then)

section \<open>What the clean-up by total size deletes\<close>

definition without :: "string list \<Rightarrow> dir \<Rightarrow> dir" where
  "without ns d = filter (\<lambda>(m, f). m \<notin> set ns) d"

lemma look_without [simp]: "map_of (without ns d) m = (if m \<in> set ns then None else map_of d m)"
  by (induction d) (auto simp: without_def)

lemma without_none [simp]: "without [] d = d"
  by (simp add: without_def)

lemma without_more: "without ns (without ms d) = without (ms @ ns) d"
  unfolding without_def filter_filter by (rule filter_cong) auto

lemma unlink_without: "unlink n d = without [n] d"
  by (induction d) (auto simp: unlink_def without_def)

lemma every_file_without [intro]: "every_file P d \<Longrightarrow> every_file P (without ns d)"
  by (auto simp: every_file_def split: if_splits)

text \<open>Some files, never the active one; their number goes to the counter of the audit log.\<close>

lemma total_size_deletes:
  "\<exists>ns. total_size_loop env a limit es tot k d = (k + length ns, without ns d) \<and> a \<notin> set ns"
proof (induction env a limit es tot k d rule: total_size_loop.induct)
  case (1 env a limit tot k d)
  then show ?case by (intro exI [of _ "[]"]) simp
next
  case (2 env a limit n sz mt es tot k d)
  consider (skip) "tot \<le> limit" | (next_one) "\<not> tot \<le> limit" "n = a \<or> no_unlink env n"
    | (delete) "\<not> tot \<le> limit" "n \<noteq> a" "\<not> no_unlink env n" by blast
  then show ?case
  proof cases
    case skip
    then show ?thesis by (intro exI [of _ "[]"]) simp
  next
    case next_one
    with 2(1,2) show ?thesis by (cases "n = a") auto
  next
    case delete
    from 2(3) [OF delete] obtain ns where
      "total_size_loop env a limit es (tot - int sz) (k + 1) (unlink n d) = (k + 1 + length ns, without ns (unlink n d))" "a \<notin> set ns"
      by blast
    with delete show ?thesis by (intro exI [of _ "n # ns"]) (simp add: unlink_without without_more)
  qed
qed

lemma cleanup_deletes:
  obtains ns where "cleanup_by_total_size env h = h\<lparr>files := without ns (files h),
      disk_full := disk_full h + (if starts_with ''audit'' (name_prefix h) then length ns else 0)\<rparr>"
    and "base_name h \<notin> set ns" and "max_total_bytes h \<le> 0 \<longrightarrow> ns = []"
proof (cases "max_total_bytes h \<le> 0 \<or> entries_size (archive_entries env h) \<le> max_total_bytes h")
  case True
  then show ?thesis by (intro that [of "[]"]) (auto simp: cleanup_by_total_size_def)
next
  case False
  let ?es = "sort_key (\<lambda>(n, sz, mt). mt) (archive_entries env h)"
  obtain ns where "total_size_loop env (base_name h) (max_total_bytes h) ?es (entries_size (archive_entries env h)) 0 (files h) =
      (length ns, without ns (files h))" "base_name h \<notin> set ns"
    using total_size_deletes [of env "base_name h" "max_total_bytes h" ?es "entries_size (archive_entries env h)" 0 "files h"] by auto
  with False show ?thesis by (intro that [of ns]) (simp_all add: cleanup_by_total_size_def Let_def)
qed

end
