(* ===== verification/LogRotation.thy ===== *)
theory LogRotation
  imports LogFiles
begin

text \<open>
  The rotation of \<open>DailySizeRotatingHandler\<close> against its abstract specification. Abstractly the log of a
  day is a sequence of numbered texts, the current one and its backups; a rotation moves every
  text one number up and drops the last one; compression does not exist. The interface
  \<open>rotating_log\<close> says that every step of a log is a line added after at most one rotation; what
  follows from it is proved there once, and the handler is shown to provide it. \<open>full_log\<close> extends it by
  what is said of the size of a file, so that nothing is lost before the backups are full. The handler
  provides it here without a bound on the directory (\<open>log_inv\<close>), and in LogWorkers, among the others, with
  any bound (\<open>day_inv\<close>) for the steps that delete nothing for it (\<open>undeleted\<close>).
\<close>

section \<open>The abstract log of a day\<close>

type_synonym day_log = "nat \<Rightarrow> string option"

definition rotate_day :: "nat \<Rightarrow> day_log \<Rightarrow> day_log" where
  "rotate_day n v = (\<lambda>i. if i = 0 then Some [] else if i \<le> n then v (i - 1) else v i)"

definition append_day :: "string \<Rightarrow> day_log \<Rightarrow> day_log" where
  "append_day s v = v(0 := map_option (\<lambda>c. c @ s) (v 0))"

definition slot_text :: "day_log \<Rightarrow> nat \<Rightarrow> string" where
  "slot_text v i = (case v i of None \<Rightarrow> [] | Some c \<Rightarrow> c)"

text \<open>All that is kept, oldest first.\<close>

primrec kept :: "nat \<Rightarrow> day_log \<Rightarrow> string" where
  "kept 0 v = slot_text v 0"
| "kept (Suc n) v = slot_text v (Suc n) @ kept n v"

lemma kept_append: "v 0 \<noteq> None \<Longrightarrow> kept n (append_day s v) = kept n v @ s"
  by (induction n) (auto simp: append_day_def slot_text_def split: option.splits)

lemma kept_rotated: "m < n \<Longrightarrow> kept (Suc m) (rotate_day n v) = kept m v"
  by (induction m) (simp_all add: rotate_day_def slot_text_def)

lemma kept_rotate: "1 \<le> n \<Longrightarrow> slot_text v n @ kept n (rotate_day n v) = kept n v"
proof -
  assume "1 \<le> n"
  then obtain m where "n = Suc m" by (cases n) auto
  then show ?thesis using kept_rotated [of m n v] by simp
qed

section \<open>The interface\<close>

primrec all_ok :: "('e \<Rightarrow> 's \<Rightarrow> bool) \<Rightarrow> ('e \<Rightarrow> 's \<Rightarrow> 's) \<Rightarrow> 'e list \<Rightarrow> 's \<Rightarrow> bool" where
  "all_ok ok step [] s \<longleftrightarrow> True"
| "all_ok ok step (e # es) s \<longleftrightarrow> ok e s \<and> all_ok ok step es (step e s)"

locale rotating_log =
  fixes inv :: "'s \<Rightarrow> bool"
    and ok :: "'e \<Rightarrow> 's \<Rightarrow> bool"
    and step :: "'e \<Rightarrow> 's \<Rightarrow> 's"
    and line :: "'e \<Rightarrow> string"
    and view :: "'s \<Rightarrow> day_log"
    and n :: nat
  assumes slots: "1 \<le> n"
    and current: "inv s \<Longrightarrow> view s 0 \<noteq> None"
    and keeps: "inv s \<Longrightarrow> ok e s \<Longrightarrow> inv (step e s)"
    and refines: "inv s \<Longrightarrow> ok e s \<Longrightarrow>
      \<exists>roll. view (step e s) = append_day (line e) (if roll then rotate_day n (view s) else view s)"
begin

lemma run_inv: "inv s \<Longrightarrow> all_ok ok step es s \<Longrightarrow> inv (fold step es s)"
  by (induction es arbitrary: s) (auto intro: keeps)

lemma step_kept:
  assumes "inv s" and "ok e s"
  shows "\<exists>old. old @ kept n (view (step e s)) = kept n (view s) @ line e"
proof -
  obtain roll where v: "view (step e s) = append_day (line e) (if roll then rotate_day n (view s) else view s)"
    using refines [OF assms] by blast
  show ?thesis
  proof (cases roll)
    case True
    have "rotate_day n (view s) 0 \<noteq> None" by (simp add: rotate_day_def)
    with v True have "slot_text (view s) n @ kept n (view (step e s)) = kept n (view s) @ line e"
      using kept_rotate [OF slots, of "view s"] by (simp add: kept_append flip: append_assoc)
    then show ?thesis by blast
  next
    case False
    with v current [OF assms(1)] have "[] @ kept n (view (step e s)) = kept n (view s) @ line e"
      by (simp add: kept_append)
    then show ?thesis by blast
  qed
qed

text \<open>What is kept is the end of all that was written: only the oldest texts are given up.\<close>

lemma run_kept:
  "inv s \<Longrightarrow> all_ok ok step es s \<Longrightarrow>
   \<exists>old. old @ kept n (view (fold step es s)) = kept n (view s) @ concat (map line es)"
proof (induction es arbitrary: s)
  case (Cons e es)
  then have i: "inv (step e s)" and "all_ok ok step es (step e s)" by (auto intro: keeps)
  from Cons.IH [OF this] obtain o2 where
    o2: "o2 @ kept n (view (fold step es (step e s))) = kept n (view (step e s)) @ concat (map line es)" by blast
  obtain o1 where o1: "o1 @ kept n (view (step e s)) = kept n (view s) @ line e"
    using step_kept Cons.prems by fastforce
  have "(o1 @ o2) @ kept n (view (fold step (e # es) s)) = kept n (view s) @ concat (map line (e # es))"
    using o2 arg_cong [OF o1, of "\<lambda>x. x @ concat (map line es)"] by simp
  then show ?case by blast
qed simp

end

text \<open>
  A log that gives nothing up too early: it rotates only when what it has counted of the current text
  and the new line reach a limit. Then, once a text has been given up, all the slots are full.
\<close>

locale full_log = rotating_log +
  fixes limit :: int and counted :: "'a \<Rightarrow> int"
  assumes counted_pos: "inv s \<Longrightarrow> 0 \<le> counted s"
    and fills: "inv s \<Longrightarrow> ok e s \<Longrightarrow>
      \<exists>roll. view (step e s) = append_day (line e) (if roll then rotate_day n (view s) else view s) \<and>
        (if roll then limit \<le> counted s + int (length (line e)) \<and> counted (step e s) = 0
         else counted (step e s) \<le> counted s + int (length (line e)))"
begin

definition tight :: "'a \<Rightarrow> bool" where
  "tight s \<longleftrightarrow> (\<forall>i < n. view s (Suc i) \<noteq> None \<longrightarrow> view s i \<noteq> None) \<and>
     (\<forall>j \<le> n. view s j \<noteq> None \<longrightarrow> int j * limit + counted s \<le> int (length (kept j (view s))))"

lemma step_tight:
  assumes "inv s" and "ok e s" and "tight s"
  shows "tight (step e s)" and "view s n \<noteq> None \<longrightarrow> view (step e s) n \<noteq> None"
    and "\<exists>old. old @ kept n (view (step e s)) = kept n (view s) @ line e \<and> (old \<noteq> [] \<longrightarrow> view (step e s) n \<noteq> None)"
proof -
  obtain m where m: "n = Suc m" using slots by (cases n) auto
  have c: "view s i \<noteq> None" if "view s (Suc i) \<noteq> None" "i < n" for i using assms(3) that by (simp add: tight_def)
  have k: "int j * limit + counted s \<le> int (length (kept j (view s)))" if "view s j \<noteq> None" "j \<le> n" for j
    using assms(3) that by (simp add: tight_def)
  obtain roll where v: "view (step e s) = append_day (line e) (if roll then rotate_day n (view s) else view s)"
    and full: "if roll then limit \<le> counted s + int (length (line e)) \<and> counted (step e s) = 0
      else counted (step e s) \<le> counted s + int (length (line e))"
    using fills [OF assms(1,2)] by blast
  have all: "tight (step e s) \<and> (view s n \<noteq> None \<longrightarrow> view (step e s) n \<noteq> None) \<and>
    (\<exists>old. old @ kept n (view (step e s)) = kept n (view s) @ line e \<and> (old \<noteq> [] \<longrightarrow> view (step e s) n \<noteq> None))"
  proof (cases roll)
    case True
    have r0: "rotate_day n (view s) 0 \<noteq> None" by (simp add: rotate_day_def)
    have ka: "kept j (append_day (line e) (rotate_day n (view s))) = kept j (rotate_day n (view s)) @ line e" for j
      by (rule kept_append) (rule r0)
    have nv: "view (step e s) (Suc i) = view s i" if "i < n" for i
      using v True that by (simp add: append_day_def rotate_day_def)
    have n0: "view (step e s) 0 \<noteq> None" using v True by (simp add: append_day_def rotate_day_def)
    have con: "view (step e s) i \<noteq> None" if "i < n" "view (step e s) (Suc i) \<noteq> None" for i
      using that nv c n0 by (cases i) auto
    have len: "int j * limit + counted (step e s) \<le> int (length (kept j (view (step e s))))"
      if j: "j \<le> n" "view (step e s) j \<noteq> None" for j
    proof (cases j)
      case 0
      then show ?thesis using full True by simp
    next
      case (Suc i)
      then have i: "i < n" "view s i \<noteq> None" using j nv by auto
      have "kept j (view (step e s)) = kept i (view s) @ line e"
        using v True ka kept_rotated [OF i(1)] Suc by (simp del: kept.simps)
      then show ?thesis using k [OF i(2)] i(1) full True Suc by (simp add: algebra_simps)
    qed
    have "slot_text (view s) n @ kept n (view (step e s)) = kept n (view s) @ line e"
      using v True kept_rotate [OF slots, of "view s"] ka by (simp flip: append_assoc)
    moreover have up: "view s n \<noteq> None \<longrightarrow> view (step e s) n \<noteq> None" using c nv unfolding m by auto
    moreover have "slot_text (view s) n \<noteq> [] \<longrightarrow> view s n \<noteq> None" by (cases "view s n") (simp_all add: slot_text_def)
    ultimately show ?thesis using con len unfolding tight_def by blast
  next
    case False
    have ka: "kept j (append_day (line e) (view s)) = kept j (view s) @ line e" for j
      by (rule kept_append) (rule current [OF assms(1)])
    have same: "view (step e s) i \<noteq> None \<longleftrightarrow> view s i \<noteq> None" for i using v False by (simp add: append_day_def)
    have "kept j (view (step e s)) = kept j (view s) @ line e" for j using v False ka by simp
    moreover have "int j * limit + counted (step e s) \<le> int (length (kept j (view s))) + int (length (line e))"
      if "j \<le> n" "view s j \<noteq> None" for j
      using k [OF that(2,1)] full False by simp
    ultimately show ?thesis using c same unfolding tight_def by (auto intro: exI [of _ "[]"])
  qed
  then show "tight (step e s)" and "view s n \<noteq> None \<longrightarrow> view (step e s) n \<noteq> None"
    and "\<exists>old. old @ kept n (view (step e s)) = kept n (view s) @ line e \<and> (old \<noteq> [] \<longrightarrow> view (step e s) n \<noteq> None)" by blast+
qed

lemma run_tight:
  "inv s \<Longrightarrow> all_ok ok step es s \<Longrightarrow> tight s \<Longrightarrow> tight (fold step es s) \<and>
   (view s n \<noteq> None \<longrightarrow> view (fold step es s) n \<noteq> None) \<and>
   (\<exists>old. old @ kept n (view (fold step es s)) = kept n (view s) @ concat (map line es) \<and>
     (old \<noteq> [] \<longrightarrow> view (fold step es s) n \<noteq> None))"
proof (induction es arbitrary: s)
  case (Cons e es)
  let ?s = "fold step es (step e s)"
  have "ok e s" "inv (step e s)" "all_ok ok step es (step e s)" using Cons.prems by (auto intro: keeps)
  note st = step_tight [OF Cons.prems(1) this(1) Cons.prems(3)]
  from Cons.IH [OF \<open>inv (step e s)\<close> \<open>all_ok ok step es (step e s)\<close> st(1)] obtain o2 where
    ih: "tight ?s" "view (step e s) n \<noteq> None \<longrightarrow> view ?s n \<noteq> None"
      "o2 @ kept n (view ?s) = kept n (view (step e s)) @ concat (map line es)" "o2 \<noteq> [] \<longrightarrow> view ?s n \<noteq> None" by blast
  obtain o1 where o1: "o1 @ kept n (view (step e s)) = kept n (view s) @ line e" "o1 \<noteq> [] \<longrightarrow> view (step e s) n \<noteq> None"
    using st(3) by blast
  have "(o1 @ o2) @ kept n (view ?s) = kept n (view s) @ concat (map line (e # es))"
    using ih(3) arg_cong [OF o1(1), of "\<lambda>x. x @ concat (map line es)"] by simp
  moreover have "o1 @ o2 \<noteq> [] \<longrightarrow> view ?s n \<noteq> None" using ih(2,4) o1(2) by auto
  ultimately have "\<exists>old. old @ kept n (view ?s) = kept n (view s) @ concat (map line (e # es)) \<and> (old \<noteq> [] \<longrightarrow> view ?s n \<noteq> None)"
    by (intro exI [of _ "o1 @ o2"] conjI)
  then show ?case using ih(1,2) st(2) by simp
next
  case Nil
  then show ?case by (auto intro: exI [of _ "[]"])
qed

lemma run_full:
  assumes "inv s" and "all_ok ok step es s" and "tight s"
  shows "\<exists>old. old @ kept n (view (fold step es s)) = kept n (view s) @ concat (map line es) \<and>
    (old = [] \<or> int n * limit \<le> int (length (kept n (view (fold step es s)))))"
proof -
  let ?s = "fold step es s"
  obtain old where old: "old @ kept n (view ?s) = kept n (view s) @ concat (map line es)" "old \<noteq> [] \<longrightarrow> view ?s n \<noteq> None"
    and t: "tight ?s"
    using run_tight [OF assms] by blast
  have "view ?s n \<noteq> None \<longrightarrow> int n * limit \<le> int (length (kept n (view ?s)))"
    using t counted_pos [OF run_inv [OF assms(1,2)]] unfolding tight_def by fastforce
  with old show ?thesis by blast
qed

end

section \<open>The names of a day\<close>

lemma digit_not_dot: "is_digit c \<Longrightarrow> c \<noteq> CHR ''.''"
  by (auto simp: is_digit_def code_def)

lemma dot_not_nat_str: "CHR ''.'' \<notin> set (nat_str i)"
  using nat_str_digits digit_not_dot by blast

lemma g_not_nat_str: "CHR ''g'' \<notin> set (nat_str i)"
  using nat_str_digits by (fastforce simp: is_digit_def code_def)

lemma nat_str_not_gz: "nat_str i \<noteq> nat_str j @ ''.gz''" "nat_str j @ ''.gz'' \<noteq> nat_str i"
  using dot_not_nat_str [of i] by (metis in_set_conv_decomp append_Cons append_assoc)+

lemma day_name_neq [simp]:
  "backup_name b i = backup_name b j \<longleftrightarrow> i = j"
  "backup_name b i \<noteq> gz_name (backup_name b j)" "gz_name (backup_name b j) \<noteq> backup_name b i"
  "backup_name b i \<noteq> b" "b \<noteq> backup_name b i"
  "gz_name (backup_name b i) \<noteq> b" "b \<noteq> gz_name (backup_name b i)"
  by (simp_all add: backup_name_def gz_name_def nat_str_not_gz)

definition day_names :: "string \<Rightarrow> string set" where
  "day_names b = insert b (range (backup_name b) \<union> range (\<lambda>i. gz_name (backup_name b i)))"

lemma day_names_mem [simp, intro]:
  "b \<in> day_names b" "backup_name b i \<in> day_names b" "gz_name (backup_name b i) \<in> day_names b"
  by (auto simp: day_names_def)

section \<open>Shifting the backups\<close>

definition no_twins :: "string \<Rightarrow> nat \<Rightarrow> dir \<Rightarrow> bool" where
  "no_twins b n d \<longleftrightarrow> (\<forall>i. 1 \<le> i \<and> i \<le> n \<longrightarrow>
     map_of d (backup_name b i) = None \<or> map_of d (gz_name (backup_name b i)) = None)"

text \<open>The slots from \<open>k + 1\<close> to \<open>n - 1\<close> have moved one up, and slot \<open>k + 1\<close> is free.\<close>

definition moved :: "nat \<Rightarrow> nat \<Rightarrow> (nat \<Rightarrow> 'a option) \<Rightarrow> nat \<Rightarrow> 'a option" where
  "moved k n f i = (if i = k + 1 then None else if k + 2 \<le> i \<and> i \<le> n then f (i - 1) else f i)"

abbreviation plain_slots :: "string \<Rightarrow> dir \<Rightarrow> nat \<Rightarrow> logfile option" where
  "plain_slots b d \<equiv> (\<lambda>i. map_of d (backup_name b i))"

abbreviation gz_slots :: "string \<Rightarrow> dir \<Rightarrow> nat \<Rightarrow> logfile option" where
  "gz_slots b d \<equiv> (\<lambda>i. map_of d (gz_name (backup_name b i)))"

lemma shift_one_cases:
  assumes "i \<noteq> n" and "plain_slots b d (i + 1) = None" and "gz_slots b d (i + 1) = None"
    and "plain_slots b d i = None \<or> gz_slots b d i = None"
  obtains (refused) "\<not> env_works env" "shift_one env b n i d = (Some os_error, d)"
    | (done_one) d' where "shift_one env b n i d = (None, d')"
        "map_of d' = (map_of d)(backup_name b (i + 1) := plain_slots b d i, gz_name (backup_name b (i + 1)) := gz_slots b d i,
           backup_name b i := None, gz_name (backup_name b i) := None)"
proof (cases "fst (shift_one env b n i d)")
  case None
  let ?d' = "snd (shift_one env b n i d)"
  have "map_of ?d' = (map_of d)(backup_name b (i + 1) := plain_slots b d i, gz_name (backup_name b (i + 1)) := gz_slots b d i,
      backup_name b i := None, gz_name (backup_name b i) := None)"
    using assms None by (auto simp: shift_one_def rename_file_def Let_def file_exists_def look_rename fun_eq_iff
        split: option.splits if_splits)
  then show ?thesis using None by (intro done_one [of ?d']) (simp_all add: prod_eq_iff)
next
  case (Some x)
  then show ?thesis using assms(1)
    by (intro refused) (auto simp: shift_one_def rename_file_def env_works_def Let_def split: if_splits)
qed

text \<open>The loop, as far as it comes: without an exception it comes to the end.\<close>

lemma shift_down_look:
  assumes "j < n" and "plain_slots b d (j + 1) = None" and "gz_slots b d (j + 1) = None" and "no_twins b j d"
  shows "\<exists>k r d'. shift_down env b n j d = (r, d') \<and> k \<le> j \<and> (r = None \<longrightarrow> k = 0) \<and> (env_works env \<longrightarrow> r = None) \<and>
    plain_slots b d' = moved k (j + 1) (plain_slots b d) \<and> gz_slots b d' = moved k (j + 1) (gz_slots b d) \<and> map_of d' b = map_of d b"
  using assms
proof (induction j arbitrary: d)
  case 0
  then show ?case by (intro exI [of _ 0]) (auto simp: moved_def fun_eq_iff)
next
  case (Suc j)
  have tw: "plain_slots b d (Suc j) = None \<or> gz_slots b d (Suc j) = None" using Suc.prems(4) by (simp add: no_twins_def)
  have ne: "Suc j \<noteq> n" using Suc.prems(1) by simp
  show ?case
  proof (cases rule: shift_one_cases [OF ne Suc.prems(2,3) tw, where env = env, case_names refused done_one])
    case refused
    then show ?thesis using Suc.prems(2,3) by (intro exI [of _ "Suc j"] exI [of _ "Some os_error"] exI [of _ d])
        (auto simp: moved_def fun_eq_iff)
  next
    case (done_one d1)
    have "no_twins b j d1" using Suc.prems(4) unfolding no_twins_def done_one(2) by auto
    moreover have "plain_slots b d1 (j + 1) = None" "gz_slots b d1 (j + 1) = None" unfolding done_one(2) by simp_all
    ultimately obtain k r d' where ih: "shift_down env b n j d1 = (r, d')" "k \<le> j" "r = None \<longrightarrow> k = 0" "env_works env \<longrightarrow> r = None"
        "plain_slots b d' = moved k (j + 1) (plain_slots b d1)" "gz_slots b d' = moved k (j + 1) (gz_slots b d1)" "map_of d' b = map_of d1 b"
      using Suc.IH [of d1] Suc.prems(1) by auto
    have "moved k (j + 1) (plain_slots b d1) = moved k (Suc j + 1) (plain_slots b d)"
      "moved k (j + 1) (gz_slots b d1) = moved k (Suc j + 1) (gz_slots b d)" "map_of d1 b = map_of d b"
      using ih(2) unfolding done_one(2) by (auto simp: moved_def fun_eq_iff)
    with ih done_one(1) show ?thesis by (intro exI [of _ k] exI [of _ r] exI [of _ d']) simp
  qed
qed

lemma shift_all_look:
  assumes "1 \<le> n" and "no_twins b n d" and "\<forall>m. \<not> no_unlink env m"
  shows "\<exists>k r d'. shift_down env b n n d = (r, d') \<and> k < n \<and> (r = None \<longrightarrow> k = 0) \<and> (env_works env \<longrightarrow> r = None) \<and>
    plain_slots b d' = moved k n (plain_slots b d) \<and> gz_slots b d' = moved k n (gz_slots b d) \<and> map_of d' b = map_of d b"
proof -
  obtain m where n: "n = Suc m" using assms(1) by (cases n) auto
  let ?d = "unlink (backup_name b n) (unlink (gz_name (backup_name b n)) d)"
  have "shift_down env b n n d = shift_down env b n m ?d"
    using assms(3) by (simp add: n shift_one_def Let_def unlink_missing_ok_def)
  moreover have "no_twins b m ?d" using assms(2) by (auto simp: no_twins_def n)
  then obtain k r d' where k: "shift_down env b n m ?d = (r, d')" "k \<le> m" "r = None \<longrightarrow> k = 0" "env_works env \<longrightarrow> r = None"
      "plain_slots b d' = moved k (m + 1) (plain_slots b ?d)" "gz_slots b d' = moved k (m + 1) (gz_slots b ?d)" "map_of d' b = map_of ?d b"
    using shift_down_look [where j = m and n = n and b = b and d = ?d and env = env] n by auto
  moreover have "moved k (m + 1) (plain_slots b ?d) = moved k n (plain_slots b d)" "moved k (m + 1) (gz_slots b ?d) = moved k n (gz_slots b d)"
    "map_of ?d b = map_of d b"
    using k(2) by (auto simp: moved_def n fun_eq_iff)
  ultimately show ?thesis by (intro exI [of _ k] exI [of _ r] exI [of _ d']) (simp add: n)
qed

section \<open>The view of the handler\<close>

text \<open>What slot \<open>i\<close> of the day holds, compressed or not.\<close>

definition slot_content :: "(string \<Rightarrow> string) \<Rightarrow> string \<Rightarrow> dir \<Rightarrow> nat \<Rightarrow> string option" where
  "slot_content gunzip b d i =
     (if i = 0 then map_option content (map_of d b)
      else case map_of d (gz_name (backup_name b i)) of
             Some f \<Rightarrow> Some (gunzip (content f))
           | None \<Rightarrow> map_option content (map_of d (backup_name b i)))"

definition day_view :: "(string \<Rightarrow> string) \<Rightarrow> log_handler \<Rightarrow> day_log" where
  "day_view gunzip h = slot_content gunzip (base_name h) (files h)"

text \<open>
  A job is for a backup of the day that has no compressed twin yet, or for a file that is none of
  the day's.
\<close>

definition job_ok :: "string \<Rightarrow> dir \<Rightarrow> string \<Rightarrow> bool" where
  "job_ok b d m \<longleftrightarrow> (\<exists>i \<ge> 1. m = backup_name b i \<and> map_of d (gz_name m) = None) \<or>
     (m \<notin> day_names b \<and> gz_name m \<notin> day_names b)"

definition dir_ok :: "nat \<Rightarrow> string \<Rightarrow> dir \<Rightarrow> string list \<Rightarrow> bool" where
  "dir_ok n b d js \<longleftrightarrow> map_of d b \<noteq> None \<and> no_twins b n d \<and> distinct js \<and> (\<forall>m \<in> set js. job_ok b d m)"

text \<open>The stream of process \<open>p\<close> is open on the file \<open>b\<close> and on no other, or on none.\<close>

definition stream_at :: "nat \<Rightarrow> string \<Rightarrow> dir \<Rightarrow> bool" where
  "stream_at p b d \<longleftrightarrow> (\<forall>m f. map_of d m = Some f \<longrightarrow> (p \<in> set (writers f) \<longleftrightarrow> m = b))"

definition no_stream :: "nat \<Rightarrow> dir \<Rightarrow> bool" where
  "no_stream p = every_file (\<lambda>f. p \<notin> set (writers f))"

definition stream_ok :: "bool \<Rightarrow> nat \<Rightarrow> string \<Rightarrow> dir \<Rightarrow> bool" where
  "stream_ok opened p b d \<longleftrightarrow> (if opened then stream_at p b d else no_stream p d)"

definition day_inv :: "nat \<Rightarrow> log_handler \<Rightarrow> bool" where
  "day_inv n h \<longleftrightarrow> log_path (name_prefix h) (current_date h) = base_name h \<and>
     dir_ok n (base_name h) (files h) (jobs h) \<and> nat (backup_count h) = n \<and>
     stream_ok (stream_open h) (process h) (base_name h) (files h)"

text \<open>The same for a handler without a bound on the size of the directory.\<close>

definition log_inv :: "nat \<Rightarrow> log_handler \<Rightarrow> bool" where
  "log_inv n h \<longleftrightarrow> day_inv n h \<and> max_total_bytes h \<le> 0"

lemmas log_inv_defs = log_inv_def day_inv_def

text \<open>
  No file was deleted for the total size between two states of a handler: it has no such bound, or it
  is one of the audit log and its counter is as before.
\<close>

definition undeleted :: "log_handler \<Rightarrow> log_handler \<Rightarrow> bool" where
  "undeleted h h' \<longleftrightarrow> max_total_bytes h \<le> 0 \<or> (starts_with ''audit'' (name_prefix h) \<and> disk_full h' = disk_full h)"

lemma without_dir:
  assumes "b \<notin> set ns"
  shows "dir_ok n b d js \<Longrightarrow> dir_ok n b (without ns d) js" and "stream_at p b d \<Longrightarrow> stream_at p b (without ns d)"
  using assms by (auto simp: dir_ok_def no_twins_def job_ok_def stream_at_def split: if_splits)

text \<open>Compression can be undone and nothing refuses to be deleted; or nothing is refused at all.\<close>

definition gz_ok :: "(string \<Rightarrow> string) \<Rightarrow> log_env \<Rightarrow> bool" where
  "gz_ok gunzip env \<longleftrightarrow> (\<forall>s. gunzip (gzip env s) = s) \<and> (\<forall>m. \<not> no_unlink env m)"

definition env_ok :: "(string \<Rightarrow> string) \<Rightarrow> log_env \<Rightarrow> bool" where
  "env_ok gunzip env \<longleftrightarrow> gz_ok gunzip env \<and> env_works env"

lemma compress_job_look:
  assumes "gz_ok gunzip env" and "job_ok b d m"
  obtains (done_one) i f where "1 \<le> i" "m = backup_name b i" "map_of d m = Some f"
      "map_of (compress_file env m d) =
        (map_of d)(gz_name m \<mapsto> \<lparr>content = gzip env (content f), mtime = file_clock env, writers = []\<rparr>, m := None)"
    | (nothing) "\<forall>x \<in> day_names b. map_of (compress_file env m d) x = map_of d x"
proof -
  from assms(2) consider (a) i where "1 \<le> i" "m = backup_name b i" "map_of d (gz_name m) = None"
    | (b) "m \<notin> day_names b" "gz_name m \<notin> day_names b" unfolding job_ok_def by blast
  then show ?thesis
  proof cases
    case a
    show ?thesis
    proof (cases "map_of d m = None \<or> no_gzip env m")
      case True
      then have "map_of (compress_file env m d) = map_of d"
        using a(3) assms(1) by (auto simp: look_compress gz_ok_def fun_eq_iff split: option.splits)
      then have "\<forall>x \<in> day_names b. map_of (compress_file env m d) x = map_of d x" by simp
      then show ?thesis by (rule nothing)
    next
      case False
      then obtain f where "map_of d m = Some f" by auto
      with False a assms(1) show ?thesis by (intro done_one [of i f]) (simp_all add: look_compress gz_ok_def)
    qed
  next
    case b
    then have "\<forall>x \<in> day_names b. map_of (compress_file env m d) x = map_of d x"
      by (auto simp: look_compress split: option.splits bool.splits)
    then show ?thesis by (rule nothing)
  qed
qed

lemma compress_job:
  assumes "gz_ok gunzip env" and "dir_ok n b d (m # ms)"
  shows "dir_ok n b (compress_file env m d) ms" and "slot_content gunzip b (compress_file env m d) = slot_content gunzip b d"
proof -
  let ?d = "compress_file env m d"
  have j: "job_ok b d m" using assms(2) by (simp add: dir_ok_def)
  have "dir_ok n b ?d ms \<and> slot_content gunzip b ?d = slot_content gunzip b d"
    using assms(1) j
  proof (cases rule: compress_job_look)
    case (done_one i f)
    have "map_of d (gz_name m) = None" using j done_one by (auto simp: job_ok_def)
    then have "slot_content gunzip b ?d = slot_content gunzip b d"
      using assms(1) done_one by (auto simp: slot_content_def fun_eq_iff gz_ok_def split: option.splits)
    moreover have "job_ok b ?d m'" if "m' \<in> set ms" for m'
      using that assms(2) done_one by (auto simp: dir_ok_def job_ok_def)
    ultimately show ?thesis using assms(2) done_one by (auto simp: dir_ok_def no_twins_def)
  next
    case nothing
    then have x: "map_of ?d b = map_of d b" "map_of ?d (backup_name b i) = map_of d (backup_name b i)"
      "map_of ?d (gz_name (backup_name b i)) = map_of d (gz_name (backup_name b i))" for i by simp_all
    then show ?thesis using assms(2) by (auto simp: dir_ok_def no_twins_def slot_content_def fun_eq_iff job_ok_def split: option.splits)
  qed
  then show "dir_ok n b ?d ms" and "slot_content gunzip b ?d = slot_content gunzip b d" by blast+
qed

lemma compress_jobs:
  assumes "gz_ok gunzip env"
  shows "dir_ok n b d js \<Longrightarrow> dir_ok n b (foldl (\<lambda>d m. compress_file env m d) d js) [] \<and>
    slot_content gunzip b (foldl (\<lambda>d m. compress_file env m d) d js) = slot_content gunzip b d"
  by (induction js arbitrary: d) (simp_all add: compress_job [OF assms])

text \<open>The directory after a rotation by size.\<close>

definition rotated_dir :: "log_env \<Rightarrow> nat \<Rightarrow> string \<Rightarrow> nat \<Rightarrow> dir \<Rightarrow> dir" where
  "rotated_dir env p b n d = open_append p (file_clock env) b (rename b (backup_name b 1) (snd (shift_down env b n n d)))"

lemma shift_all_works:
  assumes "1 \<le> n" and "no_twins b n d" and "env_works env"
  obtains d' where "shift_down env b n n d = (None, d')" "plain_slots b d' = moved 0 n (plain_slots b d)"
    "gz_slots b d' = moved 0 n (gz_slots b d)" "map_of d' b = map_of d b"
  using shift_all_look [OF assms(1,2), of env] assms(3) that by (auto simp: env_works_def)

lemma rotated_look:
  assumes "1 \<le> n" and "dir_ok n b d js" and "env_works env"
  shows "map_of (rotated_dir env p b n d) b = Some \<lparr>content = [], mtime = file_clock env, writers = [p]\<rparr>"
    and "map_of (rotated_dir env p b n d) (backup_name b i) =
      (if i = 1 then map_of d b else if 2 \<le> i \<and> i \<le> n then map_of d (backup_name b (i - 1)) else map_of d (backup_name b i))"
    and "map_of (rotated_dir env p b n d) (gz_name (backup_name b i)) =
      (if i = 1 then None else if 2 \<le> i \<and> i \<le> n then map_of d (gz_name (backup_name b (i - 1))) else map_of d (gz_name (backup_name b i)))"
proof -
  have t: "no_twins b n d" and f: "map_of d b \<noteq> None" using assms(2) by (auto simp: dir_ok_def)
  obtain d' where s: "shift_down env b n n d = (None, d')" and q: "plain_slots b d' = moved 0 n (plain_slots b d)"
    and g: "gz_slots b d' = moved 0 n (gz_slots b d)" and m: "map_of d' b = map_of d b"
    using shift_all_works [OF assms(1) t assms(3)] .
  note look = fun_cong [OF q, of i] fun_cong [OF g, of i] m f
  show "map_of (rotated_dir env p b n d) b = Some \<lparr>content = [], mtime = file_clock env, writers = [p]\<rparr>"
    using look by (auto simp: rotated_dir_def look_rename s)
  show "map_of (rotated_dir env p b n d) (backup_name b i) =
      (if i = 1 then map_of d b else if 2 \<le> i \<and> i \<le> n then map_of d (backup_name b (i - 1)) else map_of d (backup_name b i))"
    using look by (auto simp: rotated_dir_def look_rename s moved_def)
  show "map_of (rotated_dir env p b n d) (gz_name (backup_name b i)) =
      (if i = 1 then None else if 2 \<le> i \<and> i \<le> n then map_of d (gz_name (backup_name b (i - 1))) else map_of d (gz_name (backup_name b i)))"
    using look by (auto simp: rotated_dir_def look_rename s moved_def)
qed

lemma rotated_slots:
  assumes "1 \<le> n" and "dir_ok n b d js" and "env_works env"
  shows "slot_content gunzip b (rotated_dir env p b n d) = rotate_day n (slot_content gunzip b d)"
proof
  fix i
  show "slot_content gunzip b (rotated_dir env p b n d) i = rotate_day n (slot_content gunzip b d) i"
    using assms(1) by (auto simp: slot_content_def rotate_day_def rotated_look [OF assms] split: option.splits)
qed

lemma rotated_dir_ok:
  assumes "1 \<le> n" and "dir_ok n b d js" and "env_works env"
  shows "dir_ok n b (rotated_dir env p b n d) []" and "dir_ok n b (rotated_dir env p b n d) [backup_name b 1]"
proof -
  have "no_twins b n (rotated_dir env p b n d)"
    unfolding no_twins_def
  proof (intro allI impI)
    fix i :: nat
    assume i: "1 \<le> i \<and> i \<le> n"
    have "i = 1 \<or> map_of d (backup_name b (i - 1)) = None \<or> map_of d (gz_name (backup_name b (i - 1))) = None"
    proof (cases "i = 1")
      case False
      then have "1 \<le> i - 1 \<and> i - 1 \<le> n" using i by arith
      then show ?thesis using assms(2) unfolding dir_ok_def no_twins_def by metis
    qed simp
    then show "map_of (rotated_dir env p b n d) (backup_name b i) = None \<or> map_of (rotated_dir env p b n d) (gz_name (backup_name b i)) = None"
      using i by (auto simp: rotated_look [OF assms])
  qed
  then show "dir_ok n b (rotated_dir env p b n d) []" and "dir_ok n b (rotated_dir env p b n d) [backup_name b 1]"
    by (auto simp: dir_ok_def job_ok_def rotated_look [OF assms])
qed

text \<open>The stream: closing, opening, writing, and what the background thread does.\<close>

lemma close_dir [simp]:
  "dir_ok n b (close_stream p d) js = dir_ok n b d js" "slot_content gunzip b (close_stream p d) = slot_content gunzip b d"
  by (auto simp: dir_ok_def no_twins_def job_ok_def slot_content_def fun_eq_iff option.map_comp comp_def split: option.splits)

lemma no_stream_closed: "no_stream p (close_stream p d)"
  by (auto simp: no_stream_def every_file_def)

lemma no_stream_shift: "no_stream p d \<Longrightarrow> no_stream p (snd (shift_down env b n j d))"
  by (auto simp: no_stream_def)

lemma no_stream_rename: "no_stream p d \<Longrightarrow> no_stream p (rename m m' d)"
  by (auto simp: no_stream_def)

lemma stream_at_open: "no_stream p d \<Longrightarrow> stream_at p b (open_append p now b d)"
  by (auto simp: no_stream_def every_file_def stream_at_def split: option.splits)

lemma open_dir:
  assumes "dir_ok n b d js"
  shows "dir_ok n b (open_append p now b d) js" and "slot_content gunzip b (open_append p now b d) = slot_content gunzip b d"
  using assms by (auto simp: dir_ok_def no_twins_def job_ok_def slot_content_def fun_eq_iff split: option.splits)

lemma write_dir:
  assumes "dir_ok n b d js" and "stream_at p b d"
  shows "dir_ok n b (write_to p now s d) js" and "stream_at p b (write_to p now s d)"
    and "slot_content gunzip b (write_to p now s d) = append_day s (slot_content gunzip b d)"
proof -
  have w: "map_of (write_to p now s d) m = (if m = b then map_option (\<lambda>f. f\<lparr>content := content f @ s, mtime := now\<rparr>) (map_of d b)
      else map_of d m)" for m
    using assms(2) by (cases "map_of d m") (auto simp: stream_at_def)
  show "dir_ok n b (write_to p now s d) js" "stream_at p b (write_to p now s d)"
    using assms by (auto simp: w dir_ok_def no_twins_def job_ok_def stream_at_def)
  show "slot_content gunzip b (write_to p now s d) = append_day s (slot_content gunzip b d)"
    using assms(1) by (auto simp: w dir_ok_def slot_content_def append_day_def fun_eq_iff simp del: look_write split: option.split)
qed

lemma job_not_base: "job_ok b d m \<Longrightarrow> m \<noteq> b \<and> gz_name m \<noteq> b"
  by (auto simp: job_ok_def)

lemma stream_compress:
  assumes "stream_ok opened p b d" and "m \<noteq> b" and "gz_name m \<noteq> b"
  shows "stream_ok opened p b (compress_file env m d)"
proof (cases opened)
  case True
  with assms show ?thesis
    by (auto simp: stream_ok_def stream_at_def look_compress split: option.splits bool.splits if_splits)
next
  case False
  with assms(1) show ?thesis by (auto simp: stream_ok_def no_stream_def)
qed

section \<open>The handler provides the interface\<close>

datatype log_event = Emitted log_env string | Compressed log_env

primrec log_step :: "log_event \<Rightarrow> log_handler \<Rightarrow> log_handler" where
  "log_step (Emitted env msg) h = emit env msg h"
| "log_step (Compressed env) h = gzip_step env h"

primrec event_text :: "log_event \<Rightarrow> string" where
  "event_text (Emitted env msg) = msg @ [newline]"
| "event_text (Compressed env) = []"

primrec event_env :: "log_event \<Rightarrow> log_env" where
  "event_env (Emitted env msg) = env"
| "event_env (Compressed env) = env"

text \<open>The whole of an operation falls on the day.\<close>

definition in_day :: "log_env \<Rightarrow> string \<Rightarrow> bool" where
  "in_day env day \<longleftrightarrow> day_of (stamp env) = day \<and> day_of (stamp_later env) = day"

definition same_day :: "(string \<Rightarrow> string) \<Rightarrow> log_event \<Rightarrow> log_handler \<Rightarrow> bool" where
  "same_day gunzip ev h \<longleftrightarrow> env_ok gunzip (event_env ev) \<and> in_day (event_env ev) (current_date h)"

lemma do_rollover_exact:
  assumes "1 \<le> n" and "day_inv n h" and "env_ok gunzip env" and "in_day env (current_date h)"
  obtains ns where "do_rollover env h = (None, h\<lparr>files := without ns (rotated_dir env (process h) (base_name h) n
        (close_stream (process h) (foldl (\<lambda>d m. compress_file env m d) (files h) (jobs h)))),
      jobs := (if compress h then [backup_name (base_name h) 1] else []), current_bytes := 0, stream_open := True,
      disk_full := disk_full h + (if starts_with ''audit'' (name_prefix h) then length ns else 0)\<rparr>)"
    and "base_name h \<notin> set ns" and "max_total_bytes h \<le> 0 \<longrightarrow> ns = []"
    and "dir_ok n (base_name h) (close_stream (process h) (foldl (\<lambda>d m. compress_file env m d) (files h) (jobs h))) []"
    and "slot_content gunzip (base_name h) (close_stream (process h) (foldl (\<lambda>d m. compress_file env m d) (files h) (jobs h))) = day_view gunzip h"
proof -
  let ?b = "base_name h" and ?d = "close_stream (process h) (foldl (\<lambda>d m. compress_file env m d) (files h) (jobs h))"
  have b: "log_path (name_prefix h) (current_date h) = ?b" and n: "nat (backup_count h) = n"
    and d: "dir_ok n ?b (files h) (jobs h)"
    using assms(2) unfolding day_inv_def by metis+
  have gz: "gz_ok gunzip env" and w: "env_works env" using assms(3) by (simp_all add: env_ok_def)
  from compress_jobs [OF gz d] have ok: "dir_ok n ?b ?d []" and slots: "slot_content gunzip ?b ?d = day_view gunzip h"
    by (simp_all add: day_view_def)
  have "no_twins ?b n ?d" using ok by (simp add: dir_ok_def)
  then obtain d1 where d1: "shift_down env ?b n n ?d = (None, d1)" "map_of d1 ?b = map_of ?d ?b"
    using shift_all_works [OF assms(1) _ w] by blast
  then have ex: "file_exists ?b d1" using ok by (simp add: file_exists_def dir_ok_def)
  let ?h2 = "h\<lparr>jobs := (if compress h then [backup_name ?b 1] else []), stream_open := True,
      files := rotated_dir env (process h) ?b n ?d, current_bytes := 0\<rparr>"
  obtain ns where ns: "cleanup_by_total_size env ?h2 = ?h2\<lparr>files := without ns (files ?h2),
      disk_full := disk_full ?h2 + (if starts_with ''audit'' (name_prefix ?h2) then length ns else 0)\<rparr>"
    "?b \<notin> set ns" "max_total_bytes h \<le> 0 \<longrightarrow> ns = []"
    by (rule cleanup_deletes [of env ?h2]) (auto intro: that)
  have "do_rollover env h = (None, cleanup_by_total_size env ?h2)"
    using ex assms(4) w d1(1)
    by (simp add: do_rollover_def wait_pending_compressions_def shift_backups_def open_base_def
        compress_file_async_def Let_def b n rotated_dir_def in_day_def)
  with ns ok slots show ?thesis by (intro that [of ns]) simp_all
qed

lemma do_rollover_same_day:
  assumes "1 \<le> n" and "day_inv n h" and "env_ok gunzip env" and "in_day env (current_date h)"
  shows "\<exists>d js k. dir_ok n (base_name h) d js \<and> stream_at (process h) (base_name h) d \<and>
    do_rollover env h = (None, h\<lparr>files := d, jobs := js, current_bytes := 0, stream_open := True, disk_full := disk_full h + k\<rparr>) \<and>
    (undeleted h (h\<lparr>disk_full := disk_full h + k\<rparr>) \<longrightarrow> slot_content gunzip (base_name h) d = rotate_day n (day_view gunzip h))"
proof -
  have w: "env_works env" using assms(3) by (simp add: env_ok_def)
  let ?start = "close_stream (process h) (foldl (\<lambda>d m. compress_file env m d) (files h) (jobs h))"
  let ?d = "rotated_dir env (process h) (base_name h) n ?start"
  obtain ns where r: "do_rollover env h = (None, h\<lparr>files := without ns ?d,
      jobs := (if compress h then [backup_name (base_name h) 1] else []), current_bytes := 0, stream_open := True,
      disk_full := disk_full h + (if starts_with ''audit'' (name_prefix h) then length ns else 0)\<rparr>)"
    and b: "base_name h \<notin> set ns" and u: "max_total_bytes h \<le> 0 \<longrightarrow> ns = []"
    and ok: "dir_ok n (base_name h) ?start []" and sl: "slot_content gunzip (base_name h) ?start = day_view gunzip h"
    by (rule do_rollover_exact [OF assms])
  have "stream_at (process h) (base_name h) ?d"
    unfolding rotated_dir_def by (intro stream_at_open no_stream_rename no_stream_shift no_stream_closed)
  with b have "stream_at (process h) (base_name h) (without ns ?d)" by (rule without_dir)
  moreover have "dir_ok n (base_name h) (without ns ?d) (if compress h then [backup_name (base_name h) 1] else [])"
    using rotated_dir_ok [OF assms(1) ok w] without_dir(1) [OF b] by simp
  moreover have "slot_content gunzip (base_name h) (without ns ?d) = rotate_day n (day_view gunzip h)"
    if "undeleted h (h\<lparr>disk_full := disk_full h + (if starts_with ''audit'' (name_prefix h) then length ns else 0)\<rparr>)"
    using that u rotated_slots [OF assms(1) ok w] sl by (auto simp: undeleted_def)
  ultimately show ?thesis using r by blast
qed

lemma should_rollover_shape:
  "\<exists>c. snd (should_rollover env msg h) = h\<lparr>current_bytes := c\<rparr>"
  by (auto simp: should_rollover_def Let_def intro: exI [of _ "current_bytes h"])

lemma should_rollover_True: "fst (should_rollover env msg h) \<Longrightarrow> should_rollover env msg h = (True, h)"
  by (auto simp: should_rollover_def Let_def split: if_splits)

text \<open>The directory a line is written to.\<close>

definition opened_dir :: "log_env \<Rightarrow> log_handler \<Rightarrow> dir" where
  "opened_dir env h = (if stream_open h then files h else open_append (process h) (file_clock env) (base_name h) (files h))"

lemma emit_line_works:
  "env_works env \<Longrightarrow> emit_line env msg h =
    (None, h\<lparr>stream_open := True, files := write_to (process h) (file_clock env) (msg @ [newline]) (opened_dir env h)\<rparr>)"
  by (auto simp: emit_line_def opened_dir_def Let_def)

lemma opened_dir_ok:
  assumes "dir_ok n (base_name h) (files h) js" and "stream_ok (stream_open h) (process h) (base_name h) (files h)"
  shows "dir_ok n (base_name h) (opened_dir env h) js" and "stream_at (process h) (base_name h) (opened_dir env h)"
    and "slot_content gunzip (base_name h) (opened_dir env h) = slot_content gunzip (base_name h) (files h)"
  using assms open_dir [OF assms(1)] stream_at_open by (auto simp: opened_dir_def stream_ok_def)

lemma emit_day:
  assumes "1 \<le> n" and "day_inv n h" and "env_ok gunzip env" and "in_day env (current_date h)"
  shows "day_inv n (emit env msg h)"
    and "undeleted h (emit env msg h) \<Longrightarrow> day_view gunzip (emit env msg h) = append_day (msg @ [newline])
      (if fst (should_rollover env msg h) then rotate_day n (day_view gunzip h) else day_view gunzip h)"
    and "current_bytes (emit env msg h) = (if fst (should_rollover env msg h) then 0 else current_bytes (snd (should_rollover env msg h)))"
    and "max_bytes (emit env msg h) = max_bytes h" and "current_date (emit env msg h) = current_date h"
    and "max_total_bytes (emit env msg h) = max_total_bytes h" and "disk_full h \<le> disk_full (emit env msg h)"
proof -
  let ?b = "base_name h" and ?roll = "fst (should_rollover env msg h)"
  have w: "env_works env" using assms(3) by (simp add: env_ok_def)
  obtain d js c k where e: "emit env msg h =
      h\<lparr>files := write_to (process h) (file_clock env) (msg @ [newline]) d, jobs := js, current_bytes := c, stream_open := True,
        disk_full := disk_full h + k\<rparr>"
    and d: "dir_ok n ?b d js" "stream_at (process h) ?b d"
    and v: "undeleted h (h\<lparr>disk_full := disk_full h + k\<rparr>) \<longrightarrow>
      slot_content gunzip ?b d = (if ?roll then rotate_day n (day_view gunzip h) else day_view gunzip h)"
    and c: "c = (if ?roll then 0 else current_bytes (snd (should_rollover env msg h)))"
  proof (cases ?roll)
    case True
    obtain d js k where r: "dir_ok n ?b d js" "stream_at (process h) ?b d"
      "do_rollover env h = (None, h\<lparr>files := d, jobs := js, current_bytes := 0, stream_open := True, disk_full := disk_full h + k\<rparr>)"
      "undeleted h (h\<lparr>disk_full := disk_full h + k\<rparr>) \<longrightarrow> slot_content gunzip ?b d = rotate_day n (day_view gunzip h)"
      using do_rollover_same_day [OF assms] by blast
    with True w show ?thesis
      by (intro that [where d = d and js = js and c = 0 and k = k]) (simp_all add: emit_def should_rollover_True emit_line_works opened_dir_def)
  next
    case False
    obtain c where r: "should_rollover env msg h = (False, h\<lparr>current_bytes := c\<rparr>)"
      using should_rollover_shape False by (metis prod.collapse)
    have o: "dir_ok n ?b (files h) (jobs h)" "stream_ok (stream_open h) (process h) ?b (files h)"
      using assms(2) by (simp_all add: day_inv_def)
    have "opened_dir env (h\<lparr>current_bytes := c\<rparr>) = opened_dir env h" by (simp add: opened_dir_def)
    with r opened_dir_ok [OF o] w show ?thesis
      by (intro that [where d = "opened_dir env h" and js = "jobs h" and c = c and k = 0])
        (simp_all add: emit_def emit_line_works day_view_def)
  qed
  note wd = write_dir [OF d, where now = "file_clock env" and s = "msg @ [newline]"]
  show "day_inv n (emit env msg h)" using wd(1,2) assms(2) by (simp add: e day_inv_def stream_ok_def)
  show "undeleted h (emit env msg h) \<Longrightarrow> day_view gunzip (emit env msg h) = append_day (msg @ [newline])
      (if fst (should_rollover env msg h) then rotate_day n (day_view gunzip h) else day_view gunzip h)"
    using wd(3) v by (simp add: e day_view_def undeleted_def)
  show "current_bytes (emit env msg h) = (if fst (should_rollover env msg h) then 0 else current_bytes (snd (should_rollover env msg h)))"
    using c by (simp add: e)
  show "max_bytes (emit env msg h) = max_bytes h" and "current_date (emit env msg h) = current_date h"
    and "max_total_bytes (emit env msg h) = max_total_bytes h" and "disk_full h \<le> disk_full (emit env msg h)" by (simp_all add: e)
qed

lemma emit_same_day:
  assumes "1 \<le> n" and "log_inv n h" and "env_ok gunzip env" and "in_day env (current_date h)"
  shows "log_inv n (emit env msg h)"
    and "day_view gunzip (emit env msg h) = append_day (msg @ [newline])
      (if fst (should_rollover env msg h) then rotate_day n (day_view gunzip h) else day_view gunzip h)"
    and "current_bytes (emit env msg h) = (if fst (should_rollover env msg h) then 0 else current_bytes (snd (should_rollover env msg h)))"
    and "max_bytes (emit env msg h) = max_bytes h" and "current_date (emit env msg h) = current_date h"
proof -
  have "day_inv n h" and m: "max_total_bytes h \<le> 0" using assms(2) by (simp_all add: log_inv_def)
  note e = emit_day [OF assms(1) this(1) assms(3,4), of msg]
  show "log_inv n (emit env msg h)" using e(1,6) m by (simp add: log_inv_def)
  show "day_view gunzip (emit env msg h) = append_day (msg @ [newline])
      (if fst (should_rollover env msg h) then rotate_day n (day_view gunzip h) else day_view gunzip h)"
    using e(2) m by (simp add: undeleted_def)
qed (use emit_day [OF assms(1) _ assms(3,4)] assms(2) in \<open>simp_all add: log_inv_def\<close>)

lemma gzip_step_fields:
  "max_bytes (gzip_step env h) = max_bytes h" "current_date (gzip_step env h) = current_date h"
  "current_bytes (gzip_step env h) = current_bytes h" "max_total_bytes (gzip_step env h) = max_total_bytes h"
  "disk_full (gzip_step env h) = disk_full h"
  by (simp_all add: gzip_step_def split: list.split)

lemma gzip_step_day:
  assumes "day_inv n h" and "env_ok gunzip env"
  shows "day_inv n (gzip_step env h)" and "day_view gunzip (gzip_step env h) = day_view gunzip h"
proof -
  have "day_inv n (gzip_step env h) \<and> day_view gunzip (gzip_step env h) = day_view gunzip h"
  proof (cases "jobs h")
    case (Cons m ms)
    have d: "dir_ok n (base_name h) (files h) (m # ms)" and s: "stream_ok (stream_open h) (process h) (base_name h) (files h)"
      using assms(1) Cons by (simp_all add: day_inv_def)
    have "m \<noteq> base_name h" "gz_name m \<noteq> base_name h" using d job_not_base by (auto simp: dir_ok_def)
    note c = compress_job [OF _ d, of gunzip env] stream_compress [OF s this, of env]
    show ?thesis using assms c by (simp add: gzip_step_def Cons day_inv_def day_view_def env_ok_def)
  qed (use assms(1) in \<open>simp add: gzip_step_def\<close>)
  then show "day_inv n (gzip_step env h)" and "day_view gunzip (gzip_step env h) = day_view gunzip h" by blast+
qed

lemma gzip_step_same:
  assumes "log_inv n h" and "env_ok gunzip env"
  shows "log_inv n (gzip_step env h)" and "day_view gunzip (gzip_step env h) = day_view gunzip h"
    and "max_bytes (gzip_step env h) = max_bytes h" and "current_date (gzip_step env h) = current_date h"
    and "current_bytes (gzip_step env h) = current_bytes h"
  using assms by (simp_all add: log_inv_def gzip_step_fields gzip_step_day [where n = n and gunzip = gunzip])

lemma append_nothing [simp]: "append_day [] v = v"
  by (auto simp: append_day_def fun_eq_iff map_option.id [unfolded id_def])

text \<open>Any step of the day, for any bound on the directory.\<close>

definition fills_up :: "log_event \<Rightarrow> log_handler \<Rightarrow> log_handler \<Rightarrow> bool \<Rightarrow> bool" where
  "fills_up ev h h' roll \<longleftrightarrow>
     (if roll then max_bytes h \<le> current_bytes h + int (length (event_text ev)) \<and> current_bytes h' = 0
      else current_bytes h' \<le> current_bytes h + int (length (event_text ev)))"

lemma should_rollover_fills:
  assumes "in_day env (current_date h)" and "0 \<le> current_bytes h"
  shows "if fst (should_rollover env msg h) then max_bytes h \<le> current_bytes h + int (length msg) + 1
    else current_bytes (snd (should_rollover env msg h)) \<le> current_bytes h + int (length msg) + 1 \<and>
      0 \<le> current_bytes (snd (should_rollover env msg h))"
  using assms by (auto simp: should_rollover_def in_day_def Let_def)

lemma log_step_day:
  assumes "1 \<le> n" and "day_inv n h" and "0 \<le> current_bytes h" and "same_day gunzip ev h"
  shows "day_inv n (log_step ev h)" and "0 \<le> current_bytes (log_step ev h)"
    and "max_bytes (log_step ev h) = max_bytes h" and "max_total_bytes (log_step ev h) = max_total_bytes h"
    and "current_date (log_step ev h) = current_date h" and "disk_full h \<le> disk_full (log_step ev h)"
    and "undeleted h (log_step ev h) \<Longrightarrow> \<exists>roll. day_view gunzip (log_step ev h) =
        append_day (event_text ev) (if roll then rotate_day n (day_view gunzip h) else day_view gunzip h) \<and>
      fills_up ev h (log_step ev h) roll"
proof -
  have all: "day_inv n (log_step ev h) \<and> 0 \<le> current_bytes (log_step ev h) \<and>
    max_bytes (log_step ev h) = max_bytes h \<and> max_total_bytes (log_step ev h) = max_total_bytes h \<and>
    current_date (log_step ev h) = current_date h \<and> disk_full h \<le> disk_full (log_step ev h) \<and>
    (undeleted h (log_step ev h) \<longrightarrow> (\<exists>roll. day_view gunzip (log_step ev h) =
        append_day (event_text ev) (if roll then rotate_day n (day_view gunzip h) else day_view gunzip h) \<and>
      fills_up ev h (log_step ev h) roll))"
  proof (cases ev)
    case (Emitted env msg)
    with assms(4) have env: "env_ok gunzip env" "in_day env (current_date h)" by (simp_all add: same_day_def)
    note e = emit_day [OF assms(1,2) env, of msg]
    note f = should_rollover_fills [OF env(2) assms(3), of msg]
    have "fills_up ev h (emit env msg h) (fst (should_rollover env msg h))"
      using e(3) f Emitted by (simp add: fills_up_def split: if_splits)
    moreover have "0 \<le> current_bytes (emit env msg h)" using e(3) f by (simp split: if_splits)
    moreover have "log_step ev h = emit env msg h" "event_text ev = msg @ [newline]" using Emitted by simp_all
    ultimately show ?thesis
      using e by (intro conjI impI exI [of _ "fst (should_rollover env msg h)"]) simp_all
  next
    case (Compressed env)
    with assms(4) have "env_ok gunzip env" by (simp add: same_day_def)
    from gzip_step_day [OF assms(2) this] assms(3) Compressed show ?thesis
      by (auto simp: gzip_step_fields fills_up_def intro: exI [of _ False])
  qed
  then show "day_inv n (log_step ev h)" and "0 \<le> current_bytes (log_step ev h)"
    and "max_bytes (log_step ev h) = max_bytes h" and "max_total_bytes (log_step ev h) = max_total_bytes h"
    and "current_date (log_step ev h) = current_date h" and "disk_full h \<le> disk_full (log_step ev h)"
    and "undeleted h (log_step ev h) \<Longrightarrow> \<exists>roll. day_view gunzip (log_step ev h) =
        append_day (event_text ev) (if roll then rotate_day n (day_view gunzip h) else day_view gunzip h) \<and>
      fills_up ev h (log_step ev h) roll" by blast+
qed

lemma log_step_refines:
  assumes "1 \<le> n" and "log_inv n h" and "same_day gunzip ev h"
  shows "log_inv n (log_step ev h)"
    and "\<exists>roll. day_view gunzip (log_step ev h) = append_day (event_text ev) (if roll then rotate_day n (day_view gunzip h) else day_view gunzip h)"
  using assms emit_same_day [OF assms(1,2)] gzip_step_same [OF assms(2)]
  by (cases ev; force simp: same_day_def)+

definition day_state :: "nat \<Rightarrow> int \<Rightarrow> log_handler \<Rightarrow> bool" where
  "day_state n cap h \<longleftrightarrow> log_inv n h \<and> max_bytes h = cap \<and> 0 \<le> current_bytes h"

interpretation day_log: full_log "day_state (Suc m) cap" "same_day gunzip" log_step event_text "day_view gunzip" "Suc m"
  cap current_bytes for m cap gunzip
proof
  fix h ev
  show "1 \<le> Suc m" by simp
  show "day_state (Suc m) cap h \<Longrightarrow> day_view gunzip h 0 \<noteq> None"
    by (simp add: day_state_def log_inv_defs dir_ok_def day_view_def slot_content_def)
  show "day_state (Suc m) cap h \<Longrightarrow> 0 \<le> current_bytes h" by (simp add: day_state_def)
  assume h: "day_state (Suc m) cap h" and ev: "same_day gunzip ev h"
  then have i: "day_inv (Suc m) h" "0 \<le> current_bytes h" "max_total_bytes h \<le> 0" by (simp_all add: day_state_def log_inv_def)
  note s = log_step_day [OF _ i(1,2) ev]
  show "day_state (Suc m) cap (log_step ev h)" using s(1-4) h by (simp add: day_state_def log_inv_def)
  have "undeleted h (log_step ev h)" by (simp add: undeleted_def i(3))
  then obtain roll where v: "day_view gunzip (log_step ev h) =
        append_day (event_text ev) (if roll then rotate_day (Suc m) (day_view gunzip h) else day_view gunzip h)"
      and f: "fills_up ev h (log_step ev h) roll"
    using s(7) by auto
  show "\<exists>roll. day_view gunzip (log_step ev h) = append_day (event_text ev) (if roll then rotate_day (Suc m) (day_view gunzip h) else day_view gunzip h)"
    using v by (rule exI [of _ roll])
  have "max_bytes h = cap" using h by (simp add: day_state_def)
  with f have "if roll then cap \<le> current_bytes h + int (length (event_text ev)) \<and> current_bytes (log_step ev h) = 0
       else current_bytes (log_step ev h) \<le> current_bytes h + int (length (event_text ev))"
    unfolding fills_up_def by (simp split: if_splits)
  with v show "\<exists>roll. day_view gunzip (log_step ev h) = append_day (event_text ev) (if roll then rotate_day (Suc m) (day_view gunzip h) else day_view gunzip h) \<and>
      (if roll then cap \<le> current_bytes h + int (length (event_text ev)) \<and> current_bytes (log_step ev h) = 0
       else current_bytes (log_step ev h) \<le> current_bytes h + int (length (event_text ev)))"
    by (intro exI [of _ roll] conjI)
qed

end
