(* ===== verification/LogBounds.thy ===== *)
theory LogBounds
  imports LogRotation "HOL-Library.Multiset"
begin

text \<open>
  What the rotation guarantees: from the first start of a day on, the files hold the end of what
  was written, each file is bounded, the retention deletes what it should, and the clean-up by
  total size reaches its bound, oldest first, without touching the active file.
\<close>

section \<open>Retention\<close>

lemma look_retention:
  "map_of (foldl (retention_step p env) d ns) x =
     (if x \<in> set ns \<and> expired p env x \<and> \<not> no_unlink env x then None else map_of d x)"
  by (induction ns arbitrary: d) (auto simp: retention_step_def)

lemma retention_exact:
  "map_of (files (cleanup_old_files env h)) x =
     (if expired (name_prefix h) env x \<and> \<not> no_unlink env x then None else map_of (files h) x)"
  by (auto simp: cleanup_old_files_def look_retention map_of_eq_None_iff)

section \<open>The first start of a day\<close>

definition fresh_day :: "log_env \<Rightarrow> nat \<Rightarrow> string \<Rightarrow> dir \<Rightarrow> bool" where
  "fresh_day env pid p d \<longleftrightarrow> no_stream pid d \<and> (\<forall>x \<in> day_names (log_path p (day_of (stamp env))). map_of d x = None) \<and>
     \<not> expired p env (log_path p (day_of (stamp env))) \<and> \<not> no_stat env (log_path p (day_of (stamp env)))"

lemma init_fresh_any:
  fixes env pid p d n max_b compr mb
  assumes "fresh_day env pid p d" and "1 \<le> n"
  defines "h \<equiv> init_handler env pid p max_b (int n) compr mb d"
  shows "day_inv n h" and "day_view gunzip h = (\<lambda>i. if i = 0 then Some [] else None)"
    and "current_date h = day_of (stamp env)" and "current_bytes h = 0" and "max_bytes h = max_b"
    and "max_total_bytes h = (if mb > 0 then mb * 1024 * 1024 else 0)"
proof -
  let ?b = "log_path p (day_of (stamp env))"
  have none: "map_of d ?b = None" "map_of d (backup_name ?b i) = None" "map_of d (gz_name (backup_name ?b i)) = None" for i
    using assms(1) by (auto simp: fresh_day_def)
  have ex: "\<not> expired p env ?b" "\<not> no_stat env ?b" using assms(1) by (auto simp: fresh_day_def)
  let ?d = "foldl (retention_step p env) (open_append pid (file_clock env) ?b d) (map fst (open_append pid (file_clock env) ?b d))"
  let ?h = "\<lparr>process = pid, name_prefix = p, max_bytes = max_b, backup_count = int n, compress = compr,
      max_total_bytes = (if mb > 0 then mb * 1024 * 1024 else 0),
      current_date = day_of (stamp env), base_name = ?b, current_bytes = 0, stream_open = True, files = ?d, jobs = [], disk_full = 0\<rparr>"
  have "h = cleanup_by_total_size env ?h"
    using none ex by (simp add: h_def init_handler_def Let_def cleanup_old_files_def size_of_def)
  then obtain ns where h: "h = ?h\<lparr>files := without ns (files ?h),
      disk_full := disk_full ?h + (if starts_with ''audit'' (name_prefix ?h) then length ns else 0)\<rparr>" and b: "?b \<notin> set ns"
    using cleanup_deletes [of env ?h] by (metis log_handler.select_convs(8))
  have look: "map_of ?d ?b = Some \<lparr>content = [], mtime = file_clock env, writers = [pid]\<rparr>" "map_of ?d (backup_name ?b i) = None"
    "map_of ?d (gz_name (backup_name ?b i)) = None" for i
    using none ex by (simp_all add: look_retention)
  have "no_stream pid d" using assms(1) by (simp add: fresh_day_def)
  then have "stream_at pid ?b ?d"
    using stream_at_open [of pid d ?b "file_clock env"] by (auto simp: stream_at_def look_retention split: if_splits)
  moreover have "dir_ok n ?b ?d []" by (simp add: dir_ok_def no_twins_def look)
  ultimately show "day_inv n h" using without_dir [OF b] by (simp add: h day_inv_def stream_ok_def)
  show "day_view gunzip h = (\<lambda>i. if i = 0 then Some [] else None)"
    using b by (simp add: h day_view_def slot_content_def look fun_eq_iff)
  show "current_date h = day_of (stamp env)" and "current_bytes h = 0" and "max_bytes h = max_b"
    and "max_total_bytes h = (if mb > 0 then mb * 1024 * 1024 else 0)" by (simp_all add: h)
qed

lemma init_fresh:
  fixes env pid p d n max_b compr
  assumes "fresh_day env pid p d" and "1 \<le> n"
  defines "h \<equiv> init_handler env pid p max_b (int n) compr 0 d"
  shows "log_inv n h" and "day_view gunzip h = (\<lambda>i. if i = 0 then Some [] else None)"
    and "current_date h = day_of (stamp env)" and "current_bytes h = 0" and "max_bytes h = max_b"
  using init_fresh_any [OF assms(1,2), where mb = 0 and max_b = max_b and compr = compr] by (simp_all add: h_def log_inv_def)

section \<open>The size of a file\<close>

text \<open>The record that makes the handler rotate is written but not counted.\<close>

lemma rollover_not_counted:
  assumes "1 \<le> n" and "log_inv n h" and "env_ok gunzip env" and "in_day env (current_date h)"
    and "fst (should_rollover env msg h)"
  shows "current_bytes (emit env msg h) = 0" and "day_view gunzip (emit env msg h) 0 = Some (msg @ [newline])"
  using assms(5) emit_same_day [OF assms(1-4)] by (simp_all add: append_day_def rotate_day_def)

definition sizes_ok :: "nat \<Rightarrow> int \<Rightarrow> (string \<Rightarrow> string) \<Rightarrow> log_handler \<Rightarrow> bool" where
  "sizes_ok n long gunzip h \<longleftrightarrow>
     (\<forall>i c. i \<le> n \<longrightarrow> day_view gunzip h i = Some c \<longrightarrow> int (length c) < max_bytes h + long) \<and>
     (\<forall>c. day_view gunzip h 0 = Some c \<longrightarrow> int (length c) \<le> current_bytes h + long)"

lemma should_rollover_count:
  assumes "max_bytes h > 0" and "\<not> fst (should_rollover env msg h)"
  shows "current_bytes (snd (should_rollover env msg h)) = current_bytes h + int (length msg) + 1"
    and "current_bytes h + int (length msg) + 1 < max_bytes h"
  using assms by (auto simp: should_rollover_def Let_def split: if_splits)

lemma emit_sizes:
  assumes inv: "1 \<le> n" "log_inv n h" and env: "env_ok gunzip env" "in_day env (current_date h)"
    and "sizes_ok n long gunzip h" and "max_bytes h > 0" and "int (length msg) + 1 \<le> long"
  shows "sizes_ok n long gunzip (emit env msg h)"
proof -
  note e = emit_same_day [OF inv env, of msg]
  show ?thesis
  proof (cases "fst (should_rollover env msg h)")
    case True
    have v: "day_view gunzip (emit env msg h) i = (if i = 0 then Some (msg @ [newline]) else rotate_day n (day_view gunzip h) i)" for i
      using e(2) True by (simp add: append_day_def rotate_day_def)
    have "int (length c) < max_bytes h + long"
      if "i \<le> n" "i \<noteq> 0" "rotate_day n (day_view gunzip h) i = Some c" for i c
    proof -
      have "day_view gunzip h (i - 1) = Some c" "i - 1 \<le> n" using that by (simp_all add: rotate_day_def)
      then show ?thesis using assms(5) unfolding sizes_ok_def by blast
    qed
    then show ?thesis
      using assms(6,7) e(3,4) True by (auto simp: sizes_ok_def v split: if_splits)
  next
    case False
    note c = should_rollover_count [OF assms(6) False]
    have v: "day_view gunzip (emit env msg h) i = (if i = 0 then map_option (\<lambda>c. c @ msg @ [newline]) (day_view gunzip h 0) else day_view gunzip h i)" for i
      using e(2) False by (simp add: append_day_def)
    have "int (length c) + int (length msg) + 1 \<le> current_bytes h + int (length msg) + 1 + long" if "day_view gunzip h 0 = Some c" for c
      using assms(5) that by (auto simp: sizes_ok_def)
    then show ?thesis
      using assms(5) c e(3,4) False unfolding sizes_ok_def v by (auto split: if_splits)
  qed
qed

lemma log_step_sizes:
  assumes "1 \<le> n" and "log_inv n h" and "same_day gunzip ev h" and "sizes_ok n long gunzip h" and "max_bytes h > 0"
    and "int (length (event_text ev)) \<le> long"
  shows "sizes_ok n long gunzip (log_step ev h)" and "max_bytes (log_step ev h) = max_bytes h"
    and "current_date (log_step ev h) = current_date h"
proof -
  have "sizes_ok n long gunzip (log_step ev h) \<and> max_bytes (log_step ev h) = max_bytes h \<and> current_date (log_step ev h) = current_date h"
  proof (cases ev)
    case (Emitted env msg)
    with assms(3,6) have "env_ok gunzip env" "in_day env (current_date h)" "int (length msg) + 1 \<le> long"
      by (simp_all add: same_day_def)
    then show ?thesis
      using Emitted emit_sizes [OF assms(1,2) _ _ assms(4,5)] emit_same_day(4,5) [OF assms(1,2)] by simp
  next
    case (Compressed env)
    with assms(3) have "env_ok gunzip env" by (simp add: same_day_def)
    from gzip_step_same [OF assms(2) this] assms(4) Compressed show ?thesis
      unfolding sizes_ok_def by simp
  qed
  then show "sizes_ok n long gunzip (log_step ev h)" and "max_bytes (log_step ev h) = max_bytes h"
    and "current_date (log_step ev h) = current_date h" by blast+
qed

lemma run_sizes:
  assumes "1 \<le> n"
  shows "log_inv n h \<Longrightarrow> all_ok (same_day gunzip) log_step es h \<Longrightarrow> sizes_ok n long gunzip h \<Longrightarrow> max_bytes h > 0 \<Longrightarrow>
    \<forall>ev \<in> set es. int (length (event_text ev)) \<le> long \<Longrightarrow>
    sizes_ok n long gunzip (fold log_step es h) \<and> max_bytes (fold log_step es h) = max_bytes h"
proof (induction es arbitrary: h)
  case (Cons ev es)
  then show ?case
    using log_step_sizes [OF assms Cons.prems(1), of gunzip ev long] log_step_refines(1) [OF assms Cons.prems(1), of gunzip ev]
    by simp
qed simp

section \<open>A day of the log\<close>

definition rolls :: "log_event \<Rightarrow> log_handler \<Rightarrow> bool" where
  "rolls ev h = (case ev of Emitted env msg \<Rightarrow> fst (should_rollover env msg h) | Compressed env \<Rightarrow> False)"

text \<open>C7: the handler implements the abstract log of a day: writing a record appends its line to the current
  text, after a rotation exactly when the rollover test says so, which moves every text one number up
  and drops only the last; and compressing in the background, at whatever moment, changes nothing of it.\<close>

theorem handler_refines_day_log:
  assumes "1 \<le> n" and "log_inv n h" and "env_ok gunzip (event_env ev)" and "in_day (event_env ev) (current_date h)"
  shows "log_inv n (log_step ev h) \<and>
    day_view gunzip (log_step ev h) =
      append_day (event_text ev) (if rolls ev h then rotate_day n (day_view gunzip h) else day_view gunzip h)"
  using assms emit_same_day(1,2) [OF assms(1,2)] gzip_step_same(1,2) [OF assms(2)]
  by (cases ev) (simp_all add: rolls_def)

definition sample_log_env :: log_env where
  "sample_log_env = \<lparr>stamp = ''2026-03-06 10:00:00'', stamp_later = ''2026-03-06 10:00:00'', file_clock = 1, cutoff = ''20260227'', gzip = (\<lambda>s. s),
     no_unlink = (\<lambda>_. False), no_stat = (\<lambda>_. False), no_gzip = (\<lambda>_. False),
     no_rename = (\<lambda>_. False), no_open = (\<lambda>_. False)\<rparr>"

lemma sample_log_env_ok: "env_ok (\<lambda>s. s) sample_log_env"
  by (simp add: env_ok_def gz_ok_def env_works_def sample_log_env_def)

lemma sample_in_day: "in_day sample_log_env (day_of (stamp sample_log_env))"
  by (simp add: in_day_def sample_log_env_def)

lemma sample_fresh: "fresh_day sample_log_env 7 ''redgw'' []"
  by (simp add: fresh_day_def no_stream_def every_file_def) code_simp

definition sample_handler :: log_handler where
  "sample_handler = init_handler sample_log_env 7 ''redgw'' 10 1 True 0 []"

theorem handler_refines_day_log_witness:
  "day_view (\<lambda>s. s) (log_step (Emitted sample_log_env ''boot'') sample_handler) 0 = Some (''boot'' @ [newline])"
proof -
  have h: "log_inv 1 sample_handler" "day_of (stamp sample_log_env) = current_date sample_handler"
    "day_view (\<lambda>s. s) sample_handler = (\<lambda>i. if i = 0 then Some [] else None)"
    using init_fresh(1-3) [OF sample_fresh, where n = 1 and max_b = 10 and compr = True] by (simp_all add: sample_handler_def)
  show ?thesis
    using handler_refines_day_log [OF _ h(1), of "\<lambda>s. s" "Emitted sample_log_env ''boot''"] h sample_log_env_ok sample_in_day
    by (simp add: append_day_def rotate_day_def)
qed

lemma log_step_date:
  assumes "1 \<le> n" and "log_inv n h" and "same_day gunzip ev h"
  shows "current_date (log_step ev h) = current_date h"
  using assms emit_same_day(5) [OF assms(1,2)] gzip_step_same(4) [OF assms(2)]
  by (cases ev) (auto simp: same_day_def)

lemma day_run_ok:
  assumes "1 \<le> n"
  shows "log_inv n h \<Longrightarrow> \<forall>ev \<in> set es. env_ok gunzip (event_env ev) \<and> in_day (event_env ev) (current_date h) \<Longrightarrow>
    all_ok (same_day gunzip) log_step es h"
proof (induction es arbitrary: h)
  case (Cons ev es)
  then have ok: "same_day gunzip ev h" by (simp add: same_day_def)
  with log_step_date [OF assms Cons.prems(1) ok] log_step_refines(1) [OF assms Cons.prems(1) ok] Cons
  show ?case by simp
qed simp

text \<open>C8: from the first start of a day on, with any records and any progress of the compression, the files
  of the day hold, in order, the end of all that was written: only whole oldest backups are given up, and
  none before the files of all \<open>n + 1\<close> numbers together hold \<open>n\<close> times the configured size; and
  no file reaches the configured size plus the longest line.\<close>

theorem day_log_kept:
  assumes "1 \<le> n" and "0 < max_b" and "fresh_day env pid p d"
    and "\<forall>ev \<in> set es. env_ok gunzip (event_env ev) \<and> in_day (event_env ev) (day_of (stamp env))"
    and "\<forall>ev \<in> set es. length (event_text ev) \<le> long"
    and "h = fold log_step es (init_handler env pid p max_b (int n) compr 0 d)"
  shows "(\<exists>old. old @ kept n (day_view gunzip h) = concat (map event_text es) \<and>
      (old = [] \<or> int n * max_b \<le> int (length (kept n (day_view gunzip h))))) \<and>
    (\<forall>i \<le> n. \<forall>c. day_view gunzip h i = Some c \<longrightarrow> int (length c) < max_b + int long)"
proof -
  let ?h = "init_handler env pid p max_b (int n) compr 0 d"
  note i = init_fresh [OF assms(3,1), where max_b = max_b and compr = compr]
  have ok: "all_ok (same_day gunzip) log_step es ?h" using day_run_ok [OF assms(1) i(1)] assms(4) i(3) by simp
  obtain m where n: "n = Suc m" using assms(1) by (cases n) auto
  have st: "day_state (Suc m) max_b ?h" using i(1,4,5) by (simp add: day_state_def n)
  have k: "kept k (\<lambda>i. if i = 0 then Some [] else None) = []" for k by (induction k) (simp_all add: slot_text_def)
  have "day_log.tight gunzip m max_b ?h"
    unfolding day_log.tight_def i(2) using i(4) by (simp del: kept.simps)
  from day_log.run_full [OF st ok this]
  have "\<exists>old. old @ kept n (day_view gunzip h) = concat (map event_text es) \<and>
      (old = [] \<or> int n * max_b \<le> int (length (kept n (day_view gunzip h))))"
    using k unfolding assms(6) by (simp add: i(2) del: kept.simps flip: n)
  moreover have "sizes_ok n (int long) gunzip ?h"
    using assms(2) i(4,5) by (simp add: sizes_ok_def i(2))
  with run_sizes [OF assms(1) i(1) ok] assms(2,5) i(5)
  have "sizes_ok n (int long) gunzip h \<and> max_bytes h = max_b" by (simp add: assms(6))
  ultimately show ?thesis by (auto simp: sizes_ok_def)
qed

theorem day_log_kept_witness:
  "let h = fold log_step [Emitted sample_log_env ''first'', Emitted sample_log_env ''second'',
      Compressed sample_log_env, Emitted sample_log_env ''third''] sample_handler
   in \<exists>old. old @ kept 1 (day_view (\<lambda>s. s) h) = ''first'' @ [newline] @ ''second'' @ [newline] @ ''third'' @ [newline] \<and>
      (old = [] \<or> 10 \<le> length (kept 1 (day_view (\<lambda>s. s) h)))"
proof -
  let ?es = "[Emitted sample_log_env ''first'', Emitted sample_log_env ''second'', Compressed sample_log_env, Emitted sample_log_env ''third'']"
  have "\<forall>ev \<in> set ?es. env_ok (\<lambda>s. s) (event_env ev) \<and> in_day (event_env ev) (day_of (stamp sample_log_env))"
    by (simp add: sample_log_env_ok sample_in_day)
  from day_log_kept [OF _ _ sample_fresh this _ refl, where n = 1 and max_b = 10 and long = 7 and compr = True]
  show ?thesis by (simp add: sample_handler_def Let_def del: kept.simps)
qed

section \<open>The size of the directory\<close>

definition other_names :: "string \<Rightarrow> archive_entry list \<Rightarrow> string list" where
  "other_names a es = filter (\<lambda>n. n \<noteq> a) (map fst es)"

lemma entries_size_simps [simp]:
  "entries_size [] = 0" "entries_size ((n, sz, mt) # es) = int sz + entries_size es"
  by (simp_all add: entries_size_def)

lemma entries_size_append: "entries_size (xs @ ys) = entries_size xs + entries_size ys"
  by (simp add: entries_size_def)

lemma entries_size_mset: "mset xs = mset ys \<Longrightarrow> entries_size xs = entries_size ys"
proof -
  assume "mset xs = mset ys"
  then have "mset (map (\<lambda>(n, sz, mt). int sz) xs) = mset (map (\<lambda>(n, sz, mt). int sz) ys)" by simp
  then show ?thesis unfolding entries_size_def by (metis sum_mset_sum_list)
qed

lemma entries_size_split: "entries_size es = entries_size (filter P es) + entries_size (filter (\<lambda>x. \<not> P x) es)"
  by (induction es) (auto simp: entries_size_def)

lemma unlink_filter: "unlink n d = filter (\<lambda>(k, f). k \<noteq> n) d"
  by (induction d) (auto simp: unlink_def)

lemma look_unlinks: "foldl (\<lambda>d n. unlink n d) d ns = filter (\<lambda>(k, f). k \<notin> set ns) d"
proof (induction ns arbitrary: d)
  case (Cons n ns)
  show ?case using Cons [of "unlink n d"] by (simp add: unlink_filter case_prod_beta)
qed (simp add: case_prod_beta)

text \<open>The loop deletes a first part of the entries, the active file apart.\<close>

lemma total_size_loop_spec:
  assumes "\<forall>n. \<not> no_unlink env n"
  shows "\<exists>es1 es2. es = es1 @ es2 \<and>
    total_size_loop env a limit es tot deleted d =
      (deleted + length (other_names a es1), foldl (\<lambda>d n. unlink n d) d (other_names a es1)) \<and>
    (es2 = [] \<or> tot - entries_size (filter (\<lambda>e. fst e \<noteq> a) es1) \<le> limit)"
proof (induction es arbitrary: tot deleted d)
  case Nil
  then show ?case by (simp add: other_names_def)
next
  case (Cons e es)
  obtain n sz mt where e: "e = (n, sz, mt)" by (cases e)
  consider (stop) "tot \<le> limit" | (active) "\<not> tot \<le> limit" "n = a" | (delete) "\<not> tot \<le> limit" "n \<noteq> a" by blast
  then show ?case
  proof cases
    case stop
    then show ?thesis by (intro exI [of _ "[]"] exI [of _ "e # es"]) (simp add: e other_names_def)
  next
    case active
    from Cons.IH [of tot deleted d] obtain es1 es2 where
      "es = es1 @ es2" "total_size_loop env a limit es tot deleted d =
        (deleted + length (other_names a es1), foldl (\<lambda>d n. unlink n d) d (other_names a es1))"
      "es2 = [] \<or> tot - entries_size (filter (\<lambda>e. fst e \<noteq> a) es1) \<le> limit" by blast
    with active show ?thesis by (intro exI [of _ "e # es1"] exI [of _ es2]) (simp add: e other_names_def)
  next
    case delete
    from Cons.IH [of "tot - int sz" "deleted + 1" "unlink n d"] obtain es1 es2 where
      "es = es1 @ es2" "total_size_loop env a limit es (tot - int sz) (deleted + 1) (unlink n d) =
        (deleted + 1 + length (other_names a es1), foldl (\<lambda>d n. unlink n d) (unlink n d) (other_names a es1))"
      "es2 = [] \<or> tot - int sz - entries_size (filter (\<lambda>e. fst e \<noteq> a) es1) \<le> limit" by blast
    with delete assms show ?thesis
      by (intro exI [of _ "e # es1"] exI [of _ es2]) (simp add: e other_names_def algebra_simps)
  qed
qed

lemma archive_entries_mem:
  assumes "distinct (map fst (files h))" and "\<forall>n. \<not> no_stat env n"
  shows "(n, sz, mt) \<in> set (archive_entries env h) \<longleftrightarrow>
    (\<exists>f. map_of (files h) n = Some f \<and> archive_matches (name_prefix h) n \<and> sz = length (content f) \<and> mt = mtime f)"
  using assms by (force simp: archive_entries_def)

lemma archive_entries_names: "distinct (map fst (files h)) \<Longrightarrow> distinct (map fst (archive_entries env h))"
proof -
  assume "distinct (map fst (files h))"
  moreover have "map fst (archive_entries env h) = map fst (filter (\<lambda>(n, f). archive_matches (name_prefix h) n \<and> \<not> no_stat env n) (files h))"
    by (simp add: archive_entries_def case_prod_beta comp_def)
  ultimately show ?thesis by (simp add: distinct_map_filter)
qed

lemma archive_entries_without:
  "archive_entries env (h\<lparr>files := filter (\<lambda>(k, f). k \<notin> ns) (files h)\<rparr>) = filter (\<lambda>e. fst e \<notin> ns) (archive_entries env h)"
  by (simp add: archive_entries_def filter_map comp_def case_prod_beta conj_commute)

lemma removed_entries:
  assumes "distinct (map fst (es1 @ es2))"
  shows "filter (\<lambda>e. fst e \<in> set (other_names a es1)) (es1 @ es2) = filter (\<lambda>e. fst e \<noteq> a) es1"
proof -
  have "filter (\<lambda>e. fst e \<in> set (other_names a es1)) es2 = []"
    using assms by (auto simp: other_names_def filter_empty_conv)
  moreover have "filter (\<lambda>e. fst e \<in> set (other_names a es1)) es1 = filter (\<lambda>e. fst e \<noteq> a) es1"
    by (rule filter_cong) (auto simp: other_names_def)
  ultimately show ?thesis by simp
qed

lemma removed_count:
  assumes "distinct (map fst d)" and "distinct ns" and "set ns \<subseteq> fst ` set d"
  shows "length d = length (filter (\<lambda>(k, f). k \<notin> set ns) d) + length ns"
proof -
  have "set (map fst (filter (\<lambda>x. fst x \<in> set ns) d)) = set ns" using assms(3) by force
  moreover have "distinct (map fst (filter (\<lambda>x. fst x \<in> set ns) d))" using assms(1) by (rule distinct_map_filter)
  ultimately have "length (filter (\<lambda>x. fst x \<in> set ns) d) = length ns"
    using assms(2) by (metis distinct_card length_map)
  then show ?thesis using sum_length_filter_compl [of "\<lambda>x. fst x \<in> set ns" d] by (simp add: case_prod_unfold)
qed

lemma cleanup_total_shape:
  assumes "\<forall>n. \<not> no_unlink env n" and "\<forall>n. \<not> no_stat env n" and "distinct (map fst (files h))"
    and "0 < max_total_bytes h" and "max_total_bytes h < entries_size (archive_entries env h)"
  obtains es1 es2 where "mset (es1 @ es2) = mset (archive_entries env h)" and "sorted (map (\<lambda>(n, sz, mt). mt) (es1 @ es2))"
    and "cleanup_by_total_size env h = h\<lparr>files := filter (\<lambda>(k, f). k \<notin> set (other_names (base_name h) es1)) (files h),
      disk_full := disk_full h + (if starts_with ''audit'' (name_prefix h) then length (other_names (base_name h) es1) else 0)\<rparr>"
    and "es2 = [] \<or> entries_size (archive_entries env h) - entries_size (filter (\<lambda>e. fst e \<noteq> base_name h) es1) \<le> max_total_bytes h"
proof -
  let ?es = "archive_entries env h"
  from total_size_loop_spec [OF assms(1), of "sort_key (\<lambda>(n, sz, mt). mt) ?es" "base_name h" "max_total_bytes h" "entries_size ?es" 0 "files h"]
  obtain es1 es2 where s: "sort_key (\<lambda>(n, sz, mt). mt) ?es = es1 @ es2"
    and run: "total_size_loop env (base_name h) (max_total_bytes h) (sort_key (\<lambda>(n, sz, mt). mt) ?es) (entries_size ?es) 0 (files h) =
      (length (other_names (base_name h) es1), filter (\<lambda>(k, f). k \<notin> set (other_names (base_name h) es1)) (files h))"
    and lim: "es2 = [] \<or> entries_size ?es - entries_size (filter (\<lambda>e. fst e \<noteq> base_name h) es1) \<le> max_total_bytes h"
    unfolding look_unlinks add_0 by blast
  have "mset (es1 @ es2) = mset ?es" and "sorted (map (\<lambda>(n, sz, mt). mt) (es1 @ es2))"
    using mset_sort [of "\<lambda>(n, sz, mt). mt" ?es] sorted_sort_key [of "\<lambda>(n, sz, mt). mt" ?es] unfolding s by simp_all
  moreover have "cleanup_by_total_size env h = h\<lparr>files := filter (\<lambda>(k, f). k \<notin> set (other_names (base_name h) es1)) (files h),
      disk_full := disk_full h + (if starts_with ''audit'' (name_prefix h) then length (other_names (base_name h) es1) else 0)\<rparr>"
    using assms(4,5) run by (simp add: cleanup_by_total_size_def Let_def)
  ultimately show ?thesis using lim by (rule that)
qed

lemma archive_entry_name: "e \<in> set (archive_entries env h) \<Longrightarrow> fst e \<in> fst ` set (files h)"
  by (auto simp: archive_entries_def) force

lemma look_filter: "map_of (filter (\<lambda>(k, f). k \<notin> D) d) x = (if x \<in> D then None else map_of d x)"
  by (induction d) auto

text \<open>The size that is left once the entries \<open>es1\<close> are gone, and the order in which they went.\<close>

lemma left_after_removal:
  assumes "distinct (map fst (es1 @ es2))" and "mset (es1 @ es2) = mset es"
    and "es2 = [] \<or> entries_size es - entries_size (filter (\<lambda>e. fst e \<noteq> a) es1) \<le> limit"
    and "es' = filter (\<lambda>e. fst e \<notin> set (other_names a es1)) es"
  shows "entries_size es' \<le> limit \<or> (\<forall>e \<in> set es'. fst e = a)"
proof (cases "es2 = []")
  case True
  with mset_eq_setD [OF assms(2)] have "set es = set es1" by simp
  then have "\<forall>e \<in> set es'. fst e = a" by (force simp: assms(4) other_names_def)
  then show ?thesis ..
next
  case False
  have "entries_size es = entries_size (filter (\<lambda>e. fst e \<in> set (other_names a es1)) es) + entries_size es'"
    unfolding assms(4) by (rule entries_size_split)
  moreover have "entries_size (filter (\<lambda>e. fst e \<in> set (other_names a es1)) es) = entries_size (filter (\<lambda>e. fst e \<noteq> a) es1)"
    using assms(2) removed_entries [OF assms(1), of a] by (metis entries_size_mset mset_filter)
  ultimately show ?thesis using assms(3) False by linarith
qed

lemma oldest_removed:
  assumes d: "distinct (map fst (files h))" and st: "\<forall>n. \<not> no_stat env n"
    and es: "set (archive_entries env h) = set es1 \<union> set es2" and srt: "sorted (map (\<lambda>(n, sz, mt). mt) (es1 @ es2))"
    and n: "map_of (files h) n = Some f" "n \<in> set (other_names a es1)"
  shows "archive_matches (name_prefix h) n \<and>
    (\<forall>m g. map_of (files h) m = Some g \<and> archive_matches (name_prefix h) m \<and> m \<noteq> a \<and> m \<notin> set (other_names a es1) \<longrightarrow>
      mtime f \<le> mtime g)"
proof -
  from n(2) obtain sz mt where e: "(n, sz, mt) \<in> set es1" by (auto simp: other_names_def)
  then have am: "archive_matches (name_prefix h) n" "mt = mtime f"
    using archive_entries_mem [OF d st, of n sz mt] n(1) es by auto
  moreover have "mtime f \<le> mtime g"
    if "map_of (files h) m = Some g" "archive_matches (name_prefix h) m" "m \<noteq> a" "m \<notin> set (other_names a es1)" for m g
  proof -
    have "(m, length (content g), mtime g) \<in> set (archive_entries env h)" using archive_entries_mem [OF d st] that by blast
    then have "(m, length (content g), mtime g) \<in> set es2" using es that(3,4) by (force simp: other_names_def)
    then show ?thesis using srt e am(2) by (force simp: sorted_append)
  qed
  ultimately show ?thesis by blast
qed

text \<open>C20: after the clean-up by total size the archives of the directory fit the bound, unless the active
  file is all that is left; the active file is untouched; only archives are deleted, and none that is
  newer than one that is kept; and for the audit log every deleted file is counted.\<close>

theorem total_size_bounded:
  assumes "\<forall>n. \<not> no_unlink env n" and "\<forall>n. \<not> no_stat env n" and "distinct (map fst (files h))"
    and "0 < max_total_bytes h" and "h' = cleanup_by_total_size env h"
  shows "(entries_size (archive_entries env h') \<le> max_total_bytes h \<or>
      (\<forall>e \<in> set (archive_entries env h'). fst e = base_name h)) \<and>
    map_of (files h') (base_name h) = map_of (files h) (base_name h) \<and>
    (\<forall>n f. map_of (files h) n = Some f \<and> map_of (files h') n = None \<longrightarrow> archive_matches (name_prefix h) n \<and>
      (\<forall>m g. map_of (files h') m = Some g \<and> archive_matches (name_prefix h) m \<and> m \<noteq> base_name h \<longrightarrow> mtime f \<le> mtime g)) \<and>
    (starts_with ''audit'' (name_prefix h) \<longrightarrow> disk_full h' + length (files h') = disk_full h + length (files h))"
proof (cases "max_total_bytes h < entries_size (archive_entries env h)")
  case False
  then have "h' = h" using assms(4,5) by (simp add: cleanup_by_total_size_def)
  with False show ?thesis by auto
next
  case True
  let ?es = "archive_entries env h" and ?a = "base_name h"
  from cleanup_total_shape [OF assms(1-4) True] obtain es1 es2 where
    perm: "mset (es1 @ es2) = mset ?es" and srt: "sorted (map (\<lambda>(n, sz, mt). mt) (es1 @ es2))"
    and h': "h' = h\<lparr>files := filter (\<lambda>(k, f). k \<notin> set (other_names ?a es1)) (files h),
      disk_full := disk_full h + (if starts_with ''audit'' (name_prefix h) then length (other_names ?a es1) else 0)\<rparr>"
    and lim: "es2 = [] \<or> entries_size ?es - entries_size (filter (\<lambda>e. fst e \<noteq> ?a) es1) \<le> max_total_bytes h"
    unfolding assms(5) by blast
  let ?D = "set (other_names ?a es1)"
  have st: "set ?es = set es1 \<union> set es2" using mset_eq_setD [OF perm] by simp
  have dn: "distinct (map fst (es1 @ es2))"
    using archive_entries_names [OF assms(3), of env] perm by (metis mset_eq_imp_distinct_iff mset_map)
  have es': "archive_entries env h' = filter (\<lambda>e. fst e \<notin> ?D) ?es"
    using archive_entries_without [where env = env and h = h and ns = ?D] by (simp add: h' archive_entries_def)
  have look: "map_of (files h') x = (if x \<in> ?D then None else map_of (files h) x)" for x
    by (simp add: h' look_filter)
  have old: "archive_matches (name_prefix h) n \<and>
      (\<forall>m g. map_of (files h') m = Some g \<and> archive_matches (name_prefix h) m \<and> m \<noteq> ?a \<longrightarrow> mtime f \<le> mtime g)"
    if n: "map_of (files h) n = Some f" "map_of (files h') n = None" for n f
    using oldest_removed [OF assms(3,2) st srt n(1), of ?a] n look by (auto split: if_splits)
  have "?D \<subseteq> fst ` set ?es" using st by (auto simp: other_names_def)
  then have "?D \<subseteq> fst ` set (files h)" using archive_entry_name by fastforce
  moreover have "distinct (other_names ?a es1)" using dn by (simp add: other_names_def)
  ultimately have "length (files h) = length (files h') + length (other_names ?a es1)"
    using removed_count [OF assms(3)] by (simp add: h')
  then have cnt: "starts_with ''audit'' (name_prefix h) \<longrightarrow> disk_full h' + length (files h') = disk_full h + length (files h)"
    by (simp add: h')
  have act: "map_of (files h') ?a = map_of (files h) ?a" using look by (simp add: other_names_def)
  show ?thesis
  proof (intro conjI)
    show "entries_size (archive_entries env h') \<le> max_total_bytes h \<or> (\<forall>e \<in> set (archive_entries env h'). fst e = ?a)"
      by (rule left_after_removal [OF dn perm lim es'])
    show "map_of (files h') ?a = map_of (files h) ?a" by (rule act)
    show "starts_with ''audit'' (name_prefix h) \<longrightarrow> disk_full h' + length (files h') = disk_full h + length (files h)" by (rule cnt)
  qed (use old in blast)
qed

theorem total_size_bounded_witness:
  "let env = sample_log_env; f = (\<lambda>t. \<lparr>content = ''0123456789'', mtime = t, writers = []\<rparr>);
       h = sample_handler\<lparr>name_prefix := ''audit'', base_name := ''audit.20260306.log'', max_total_bytes := 15,
         files := [(''audit.20260306.log.1.gz'', f 2), (''audit.20260306.log'', f 3), (''audit.20260305.log.gz'', f 1)]\<rparr>
   in map_of (files (cleanup_by_total_size env h)) ''audit.20260306.log'' = Some (f 3)"
proof -
  let ?f = "\<lambda>t. \<lparr>content = ''0123456789'', mtime = t, writers = []\<rparr>"
  let ?h = "sample_handler\<lparr>name_prefix := ''audit'', base_name := ''audit.20260306.log'', max_total_bytes := 15,
         files := [(''audit.20260306.log.1.gz'', ?f 2), (''audit.20260306.log'', ?f 3), (''audit.20260305.log.gz'', ?f 1)]\<rparr>"
  have "\<forall>n. \<not> no_unlink sample_log_env n" "\<forall>n. \<not> no_stat sample_log_env n" "distinct (map fst (files ?h))" "0 < max_total_bytes ?h"
    by (simp_all add: sample_log_env_def)
  from total_size_bounded [OF this refl] show ?thesis by simp
qed

end
