(* ===== verification/LogFailures.thy ===== *)
theory LogFailures
  imports LogBounds
begin

text \<open>
  What a rotation that fails leaves behind: a rename or the opening of the new file raises, the
  exception ends in \<open>handleError\<close>, and the record is dropped. The texts that were kept are kept, but
  for the oldest backup, and the next record that meets no obstacle is written. A rename that keeps
  failing costs a backup with every record.
\<close>

section \<open>A shift that comes to its end\<close>

definition renames_but :: "string \<Rightarrow> log_env \<Rightarrow> bool" where
  "renames_but b env \<longleftrightarrow> (\<forall>m. m \<noteq> b \<longrightarrow> \<not> no_rename env m) \<and> (\<forall>m. \<not> no_unlink env m)"

lemma renames_but_works: "env_works env \<Longrightarrow> renames_but b env"
  by (simp add: renames_but_def env_works_def)

lemma shift_down_ends: "renames_but b env \<Longrightarrow> fst (shift_down env b n j d) = None"
proof (induction j arbitrary: d)
  case (Suc j)
  then have "fst (shift_one env b n (Suc j) d) = None"
    by (auto simp: shift_one_def renames_but_def rename_file_def unlink_missing_ok_def Let_def)
  with Suc show ?case by (metis and_then_simps(1) prod.collapse shift_down.simps(2))
qed simp

section \<open>The slots after a failure\<close>

lemma slot_content_pos: "1 \<le> i \<Longrightarrow> slot_content gunzip b d i =
    (case gz_slots b d i of Some f \<Rightarrow> Some (gunzip (content f)) | None \<Rightarrow> map_option content (plain_slots b d i))"
  by (simp add: slot_content_def)

lemma slots_moved:
  assumes "plain_slots b d' = moved k n (plain_slots b d)" and "gz_slots b d' = moved k n (gz_slots b d)" and "map_of d' b = map_of d b"
  shows "slot_content gunzip b d' = (\<lambda>i. if i = 0 then slot_content gunzip b d 0 else moved k n (slot_content gunzip b d) i)"
proof
  fix i
  show "slot_content gunzip b d' i = (if i = 0 then slot_content gunzip b d 0 else moved k n (slot_content gunzip b d) i)"
  proof (cases "i = 0")
    case True
    with assms(3) show ?thesis by (simp add: slot_content_def)
  next
    case False
    with fun_cong [OF assms(1), of i] fun_cong [OF assms(2), of i] show ?thesis
      by (auto simp: slot_content_pos moved_def split: option.split)
  qed
qed

text \<open>The state a same-day rotation by size leaves when it raises.\<close>

definition after_failure :: "log_env \<Rightarrow> log_handler \<Rightarrow> dir \<Rightarrow> string list \<Rightarrow> log_handler" where
  "after_failure env h d js = h\<lparr>stream_open := False, files := d, jobs := js\<rparr>"

lemma failed_rollover:
  assumes "1 \<le> n" and "log_inv n h" and "gz_ok gunzip env" and "in_day env (current_date h)" and "fst (do_rollover env h) = Some x"
  shows "\<exists>d js. snd (do_rollover env h) = after_failure env h d js \<and>
    ((\<exists>k < n. slot_content gunzip (base_name h) d = (\<lambda>i. if i = 0 then day_view gunzip h 0 else moved k n (day_view gunzip h) i)) \<or>
     slot_content gunzip (base_name h) d = (rotate_day n (day_view gunzip h))(0 := None))"
proof -
  let ?b = "base_name h" and ?d = "close_stream (process h) (foldl (\<lambda>d m. compress_file env m d) (files h) (jobs h))"
  have b: "log_path (name_prefix h) (current_date h) = ?b" and n: "nat (backup_count h) = n"
    and d: "dir_ok n ?b (files h) (jobs h)"
    using assms(2) unfolding log_inv_defs by metis+
  from compress_jobs [OF assms(3) d] have ok: "dir_ok n ?b ?d []" and slots: "slot_content gunzip ?b ?d = day_view gunzip h"
    by (simp_all add: day_view_def)
  have nu: "\<forall>m. \<not> no_unlink env m" and tw: "no_twins ?b n ?d" using assms(3) ok by (simp_all add: gz_ok_def dir_ok_def)
  obtain k r d1 where s: "shift_down env ?b n n ?d = (r, d1)" "k < n" "r = None \<longrightarrow> k = 0"
    and p: "plain_slots ?b d1 = moved k n (plain_slots ?b ?d)" "gz_slots ?b d1 = moved k n (gz_slots ?b ?d)" "map_of d1 ?b = map_of ?d ?b"
    using shift_all_look [OF assms(1) tw nu] by blast
  note sl = slots_moved [OF p, of gunzip, unfolded slots]
  have ex: "file_exists ?b d1" "map_of d1 ?b \<noteq> None" using ok p(3) by (simp_all add: file_exists_def dir_ok_def)
  let ?w = "h\<lparr>jobs := [], stream_open := False, files := ?d\<rparr>"
  have roll: "do_rollover env h = and_then (and_then (shift_backups env ?w) (open_base env)) (\<lambda>h2. (None, cleanup_by_total_size env h2))"
    using assms(4) by (simp add: do_rollover_def wait_pending_compressions_def in_day_def Let_def)
  show ?thesis
  proof (cases "r = None \<and> \<not> no_rename env ?b")
    case False
    then have "\<exists>y. shift_backups env ?w = (Some y, after_failure env h d1 [])"
      using s(1) ex by (cases r) (auto simp: shift_backups_def Let_def b n after_failure_def rename_file_def)
    then have "snd (do_rollover env h) = after_failure env h d1 []" unfolding roll by auto
    then show ?thesis using sl s(2) by blast
  next
    case True
    let ?d2 = "rename ?b (backup_name ?b 1) d1" and ?js = "if compress h then [backup_name ?b 1] else []"
    have "shift_backups env ?w = (None, after_failure env h ?d2 ?js)"
      using s(1) ex True by (simp add: shift_backups_def Let_def b n after_failure_def rename_file_def compress_file_async_def)
    with assms(5) have "snd (do_rollover env h) = after_failure env h ?d2 ?js"
      unfolding roll by (auto simp: open_base_def Let_def after_failure_def b split: if_splits)
    moreover have "slot_content gunzip ?b ?d2 i = ((rotate_day n (day_view gunzip h))(0 := None)) i" for i
    proof -
      have k: "k = 0" using True s(3) by simp
      consider "i = 0" | "i = 1" | "2 \<le> i" by linarith
      then show ?thesis
      proof cases
        assume "i = 1"
        moreover have "slot_content gunzip ?b d1 0 = day_view gunzip h 0" using fun_cong [OF sl, of 0] by simp
        moreover have "gz_slots ?b d1 1 = None" using fun_cong [OF p(2), of 1] k by (simp add: moved_def)
        ultimately show ?thesis using ex(2) assms(1) by (auto simp: slot_content_def look_rename rotate_day_def)
      next
        assume "2 \<le> i"
        moreover have "slot_content gunzip ?b ?d2 i = slot_content gunzip ?b d1 i"
          using calculation ex(2) by (auto simp: slot_content_pos look_rename split: option.split)
        ultimately show ?thesis using fun_cong [OF sl, of i] k by (simp add: moved_def rotate_day_def)
      qed (use ex(2) in \<open>auto simp: slot_content_def look_rename\<close>)
    qed
    ultimately show ?thesis by blast
  qed
qed

section \<open>Recovery\<close>

lemma cleanup_unlimited: "max_total_bytes h \<le> 0 \<Longrightarrow> cleanup_by_total_size env h = h"
  by (simp add: cleanup_by_total_size_def)

lemma wait_simps [simp]:
  "current_date (wait_pending_compressions env h) = current_date h" "name_prefix (wait_pending_compressions env h) = name_prefix h"
  "max_total_bytes (wait_pending_compressions env h) = max_total_bytes h" "backup_count (wait_pending_compressions env h) = backup_count h"
  "process (wait_pending_compressions env h) = process h"
  by (simp_all add: wait_pending_compressions_def)

lemma shift_backups_works:
  assumes "env_works env"
  obtains h1 where "shift_backups env h = (None, h1)" "current_date h1 = current_date h" "name_prefix h1 = name_prefix h"
    "max_total_bytes h1 = max_total_bytes h" "process h1 = process h"
proof -
  let ?b = "log_path (name_prefix h) (current_date h)" and ?n = "nat (backup_count h)"
  obtain d where "shift_down env ?b ?n ?n (files h) = (None, d)"
    using shift_down_ends [OF renames_but_works [OF assms]] by (metis prod.collapse)
  then show ?thesis using assms that
    by (cases "file_exists ?b d") (simp_all add: shift_backups_def Let_def compress_file_async_def)
qed

lemma emit_works:
  assumes "env_works env" and "in_day env (current_date h)" and "max_total_bytes h \<le> 0"
    and "log_path (name_prefix h) (current_date h) = base_name h" and "\<not> stream_open h"
  shows "base_name (emit env msg h) = base_name h \<and>
    (\<exists>f c. map_of (files (emit env msg h)) (base_name h) = Some f \<and> content f = c @ msg @ [newline])"
proof (cases "fst (should_rollover env msg h)")
  case True
  let ?h0 = "wait_pending_compressions env h"
  let ?w = "?h0\<lparr>stream_open := False, files := close_stream (process h) (files ?h0)\<rparr>"
  obtain h1 where h1: "shift_backups env ?w = (None, h1)" "current_date h1 = current_date h" "name_prefix h1 = name_prefix h"
      "max_total_bytes h1 = max_total_bytes h" "process h1 = process h"
    by (rule shift_backups_works [OF assms(1), of ?w]) (rule that, assumption, simp_all)
  let ?h2 = "h1\<lparr>base_name := base_name h, stream_open := True, files := open_append (process h) (file_clock env) (base_name h) (files h1), current_bytes := 0\<rparr>"
  have "do_rollover env h = (None, ?h2)"
    using h1 assms by (simp add: do_rollover_def Let_def in_day_def open_base_def cleanup_unlimited)
  then have e: "emit env msg h = ?h2\<lparr>files := write_to (process h) (file_clock env) (msg @ [newline]) (files ?h2)\<rparr>"
    using True h1(5) by (simp add: emit_def should_rollover_True emit_line_def Let_def)
  show ?thesis by (auto simp: e split: option.split)
next
  case False
  obtain c where r: "should_rollover env msg h = (False, h\<lparr>current_bytes := c\<rparr>)"
    using should_rollover_shape False by (metis prod.collapse)
  show ?thesis using assms(1,5) by (auto simp: emit_def r emit_line_def Let_def split: option.split)
qed

section \<open>A file that cannot be renamed\<close>

text \<open>The file of the day is the one that cannot be renamed, and its size asks for a rotation.\<close>

definition base_stuck :: "(string \<Rightarrow> string) \<Rightarrow> log_handler \<Rightarrow> log_env \<times> string \<Rightarrow> bool" where
  "base_stuck gunzip h r = (case r of (env, msg) \<Rightarrow>
     gz_ok gunzip env \<and> in_day env (current_date h) \<and> no_rename env (base_name h) \<and> renames_but (base_name h) env \<and>
     0 < max_bytes h \<and> max_bytes h \<le> current_bytes h + int (length msg) + 1)"

lemma stuck_record:
  assumes "1 \<le> n" and "log_inv n h" and "base_stuck gunzip h (env, msg)"
  shows "log_inv n (emit env msg h) \<and> day_view gunzip (emit env msg h) = (\<lambda>i. if i = 0 then day_view gunzip h 0 else moved 0 n (day_view gunzip h) i) \<and>
    base_stuck gunzip (emit env msg h) = base_stuck gunzip h"
proof -
  let ?b = "base_name h" and ?d = "close_stream (process h) (foldl (\<lambda>d m. compress_file env m d) (files h) (jobs h))"
  have env: "gz_ok gunzip env" "in_day env (current_date h)" "no_rename env ?b" "renames_but ?b env" "fst (should_rollover env msg h)"
    using assms(3) by (auto simp: base_stuck_def should_rollover_def in_day_def Let_def)
  have b: "log_path (name_prefix h) (current_date h) = ?b" and n: "nat (backup_count h) = n"
    and d: "dir_ok n ?b (files h) (jobs h)" and m: "max_total_bytes h \<le> 0"
    using assms(2) unfolding log_inv_defs by metis+
  from compress_jobs [OF env(1) d] have ok: "dir_ok n ?b ?d []" and slots: "slot_content gunzip ?b ?d = day_view gunzip h"
    by (simp_all add: day_view_def)
  have nu: "\<forall>m. \<not> no_unlink env m" and tw: "no_twins ?b n ?d" using env(1) ok by (simp_all add: gz_ok_def dir_ok_def)
  obtain d1 where s: "shift_down env ?b n n ?d = (None, d1)"
    and p: "plain_slots ?b d1 = moved 0 n (plain_slots ?b ?d)" "gz_slots ?b d1 = moved 0 n (gz_slots ?b ?d)" "map_of d1 ?b = map_of ?d ?b"
    using shift_all_look [OF assms(1) tw nu] shift_down_ends [OF env(4), of n n ?d] by (metis fst_conv)
  note sl = slots_moved [OF p, of gunzip, unfolded slots]
  have ex: "map_of d1 ?b \<noteq> None" using ok p(3) by (simp add: dir_ok_def)
  have e: "emit env msg h = after_failure env h d1 []"
    using env s ex b n by (simp add: emit_def should_rollover_True do_rollover_def wait_pending_compressions_def in_day_def Let_def
      shift_backups_def after_failure_def rename_file_def file_exists_def)
  have "no_twins ?b n d1"
    unfolding no_twins_def
  proof (intro allI impI)
    fix i assume "1 \<le> i \<and> i \<le> n"
    moreover from this have "i = 1 \<or> 1 \<le> i - 1 \<and> i - 1 \<le> n" by linarith
    ultimately show "map_of d1 (backup_name ?b i) = None \<or> map_of d1 (gz_name (backup_name ?b i)) = None"
      using fun_cong [OF p(1), of i] fun_cong [OF p(2), of i] tw [unfolded no_twins_def, rule_format, of "i - 1"]
      by (cases "i = 1") (auto simp: moved_def)
  qed
  moreover have "no_stream (process h) d1"
    using no_stream_shift [OF no_stream_closed] s by (metis snd_conv)
  ultimately have "log_inv n (emit env msg h)"
    using b n m ex by (simp add: e after_failure_def log_inv_defs dir_ok_def stream_ok_def)
  moreover have "base_stuck gunzip (emit env msg h) = base_stuck gunzip h"
    by (simp add: e after_failure_def base_stuck_def fun_eq_iff)
  ultimately show ?thesis using sl by (simp add: e after_failure_def day_view_def)
qed

lemma stuck_records:
  assumes "1 \<le> n"
  shows "log_inv n h \<Longrightarrow> \<forall>r \<in> set rs. base_stuck gunzip h r \<Longrightarrow> \<forall>i. 1 \<le> i \<and> i \<le> j \<and> i \<le> n \<longrightarrow> day_view gunzip h i = None \<Longrightarrow>
    day_view gunzip (fold (\<lambda>(env, msg). emit env msg) rs h) 0 = day_view gunzip h 0 \<and>
    (\<forall>i. 1 \<le> i \<and> i \<le> j + length rs \<and> i \<le> n \<longrightarrow> day_view gunzip (fold (\<lambda>(env, msg). emit env msg) rs h) i = None)"
proof (induction rs arbitrary: h j)
  case (Cons r rs)
  obtain env msg where r: "r = (env, msg)" by fastforce
  note st = stuck_record [OF assms Cons.prems(1), of gunzip env msg]
  have "day_view gunzip (emit env msg h) i = None" if "1 \<le> i" "i \<le> Suc j" "i \<le> n" for i
    using st Cons.prems(2) that Cons.prems(3) [rule_format, of "i - 1"] by (cases i; cases "i - 1") (auto simp: r moved_def)
  with Cons.IH [of "emit env msg h" "Suc j"] st Cons.prems(2) show ?case by (simp add: r)
qed simp

text \<open>Every record of the day takes the oldest backup with it, and none is written: after \<open>n\<close> of them there
  is no backup left.\<close>

lemma stuck_rotation_empties:
  assumes "1 \<le> n" and "log_inv n h" and "\<forall>r \<in> set rs. base_stuck gunzip h r" and "n \<le> length rs"
  shows "day_view gunzip (fold (\<lambda>(env, msg). emit env msg) rs h) = (\<lambda>i. if 1 \<le> i \<and> i \<le> n then None
    else day_view gunzip (fold (\<lambda>(env, msg). emit env msg) rs h) i)"
    and "day_view gunzip (fold (\<lambda>(env, msg). emit env msg) rs h) 0 = day_view gunzip h 0"
  using stuck_records [OF assms(1-3), of 0] assms(4) by auto

section \<open>Properties\<close>

text \<open>C15: when a rotation by size raises, because a rename or the opening of the new file does: the record is
  dropped and nothing else is written; every text of the day but the oldest backup is still there, in
  its slot or the next; and the next record of the day that meets no obstacle ends the current file.\<close>

theorem failed_rotation:
  assumes "1 \<le> n" and "log_inv n h" and "gz_ok gunzip env" and "in_day env (current_date h)"
    and "fst (should_rollover env msg h)" and "fst (do_rollover env h) = Some x" and "h' = emit env msg h"
    and "env_works env'" and "in_day env' (current_date h)"
  shows "(\<forall>i < n. \<forall>c. day_view gunzip h i = Some c \<longrightarrow> day_view gunzip h' i = Some c \<or> day_view gunzip h' (i + 1) = Some c) \<and>
    (\<forall>j c. day_view gunzip h' j = Some c \<longrightarrow> (\<exists>i. day_view gunzip h i = Some c)) \<and>
    (\<exists>c. day_view gunzip (emit env' msg' h') 0 = Some (c @ msg' @ [newline]))"
proof -
  obtain d js where r: "snd (do_rollover env h) = after_failure env h d js"
    and sl: "(\<exists>k < n. slot_content gunzip (base_name h) d = (\<lambda>i. if i = 0 then day_view gunzip h 0 else moved k n (day_view gunzip h) i)) \<or>
      slot_content gunzip (base_name h) d = (rotate_day n (day_view gunzip h))(0 := None)"
    using failed_rollover [OF assms(1-4,6)] by blast
  have h': "h' = after_failure env h d js"
    using assms(5-7) r by (simp add: emit_def should_rollover_True and_then_def case_prod_beta)
  have v: "day_view gunzip h' = slot_content gunzip (base_name h) d" by (simp add: h' after_failure_def day_view_def)
  have "day_view gunzip h' i = Some c \<or> day_view gunzip h' (i + 1) = Some c" if "i < n" "day_view gunzip h i = Some c" for i c
    using sl that unfolding v by (auto simp: moved_def rotate_day_def fun_upd_def)
  moreover have "\<exists>i. day_view gunzip h i = Some c" if "day_view gunzip h' j = Some c" for j c
    using sl that assms(1) unfolding v by (auto simp: moved_def rotate_day_def split: if_splits)
  moreover have "\<exists>c. day_view gunzip (emit env' msg' h') 0 = Some (c @ msg' @ [newline])"
  proof -
    have "log_path (name_prefix h') (current_date h') = base_name h'" "max_total_bytes h' \<le> 0" "in_day env' (current_date h')" "\<not> stream_open h'"
      using assms(2,9) by (auto simp: h' after_failure_def log_inv_defs)
    from emit_works [OF assms(8) this(3,2,1,4), of msg'] show ?thesis by (auto simp: day_view_def slot_content_def)
  qed
  ultimately show ?thesis by blast
qed

definition stuck_env :: log_env where
  "stuck_env = sample_log_env\<lparr>no_rename := (\<lambda>m. m = base_name sample_handler)\<rparr>"

definition full_handler :: log_handler where
  "full_handler = emit sample_log_env ''12345678'' sample_handler"

theorem failed_rotation_witness:
  "\<exists>c. day_view (\<lambda>s. s) (emit sample_log_env ''on'' (emit stuck_env ''lost'' full_handler)) 0 = Some (c @ ''on'' @ [newline])"
proof -
  have d: "in_day sample_log_env (current_date sample_handler)" "log_inv 1 sample_handler"
    using sample_in_day init_fresh(1,3) [OF sample_fresh, where n = 1 and max_b = 10 and compr = True] by (simp_all add: sample_handler_def)
  have f: "log_inv 1 full_handler" "current_date full_handler = current_date sample_handler"
    using emit_same_day(1,5) [OF _ d(2) sample_log_env_ok d(1)] by (simp_all add: full_handler_def)
  have e: "gz_ok (\<lambda>s. s) stuck_env" "env_works sample_log_env" "in_day stuck_env (current_date full_handler)" "in_day sample_log_env (current_date full_handler)"
    using d(1) f(2) by (simp_all add: stuck_env_def sample_log_env_def gz_ok_def env_works_def in_day_def)
  have r: "fst (should_rollover stuck_env ''lost'' full_handler)" "fst (do_rollover stuck_env full_handler) = Some os_error"
    by code_simp+
  show ?thesis using failed_rotation [OF order_refl f(1) e(1,3) r refl e(2,4), THEN conjunct2, THEN conjunct2] .
qed

end
