(* ===== verification/FileLogger.thy ===== *)
theory FileLogger
  imports LogFailures
begin

text \<open>
  The public part of \<open>app/utils/file_logger.py\<close>: the cached time stamp, \<open>write_log\<close> with the making of
  the logger, and the file lock by which one of the workers is chosen to log the start sequence.
\<close>

section \<open>The time stamp\<close>

text \<open>\<open>int(now)\<close>, and the cache of one second; \<open>strf\<close> is \<open>fromtimestamp(sec).strftime(...)\<close>.\<close>

definition trunc :: "rat \<Rightarrow> int" where
  "trunc q = (if q \<ge> 0 then floor q else ceiling q)"

type_synonym ts_cache = "int \<times> string"

definition format_ts_cached :: "(int \<Rightarrow> string) \<Rightarrow> rat \<Rightarrow> ts_cache \<Rightarrow> string \<times> ts_cache" where
  "format_ts_cached strf now cache =
     (let sec = trunc now; cache' = (if sec \<noteq> fst cache then (sec, strf sec) else cache) in (snd cache', cache'))"

definition ts_cache_init :: ts_cache where
  "ts_cache_init = (-1, [])"

definition ts_cache_ok :: "(int \<Rightarrow> string) \<Rightarrow> ts_cache \<Rightarrow> bool" where
  "ts_cache_ok strf cache \<longleftrightarrow> fst cache = -1 \<or> snd cache = strf (fst cache)"

text \<open>The cache never shows: at any time after 1970 the stamp is that of the current second.\<close>

lemma ts_cache_transparent:
  assumes "ts_cache_ok strf cache" and "0 \<le> now"
  shows "fst (format_ts_cached strf now cache) = strf (trunc now)" and "ts_cache_ok strf (snd (format_ts_cached strf now cache))"
proof -
  have "0 \<le> trunc now" using assms(2) by (simp add: trunc_def)
  then show "fst (format_ts_cached strf now cache) = strf (trunc now)" and "ts_cache_ok strf (snd (format_ts_cached strf now cache))"
    using assms(1) by (auto simp: format_ts_cached_def Let_def ts_cache_ok_def)
qed

section \<open>Writing a line\<close>

record logger_state =
  log_file :: "log_handler option"
  ts_state :: ts_cache

definition logger_reset :: logger_state where
  "logger_reset = \<lparr>log_file = None, ts_state = ts_cache_init\<rparr>"

definition pad_right :: "nat \<Rightarrow> string \<Rightarrow> string" where
  "pad_right n s = s @ replicate (n - char_count s) CHR '' ''"

definition pad_left :: "nat \<Rightarrow> string \<Rightarrow> string" where
  "pad_left n s = replicate (n - char_count s) CHR '' '' @ s"

definition LEVEL_MAP :: "(string \<times> nat) list" where
  "LEVEL_MAP = [(''I'', 20), (''W'', 30), (''E'', 40), (''C'', 50), (''F'', 50)]"

definition log_text :: "string \<Rightarrow> string \<Rightarrow> nat \<Rightarrow> string \<Rightarrow> string \<Rightarrow> string" where
  "log_text ts level pid tag message =
     ts @ '' ('' @ level @ '') ['' @ pad_left 8 (nat_str pid) @ ''] ['' @ pad_right 8 tag @ ''] '' @ message"

text \<open>
  The module constants read from the environment. \<open>REDGW_LOG_MAX_TOTAL_MB\<close> is read when the logger is
  made: \<open>None\<close> is a text that is no number.
\<close>

record log_policy =
  policy_max_bytes :: int
  policy_backups :: int
  policy_total_mb :: "int option"

text \<open>Making the directory is taken not to fail; the file of the day may not open.\<close>

definition init_file_logger :: "log_env \<Rightarrow> log_policy \<Rightarrow> nat \<Rightarrow> dir \<Rightarrow> logger_state \<Rightarrow> logger_state tried" where
  "init_file_logger env policy pid d st = (case log_file st of
       Some h \<Rightarrow> (None, st)
     | None \<Rightarrow>
         (case policy_total_mb policy of
            None \<Rightarrow> (Some (PyExc ''ValueError''), st)
          | Some max_total_mb \<Rightarrow>
              if no_open env (log_path ''redgw'' (day_of (stamp env))) then (Some os_error, st)
              else (None, st\<lparr>log_file := Some (init_handler env pid ''redgw'' (policy_max_bytes policy) (policy_backups policy) True
                max_total_mb d)\<rparr>)))"

text \<open>
  The logger's own level is DEBUG (10), so that every level of the map passes. The handler reads the
  cached stamp again (\<open>shouldRollover\<close>, \<open>doRollover\<close>); what it reads is in its environment.
\<close>

definition write_log ::
  "(int \<Rightarrow> string) \<Rightarrow> rat \<Rightarrow> log_env \<Rightarrow> log_policy \<Rightarrow> nat \<Rightarrow> dir \<Rightarrow> string \<Rightarrow> string \<Rightarrow> string \<Rightarrow> logger_state \<Rightarrow> logger_state tried" where
  "write_log strf now env policy pid d tag message level st =
     and_then (init_file_logger env policy pid d st) (\<lambda>st1.
       (case log_file st1 of
          None \<Rightarrow> (None, st1)
        | Some h \<Rightarrow>
            (case format_ts_cached strf now (ts_state st1) of (ts, cache) \<Rightarrow>
               let py_level = (case map_of LEVEL_MAP level of Some n \<Rightarrow> n | None \<Rightarrow> 20) in
               if py_level \<ge> 10
               then (None, st1\<lparr>ts_state := cache, log_file := Some (emit env (log_text ts level pid tag message) h)\<rparr>)
               else (None, st1\<lparr>ts_state := cache\<rparr>))))"

text \<open>\<open>write_log_async\<close>: the thread may not start; what raises is dropped.\<close>

definition write_log_async ::
  "bool \<Rightarrow> (int \<Rightarrow> string) \<Rightarrow> rat \<Rightarrow> log_env \<Rightarrow> log_policy \<Rightarrow> nat \<Rightarrow> dir \<Rightarrow> string \<Rightarrow> string \<Rightarrow> string \<Rightarrow> logger_state \<Rightarrow> logger_state" where
  "write_log_async starts strf now env policy pid d tag message level st =
     (if starts then snd (write_log strf now env policy pid d tag message level st) else st)"

text \<open>\<open>reset_file_logger\<close> waits for the compressions, and what the directory holds then stays; the cached
  stamp stays too. Its part on the lock is \<open>CloseLock\<close> below.\<close>

definition reset_file_logger :: "log_env \<Rightarrow> dir \<Rightarrow> logger_state \<Rightarrow> dir \<times> logger_state" where
  "reset_file_logger env d st =
     ((case log_file st of None \<Rightarrow> d | Some h \<Rightarrow> files (wait_pending_compressions env h)), st\<lparr>log_file := None\<rparr>)"

lemma write_log_emits:
  assumes "log_file st = Some h" and "ts_cache_ok strf (ts_state st)" and "0 \<le> now"
  shows "fst (write_log strf now env policy pid d tag message level st) = None" and
    "log_file (snd (write_log strf now env policy pid d tag message level st)) =
      Some (emit env (log_text (strf (trunc now)) level pid tag message) h)"
proof -
  obtain c where c: "format_ts_cached strf now (ts_state st) = (strf (trunc now), c)"
    using ts_cache_transparent(1) [OF assms(2,3)] by (metis prod.collapse)
  have "10 \<le> (case map_of LEVEL_MAP level of Some n \<Rightarrow> n | None \<Rightarrow> 20)" by (simp add: LEVEL_MAP_def)
  with c assms(1) show "fst (write_log strf now env policy pid d tag message level st) = None" and
    "log_file (snd (write_log strf now env policy pid d tag message level st)) =
      Some (emit env (log_text (strf (trunc now)) level pid tag message) h)"
    by (simp_all add: write_log_def init_file_logger_def Let_def)
qed

text \<open>Without a logger \<open>write_log\<close> makes one first, and what that raises it raises.\<close>

lemma write_log_raises:
  assumes "log_file st = None" and "policy_total_mb policy = None \<or> no_open env (log_path ''redgw'' (day_of (stamp env)))"
  shows "\<exists>x. write_log strf now env policy pid d tag message level st = (Some x, st)"
  using assms by (auto simp: write_log_def init_file_logger_def split: option.split)

section \<open>The lock of the start sequence\<close>

text \<open>
  The lock file by its inode: what the path names, which worker holds the lock of an inode, which
  inode a worker has open, who logs the start sequence, who is between unlocking and unlinking.
  Opening and locking are two system calls, and so are unlocking and unlinking.
\<close>

record lock_system =
  lock_path :: "nat option"
  next_inode :: nat
  lock_holder :: "nat \<Rightarrow> nat option"
  lock_fd :: "nat \<Rightarrow> nat option"
  startup_logger :: "nat \<Rightarrow> bool"
  unlinking :: "nat \<Rightarrow> bool"

datatype lock_action = OpenLock nat | OpenRefused nat | Flock nat | FlockRefused nat | Unlock nat | UnlinkLock nat | CloseLock nat

definition lock_init :: lock_system where
  "lock_init = \<lparr>lock_path = None, next_inode = 0, lock_holder = Map.empty, lock_fd = Map.empty,
     startup_logger = (\<lambda>w. False), unlinking = (\<lambda>w. False)\<rparr>"

definition is_startup_logger :: "nat \<Rightarrow> lock_system \<Rightarrow> bool" where
  "is_startup_logger w s = startup_logger s w"

text \<open>
  \<open>acquire_startup_lock\<close> is \<open>OpenLock\<close> and \<open>Flock\<close>, or one of the two with an \<open>OSError\<close> (of \<open>open\<close>; of
  \<open>flock\<close>, \<open>write\<close> or \<open>flush\<close>); \<open>release_startup_lock\<close> is \<open>Unlock\<close> and, by the holder, \<open>UnlinkLock\<close>;
  \<open>CloseLock\<close> is what \<open>reset_file_logger\<close> does.
\<close>

fun lock_exec :: "lock_action \<Rightarrow> lock_system \<Rightarrow> lock_system option" where
  "lock_exec (OpenLock w) s =
     (if lock_fd s w \<noteq> None \<or> unlinking s w then None
      else case lock_path s of
             Some i \<Rightarrow> Some (s\<lparr>lock_fd := (lock_fd s)(w \<mapsto> i)\<rparr>)
           | None \<Rightarrow> Some (s\<lparr>lock_path := Some (next_inode s), next_inode := next_inode s + 1,
                         lock_fd := (lock_fd s)(w \<mapsto> next_inode s)\<rparr>))"
| "lock_exec (OpenRefused w) s =
     (if lock_fd s w \<noteq> None \<or> unlinking s w then None else Some (s\<lparr>startup_logger := (startup_logger s)(w := False)\<rparr>))"
| "lock_exec (FlockRefused w) s =
     (if lock_fd s w = None \<or> startup_logger s w then None
      else Some (s\<lparr>lock_fd := (lock_fd s)(w := None), startup_logger := (startup_logger s)(w := False)\<rparr>))"
| "lock_exec (Flock w) s = (case lock_fd s w of
       None \<Rightarrow> None
     | Some i \<Rightarrow>
         if startup_logger s w then None
         else if lock_holder s i = None
         then Some (s\<lparr>lock_holder := (lock_holder s)(i \<mapsto> w), startup_logger := (startup_logger s)(w := True)\<rparr>)
         else Some (s\<lparr>lock_fd := (lock_fd s)(w := None), startup_logger := (startup_logger s)(w := False)\<rparr>))"
| "lock_exec (Unlock w) s = (case lock_fd s w of
       None \<Rightarrow> if unlinking s w then None else Some (s\<lparr>startup_logger := (startup_logger s)(w := False)\<rparr>)
     | Some i \<Rightarrow>
         if \<not> startup_logger s w then None
         else Some (s\<lparr>lock_holder := (lock_holder s)(i := None), lock_fd := (lock_fd s)(w := None),
           unlinking := (unlinking s)(w := True)\<rparr>))"
| "lock_exec (UnlinkLock w) s =
     (if unlinking s w
      then Some (s\<lparr>lock_path := None, startup_logger := (startup_logger s)(w := False), unlinking := (unlinking s)(w := False)\<rparr>)
      else None)"
| "lock_exec (CloseLock w) s =
     (if unlinking s w then None
      else Some (s\<lparr>lock_holder := (\<lambda>i. if lock_holder s i = Some w then None else lock_holder s i),
        lock_fd := (lock_fd s)(w := None), startup_logger := (startup_logger s)(w := False)\<rparr>))"

inductive lock_reach :: "(lock_action \<Rightarrow> bool) \<Rightarrow> lock_system \<Rightarrow> bool" for may where
  start: "lock_reach may lock_init"
| step: "lock_reach may s \<Longrightarrow> may a \<Longrightarrow> lock_exec a s = Some s' \<Longrightarrow> lock_reach may s'"

primrec acquires :: "lock_action \<Rightarrow> bool" where
  "acquires (OpenLock w) = True"
| "acquires (OpenRefused w) = True"
| "acquires (Flock w) = True"
| "acquires (FlockRefused w) = True"
| "acquires (Unlock w) = False"
| "acquires (UnlinkLock w) = False"
| "acquires (CloseLock w) = False"

definition one_inode :: "lock_system \<Rightarrow> bool" where
  "one_inode s \<longleftrightarrow> (\<forall>w i. lock_fd s w = Some i \<longrightarrow> lock_path s = Some i) \<and>
     (\<forall>w. startup_logger s w \<longrightarrow> (\<exists>i. lock_fd s w = Some i \<and> lock_holder s i = Some w))"

lemma one_inode_step: "one_inode s \<Longrightarrow> acquires a \<Longrightarrow> lock_exec a s = Some s' \<Longrightarrow> one_inode s'"
proof (cases a)
  case (OpenLock w)
  assume "one_inode s" "lock_exec a s = Some s'"
  then show ?thesis using OpenLock by (auto simp: one_inode_def split: option.splits if_splits)
next
  case (OpenRefused w)
  assume "one_inode s" "lock_exec a s = Some s'"
  then show ?thesis using OpenRefused by (auto simp: one_inode_def split: if_splits)
next
  case (FlockRefused w)
  assume "one_inode s" "lock_exec a s = Some s'"
  then show ?thesis using FlockRefused by (auto simp: one_inode_def split: if_splits) (metis option.inject)
next
  case (Flock w)
  assume "one_inode s" "lock_exec a s = Some s'"
  then show ?thesis using Flock by (auto simp: one_inode_def split: option.splits if_splits) (metis option.distinct(1) option.inject)+
qed simp_all

text \<open>As long as no worker shuts down, whatever the order of the system calls, at most one worker
  logs the start sequence, and the one that does holds the lock.\<close>

lemma startup_logger_unique:
  assumes "lock_reach acquires s" and "startup_logger s v"
  shows "startup_logger s w \<longleftrightarrow> w = v"
proof -
  have "one_inode s" using assms(1)
  proof induction
    case start
    show ?case by (simp add: one_inode_def lock_init_def)
  next
    case (step s a s')
    then show ?case by (blast intro: one_inode_step)
  qed
  then have u: "startup_logger s w \<Longrightarrow> w = v" using assms(2) unfolding one_inode_def by (metis option.inject)
  with assms(2) show ?thesis by blast
qed

lemma lock_run_reach: "lock_reach may s \<Longrightarrow> list_all may as \<Longrightarrow> run_events lock_exec as s = Some s' \<Longrightarrow> lock_reach may s'"
  by (induction "as" arbitrary: s) (auto split: option.splits intro: lock_reach.step)

lemma startup_logger_unique_witness:
  "\<exists>s. run_events lock_exec [OpenLock 1, OpenLock 2, Flock 2, Flock 1] lock_init = Some s \<and> startup_logger s 2 \<and> \<not> startup_logger s 1"
proof -
  let ?as = "[OpenLock 1, OpenLock 2, Flock 2, Flock 1]"
  obtain s where s: "run_events lock_exec ?as lock_init = Some s" and two: "startup_logger s 2" by (simp add: lock_init_def)
  have "lock_reach acquires s" using lock_run_reach [OF lock_reach.start _ s] by simp
  from startup_logger_unique [OF this two, of 1] s two show ?thesis by auto
qed

text \<open>
  With a worker that shuts down in between, two can log it: the lock file is unlinked after it is
  unlocked, so one worker locks the old inode and another the new one.
\<close>

lemma startup_lock_race:
  "\<exists>s. lock_reach (\<lambda>a. True) s \<and> startup_logger s 2 \<and> startup_logger s 3"
proof -
  let ?as = "[OpenLock 1, Flock 1, OpenLock 2, Unlock 1, Flock 2, UnlinkLock 1, OpenLock 3, Flock 3]"
  obtain s where s: "run_events lock_exec ?as lock_init = Some s" and "startup_logger s 2" "startup_logger s 3" by (simp add: lock_init_def)
  with lock_run_reach [OF lock_reach.start _ s, of "\<lambda>a. True"] show ?thesis by auto
qed

end
