(* ===== verification/Scrape.thy ===== *)
theory Scrape
  imports Admin
begin

text \<open>
  \<open>app/routers/admin.py\<close>, \<open>/metrics\<close>: the Prometheus text, with its two caches. The caches are
  module variables of the code: arguments and results here. The clock and the text of a
  \<open>float\<close> are parameters.
\<close>

section \<open>The text and its caches\<close>

text \<open>The counts by namespace, kept for 30 seconds: at most 5000 keys are looked at.\<close>

definition NS_COUNTS_TTL :: rat where
  "NS_COUNTS_TTL = 30"

definition ns_counts_step :: "bool \<Rightarrow> string \<Rightarrow> (string \<times> int) list \<times> int \<Rightarrow> ((string \<times> int) list \<times> int) \<times> bool" where
  "ns_counts_step rust key st = (case st of (counts, scanned) \<Rightarrow>
     let scanned' = scanned + 1 in
     case parse_key rust key of
       Inl x \<Rightarrow> ((counts, scanned'), scanned' \<ge> 5000)
     | Inr (ns, prefix, u) \<Rightarrow>
         ((if prefix \<in> set STORAGE_PREFIXES then bump ns counts else counts, scanned'), scanned' \<ge> 5000))"

type_synonym ns_counts_cache = "(string \<times> int) list \<times> rat"

definition get_ns_counts_cached :: "rat \<Rightarrow> ns_counts_cache \<Rightarrow> ('r, (string \<times> int) list \<times> ns_counts_cache) act" where
  "get_ns_counts_cached now cache = (case cache of (counts, ts) \<Rightarrow>
     if now - ts < NS_COUNTS_TTL then ret (counts, cache)
     else
       bnd ask_rust (\<lambda>rust.
       bnd (scan_fold ''*'' 500 (ns_counts_step rust) ([], 0)) (\<lambda>(ns_counts, scanned).
       ret (ns_counts, (ns_counts, now)))))"

text \<open>\<open>f"{v}"\<close> of a value; the text of a \<open>float\<close> is the parameter \<open>fl\<close>.\<close>

definition fmt :: "(pyfloat \<Rightarrow> string) \<Rightarrow> pyval \<Rightarrow> exc + string" where
  "fmt fl v = (case v of PFloat x \<Rightarrow> Inr (fl x)
     | _ \<Rightarrow> (case py_str v of Some s \<Rightarrow> Inr s | None \<Rightarrow> Inl (PyExc ''TypeError'')))"

fun dict_items :: "pyval \<Rightarrow> exc + (string \<times> pyval) list" where
  "dict_items (PDict kvs) = Inr kvs"
| "dict_items _ = Inl (PyExc ''AttributeError'')"

definition dquote :: string where
  "dquote = [CHR 34]"

definition sample :: "(pyfloat \<Rightarrow> string) \<Rightarrow> string \<Rightarrow> string \<Rightarrow> string \<times> pyval \<Rightarrow> exc + string" where
  "sample fl metric label kv =
     ebind (fmt fl (snd kv)) (\<lambda>v.
     Inr (metric @ ''{'' @ label @ ''='' @ dquote @ fst kv @ dquote @ ''} '' @ v))"

definition family_head :: "string \<Rightarrow> string \<Rightarrow> string \<Rightarrow> string list" where
  "family_head metric help kind = [''# HELP '' @ metric @ '' '' @ help, ''# TYPE '' @ metric @ '' '' @ kind]"

text \<open>A labelled family; where the code asks for it, nothing when it has no entry.\<close>

definition family_lines ::
  "(pyfloat \<Rightarrow> string) \<Rightarrow> bool \<Rightarrow> string \<Rightarrow> string \<Rightarrow> string \<Rightarrow> string \<Rightarrow> pyval \<Rightarrow> exc + string list" where
  "family_lines fl always metric help kind label d =
     (if \<not> always \<and> \<not> truthy d then Inr []
      else ebind (dict_items d) (\<lambda>kvs. ebind (emap (sample fl metric label) kvs) (\<lambda>ls.
           Inr (family_head metric help kind @ ls))))"

definition plain_lines :: "(pyfloat \<Rightarrow> string) \<Rightarrow> string \<Rightarrow> string \<Rightarrow> string \<Rightarrow> pyval \<Rightarrow> exc + string list" where
  "plain_lines fl metric help kind v =
     ebind (fmt fl v) (\<lambda>s. Inr (family_head metric help kind @ [metric @ '' '' @ s]))"

fun positive :: "pyval \<Rightarrow> exc + bool" where
  "positive (PInt i) = Inr (i > 0)"
| "positive (PBool b) = Inr b"
| "positive (PFloat (Flt q)) = Inr (q > 0)"
| "positive (PFloat x) = Inr (x = PosInf)"
| "positive _ = Inl (PyExc ''TypeError'')"

definition latency_lines :: "(pyfloat \<Rightarrow> string) \<Rightarrow> pyval \<Rightarrow> exc + string list" where
  "latency_lines fl lat =
     ebind (get_default lat ''count'' (PInt 0)) (\<lambda>n.
     ebind (positive n) (\<lambda>pos.
     if \<not> pos then Inr []
     else
       ebind (get_default lat ''buckets'' (PDict [])) (\<lambda>b.
       ebind (dict_items b) (\<lambda>kvs.
       ebind (emap (sample fl ''redgw_request_duration_ms_bucket'' ''le'') kvs) (\<lambda>ls.
       ebind (get_default lat ''sum'' (PInt 0)) (\<lambda>sm.
       ebind (fmt fl sm) (\<lambda>st.
       ebind (fmt fl n) (\<lambda>nt.
       Inr (family_head ''redgw_request_duration_ms'' ''Request latency histogram (ms)'' ''histogram'' @ ls @
            [''redgw_request_duration_ms_sum '' @ st, ''redgw_request_duration_ms_count '' @ nt])))))))))"

definition build_info_lines :: "bool \<Rightarrow> string list" where
  "build_info_lines rust =
     family_head ''redgw_build_info'' ''Build information'' ''gauge'' @
     [''redgw_build_info{core_engine='' @ dquote @ (if rust then ''rust'' else ''python'') @ dquote @ ''} 1'']"

text \<open>The lines of the answer, in order.\<close>

definition metrics_lines ::
  "(pyfloat \<Rightarrow> string) \<Rightarrow> bool \<Rightarrow> pyval \<Rightarrow> pyval \<Rightarrow> pyval \<Rightarrow> pyval \<Rightarrow> (string \<times> int) list \<Rightarrow> exc + string list" where
  "metrics_lines fl rust m info stats clients_info ns_counts =
     ebind (get_default info ''used_memory'' (PInt 0)) (\<lambda>used_bytes.
     ebind (get_default info ''maxmemory'' (PInt 0)) (\<lambda>maxmem.
     ebind (dict_item m ''status_codes'') (\<lambda>codes.
     ebind (get_default m ''latency'' (PDict [])) (\<lambda>lat.
     ebind (get_default m ''ns_requests'' (PDict [])) (\<lambda>ns_reqs.
     ebind (get_default m ''client_requests'' (PDict [])) (\<lambda>client_reqs.
     ebind (get_default m ''auth_failures'' (PDict [])) (\<lambda>fails.
     ebind (dict_item m ''uptime_seconds'') (\<lambda>uptime.
     ebind (get_default stats ''instantaneous_ops_per_sec'' (PInt 0)) (\<lambda>ops.
     ebind (get_default stats ''keyspace_hits'' (PInt 0)) (\<lambda>hits.
     ebind (get_default stats ''keyspace_misses'' (PInt 0)) (\<lambda>misses.
     ebind (get_default stats ''evicted_keys'' (PInt 0)) (\<lambda>evicted.
     ebind (get_default clients_info ''connected_clients'' (PInt 0)) (\<lambda>conns.
     ebind (emap id
       [family_lines fl True ''redgw_requests_total'' ''Total requests by HTTP status'' ''counter'' ''status'' codes,
        latency_lines fl lat,
        family_lines fl False ''redgw_ns_requests_total'' ''Requests per namespace'' ''counter'' ''ns'' ns_reqs,
        family_lines fl False ''redgw_client_requests_total'' ''Requests per client'' ''counter'' ''client'' client_reqs,
        family_lines fl False ''redgw_auth_failures_total'' ''Authentication/authorization failures by reason''
          ''counter'' ''reason'' fails,
        Inr (build_info_lines rust),
        plain_lines fl ''redgw_uptime_seconds'' ''Service uptime'' ''gauge'' uptime,
        plain_lines fl ''redgw_redis_memory_bytes'' ''Redis used memory'' ''gauge'' used_bytes,
        (if truthy maxmem then plain_lines fl ''redgw_redis_memory_limit_bytes'' ''Redis maxmemory'' ''gauge'' maxmem
         else Inr []),
        plain_lines fl ''redgw_redis_ops_per_sec'' ''Redis instantaneous ops/sec'' ''gauge'' ops,
        plain_lines fl ''redgw_redis_keyspace_hits_total'' ''Redis keyspace hits'' ''counter'' hits,
        plain_lines fl ''redgw_redis_keyspace_misses_total'' ''Redis keyspace misses'' ''counter'' misses,
        plain_lines fl ''redgw_redis_evicted_keys_total'' ''Redis evicted keys'' ''counter'' evicted,
        plain_lines fl ''redgw_redis_connected_clients'' ''Redis connected clients'' ''gauge'' conns,
        family_lines fl True ''redgw_ns_keys_total'' ''Keys per namespace (sampled)'' ''gauge'' ''ns''
          (PDict (map (\<lambda>(k, n). (k, PInt n)) ns_counts))])
       (\<lambda>groups. Inr (concat groups)))))))))))))))"

definition METRICS_TEXT_TTL :: rat where
  "METRICS_TEXT_TTL = 5"

text \<open>
  The two caches: the text with its time, the counts with theirs. The clock is read at the
  start (\<open>now\<close>) and again for the counts (\<open>later\<close>). When the handler raises, the caches it leaves
  behind are not part of the result.
\<close>

type_synonym metrics_cache = "(string \<times> rat) \<times> ns_counts_cache"

definition prometheus_metrics ::
  "(string \<Rightarrow> pyfloat option) \<Rightarrow> (pyfloat \<Rightarrow> string) \<Rightarrow> pyval \<Rightarrow> rat \<Rightarrow> rat \<Rightarrow> client_info \<Rightarrow> metrics_cache
     \<Rightarrow> ('r, string \<times> metrics_cache) act" where
  "prometheus_metrics pyfl fl uptime now later client cache =
     bnd (require_admin client) (\<lambda>_. case cache of ((text, ts), ns_cache) \<Rightarrow>
     if text \<noteq> [] \<and> now - ts < METRICS_TEXT_TTL then ret (text, cache)
     else
       bnd (get_metrics_async pyfl uptime) (\<lambda>m.
       bnd (send (INFO ''memory'')) (\<lambda>info.
       bnd (send (INFO ''stats'')) (\<lambda>stats.
       bnd (send (INFO ''clients'')) (\<lambda>clients_info.
       bnd (get_ns_counts_cached later ns_cache) (\<lambda>(ns_counts, ns_cache').
       bnd ask_rust (\<lambda>rust.
       bnd (lift (metrics_lines fl rust m info stats clients_info ns_counts)) (\<lambda>ls.
       let result = join_strs [newline] ls @ [newline]
       in ret (result, ((result, now), ns_cache'))))))))))"

section \<open>Facts\<close>

lemma answers_prod [answers_intros]: "(\<And>x y. answers Q (f x y)) \<Longrightarrow> answers Q (case p of (x, y) \<Rightarrow> f x y)"
  by (cases p) simp

lemma prometheus_text:
  "fst (prometheus_metrics pyfl fl up now later client cache e w) = Inr (result, cache') \<Longrightarrow> client_id client = ''admin'' \<and> result \<noteq> []"
proof -
  assume a: "fst (prometheus_metrics pyfl fl up now later client cache e w) = Inr (result, cache')"
  have "answers (\<lambda>(r, c). r \<noteq> []) (prometheus_metrics pyfl fl up now later client cache)"
    unfolding prometheus_metrics_def Let_def by (intro answers_intros) auto
  with a have "result \<noteq> []" by (auto dest: answersD)
  moreover have "client_id client = ''admin''"
    using a by (rule_tac ccontr) (simp add: prometheus_metrics_def bnd_apply require_admin_apply)
  ultimately show ?thesis by simp
qed

section \<open>The scrape answers\<close>

text \<open>
  \<open>yields e E Q m\<close>: with the parameters \<open>e\<close>, whatever \<open>m\<close> raises satisfies \<open>E\<close>, and what it returns
  satisfies \<open>Q\<close>.
\<close>

definition yields :: "'r env \<Rightarrow> (exc \<Rightarrow> bool) \<Rightarrow> ('a \<Rightarrow> bool) \<Rightarrow> ('r, 'a) act \<Rightarrow> bool" where
  "yields e E Q m \<longleftrightarrow> (\<forall>w. case fst (m e w) of Inl x \<Rightarrow> E x | Inr v \<Rightarrow> Q v)"

lemma yields_error: "yields e E Q m \<Longrightarrow> fst (m e w) = Inl x \<Longrightarrow> E x"
  unfolding yields_def by (drule spec [of _ w]) simp

lemma yields_ret: "Q a \<Longrightarrow> yields e E Q (ret a)"
  by (simp add: yields_def ret_def)

lemma yields_bnd:
  assumes "yields e E R m" and "\<And>a. R a \<Longrightarrow> yields e E Q (f a)"
  shows "yields e E Q (bnd m f)"
  unfolding yields_def
proof
  fix w
  obtain r w' where r: "m e w = (r, w')" by fastforce
  have "case r of Inl x \<Rightarrow> E x | Inr v \<Rightarrow> R v" using assms(1) r unfolding yields_def by (metis fst_conv)
  then show "case fst (bnd m f e w) of Inl x \<Rightarrow> E x | Inr v \<Rightarrow> Q v"
    using assms(2) r by (cases r) (auto simp: bnd_apply yields_def)
qed

lemma yields_ask_rust: "yields e E (\<lambda>_. True) ask_rust"
  by (simp add: yields_def ask_rust_def)

lemma yields_lift: "\<exists>a. r = Inr a \<Longrightarrow> yields e E (\<lambda>_. True) (lift r)"
  by (auto simp: yields_def lift_def)

lemma answers_lift: "(\<And>v. r = Inr v \<Longrightarrow> Q v) \<Longrightarrow> answers Q (lift r)"
  by (simp add: answers_def lift_def)

lemma answers_bnd_dep:
  assumes "answers R m" and "\<And>a. R a \<Longrightarrow> answers Q (f a)"
  shows "answers Q (bnd m f)"
  unfolding answers_def
proof (intro allI impI)
  fix e w v assume v: "fst (bnd m f e w) = Inr v"
  then obtain a w' where a: "m e w = (Inr a, w')" and "fst (f a e w') = Inr v"
    by (auto simp: bnd_apply split: prod.splits sum.splits)
  moreover have "R a" using assms(1) a by (metis answersD fst_conv)
  ultimately show "Q v" using assms(2) by (auto dest: answersD)
qed

lemma ebind_ok: "\<exists>a. m = Inr a \<Longrightarrow> (\<And>a. \<exists>b. f a = Inr b) \<Longrightarrow> \<exists>b. ebind m f = Inr b"
  by auto

lemma emap_ok: "(\<And>x. x \<in> set xs \<Longrightarrow> \<exists>y. f x = Inr y) \<Longrightarrow> \<exists>ys. emap f xs = Inr ys"
proof (induction xs)
  case (Cons x xs)
  from Cons.prems obtain y where "f x = Inr y" by auto
  moreover from Cons obtain ys where "emap f xs = Inr ys" by auto
  ultimately show ?case by simp
qed simp

text \<open>A dict of integers: what every family of counters is read as.\<close>

fun is_int :: "pyval \<Rightarrow> bool" where
  "is_int (PInt i) = True"
| "is_int _ = False"

fun int_dict :: "pyval \<Rightarrow> bool" where
  "int_dict (PDict kvs) = list_all (\<lambda>(k, v). is_int v) kvs"
| "int_dict _ = False"

lemma fill_counts_ints:
  "int_dict (PDict acc) \<Longrightarrow> fill_counts acc xs = Inr d \<Longrightarrow> int_dict (PDict d)"
proof (induction acc xs rule: fill_counts.induct)
  case (2 acc label v rest)
  have "int_dict (PDict (AList.update label (PInt i) acc))" for i
    using 2(2) by (induction acc) auto
  with 2 show ?case by (auto simp: ebind_eq_Inr)
qed simp

lemma counts_answer: "answers (\<lambda>d. int_dict (PDict d)) (lift (fill_counts [] xs))"
  by (rule answers_lift) (auto dest: fill_counts_ints [rotated])

lemma read_family_ints: "answers int_dict (read_family pattern count)"
  unfolding read_family_def
  by (intro answers_bnd answers_if answers_ret answers_bnd_dep [OF counts_answer]) simp_all

text \<open>The shape of a snapshot.\<close>

definition snapshot :: "pyval \<Rightarrow> pyval \<Rightarrow> bool" where
  "snapshot uptime m \<longleftrightarrow> (\<exists>t sc nr cr s n b af ad.
     m = PDict [(''total_requests'', PInt t), (''status_codes'', sc), (''uptime_seconds'', uptime),
        (''ns_requests'', nr), (''client_requests'', cr),
        (''latency'', PDict [(''sum'', s), (''count'', PInt n), (''buckets'', b)]),
        (''auth_failures'', af), (''audit_dropped'', ad)] \<and>
     list_all int_dict [sc, nr, cr, b, af, ad] \<and> (s = PInt 0 \<or> (\<exists>x. s = PFloat x)))"

lemma read_metrics_snapshot: "answers (snapshot uptime) (read_metrics pyfl uptime)"
  unfolding read_metrics_def
  apply (rule answers_bnd, rule answers_bnd)
  apply (rule answers_bnd_dep [OF read_family_ints])+
  apply (rule answers_bnd, rule answers_bnd, rule answers_bnd, rule answers_bnd)
  apply (rule answers_bnd_dep [OF counts_answer])
  apply (rule answers_bnd_dep [OF read_family_ints])+
  apply (rule answers_bnd, rule answers_bnd, rule answers_bnd, rule answers_ret)
  apply (simp add: snapshot_def)
  done

lemma get_metrics_snapshot: "yields e E (snapshot uptime) (get_metrics_async pyfl uptime)"
  unfolding yields_def
proof
  fix w
  obtain r w' where run: "read_metrics pyfl uptime e w = (r, w')" by fastforce
  show "case fst (get_metrics_async pyfl uptime e w) of Inl x \<Rightarrow> E x | Inr v \<Rightarrow> snapshot uptime v"
  proof (cases r)
    case (Inl x)
    then show ?thesis using run
      by (simp add: get_metrics_async_def catch_any_def ret_def snapshot_def empty_metrics_def)
  next
    case (Inr v)
    then have "snapshot uptime v" using run answersD [OF read_metrics_snapshot] by (metis fst_conv)
    with Inr show ?thesis using run by (simp add: get_metrics_async_def catch_any_def)
  qed
qed

text \<open>
  Values whose text can be taken, and the reply of \<open>INFO\<close> as the client parses it: a dict in which
  the fields the scrape reads, where they are present, are such.
\<close>

definition printable :: "(pyfloat \<Rightarrow> string) \<Rightarrow> pyval \<Rightarrow> bool" where
  "printable fl v \<longleftrightarrow> (case fmt fl v of Inl x \<Rightarrow> False | Inr s \<Rightarrow> True)"

definition info_fields :: "string list" where
  "info_fields = [''used_memory'', ''maxmemory'', ''instantaneous_ops_per_sec'', ''keyspace_hits'', ''keyspace_misses'',
     ''evicted_keys'', ''connected_clients'']"

fun info_dict :: "(pyfloat \<Rightarrow> string) \<Rightarrow> pyval \<Rightarrow> bool" where
  "info_dict fl (PDict kvs) = list_all (\<lambda>k. case map_of kvs k of None \<Rightarrow> True | Some v \<Rightarrow> printable fl v) info_fields"
| "info_dict fl _ = False"

lemma printable_simps [simp]:
  "printable fl (PInt i)" "printable fl (PFloat x)" "printable fl (PStr s)"
  by (simp_all add: printable_def fmt_def)

lemma printableE: "printable fl v \<Longrightarrow> (\<And>s. fmt fl v = Inr s \<Longrightarrow> thesis) \<Longrightarrow> thesis"
  by (cases "fmt fl v") (simp_all add: printable_def)

lemma info_default:
  assumes "info_dict fl info"
  shows "list_all (\<lambda>k. \<exists>v. get_default info k (PInt i) = Inr v \<and> printable fl v) info_fields"
proof (cases info)
  case (PDict kvs)
  have "(case map_of kvs k of None \<Rightarrow> True | Some v \<Rightarrow> printable fl v) \<Longrightarrow> \<exists>v. get_default info k (PInt i) = Inr v \<and> printable fl v" for k
    by (cases "map_of kvs k") (simp_all add: PDict get_default_def)
  then show ?thesis using assms PDict by (auto simp: list_all_iff)
qed (use assms in simp_all)

lemma plain_lines_ok: "printable fl v \<Longrightarrow> \<exists>ls. plain_lines fl metric help kind v = Inr ls"
  by (erule printableE) (simp add: plain_lines_def)

lemma samples_ok: "list_all (\<lambda>(k, v). is_int v) kvs \<Longrightarrow> \<exists>ls. emap (sample fl metric label) kvs = Inr ls"
proof (rule emap_ok)
  fix x assume "list_all (\<lambda>(k, v). is_int v) kvs" and "x \<in> set kvs"
  then have "is_int (snd x)" by (auto simp: list_all_iff)
  then obtain i where "snd x = PInt i" by (cases "snd x") auto
  then show "\<exists>y. sample fl metric label x = Inr y" by (simp add: sample_def fmt_def)
qed

lemma int_dictE: "int_dict d \<Longrightarrow> (\<And>kvs. d = PDict kvs \<Longrightarrow> list_all (\<lambda>(k, v). is_int v) kvs \<Longrightarrow> thesis) \<Longrightarrow> thesis"
  by (cases d) auto

lemma family_lines_ok: "int_dict d \<Longrightarrow> \<exists>ls. family_lines fl always metric help kind label d = Inr ls"
  by (erule int_dictE) (auto simp: family_lines_def intro!: ebind_ok samples_ok)

lemma latency_lines_ok:
  assumes "int_dict b" and "printable fl s"
  shows "\<exists>ls. latency_lines fl (PDict [(''sum'', s), (''count'', PInt n), (''buckets'', b)]) = Inr ls"
proof -
  obtain kvs where b: "b = PDict kvs" "list_all (\<lambda>(k, v). is_int v) kvs" using assms(1) by (rule int_dictE)
  from assms(2) obtain st where "fmt fl s = Inr st" by (rule printableE)
  moreover obtain ls where "emap (sample fl ''redgw_request_duration_ms_bucket'' ''le'') kvs = Inr ls"
    using samples_ok [OF b(2)] by blast
  ultimately show ?thesis using b(1) by (simp add: latency_lines_def get_default_def fmt_def)
qed

lemma emap_id_ok: "list_all (\<lambda>g. \<exists>ls. g = Inr ls) gs \<Longrightarrow> \<exists>ys. emap id gs = Inr ys"
  by (rule emap_ok) (auto simp: list_all_iff)

lemma metrics_lines_ok:
  assumes "snapshot (PFloat u) m" and "info_dict fl info" and "info_dict fl stats" and "info_dict fl clients_info"
  shows "\<exists>ls. metrics_lines fl rust m info stats clients_info ns_counts = Inr ls"
proof -
  obtain t sc nr cr s n b af ad where m:
    "m = PDict [(''total_requests'', PInt t), (''status_codes'', sc), (''uptime_seconds'', PFloat u),
        (''ns_requests'', nr), (''client_requests'', cr),
        (''latency'', PDict [(''sum'', s), (''count'', PInt n), (''buckets'', b)]),
        (''auth_failures'', af), (''audit_dropped'', ad)]"
    and ints: "int_dict sc" "int_dict nr" "int_dict cr" "int_dict b" "int_dict af"
    and s: "printable fl s"
    using assms(1) unfolding snapshot_def by auto
  obtain used maxmem where 1: "get_default info ''used_memory'' (PInt 0) = Inr used" "printable fl used"
    "get_default info ''maxmemory'' (PInt 0) = Inr maxmem" "printable fl maxmem"
    using info_default [OF assms(2), of 0] unfolding info_fields_def by auto
  obtain ops hits misses evicted where 2: "get_default stats ''instantaneous_ops_per_sec'' (PInt 0) = Inr ops" "printable fl ops"
    "get_default stats ''keyspace_hits'' (PInt 0) = Inr hits" "printable fl hits"
    "get_default stats ''keyspace_misses'' (PInt 0) = Inr misses" "printable fl misses"
    "get_default stats ''evicted_keys'' (PInt 0) = Inr evicted" "printable fl evicted"
    using info_default [OF assms(3), of 0] unfolding info_fields_def by auto
  obtain conns where 3: "get_default clients_info ''connected_clients'' (PInt 0) = Inr conns" "printable fl conns"
    using info_default [OF assms(4), of 0] unfolding info_fields_def by auto
  have m': "dict_item m ''status_codes'' = Inr sc" "dict_item m ''uptime_seconds'' = Inr (PFloat u)"
    "get_default m ''latency'' d = Inr (PDict [(''sum'', s), (''count'', PInt n), (''buckets'', b)])"
    "get_default m ''ns_requests'' d = Inr nr" "get_default m ''client_requests'' d = Inr cr"
    "get_default m ''auth_failures'' d = Inr af" for d
    by (simp_all add: m dict_item_def get_default_def)
  have counts: "int_dict (PDict (map (\<lambda>(k, n). (k, PInt n)) ns_counts))" by (auto simp: list_all_iff)
  note ok = ints [THEN family_lines_ok] family_lines_ok [OF counts] latency_lines_ok [OF ints(4) s]
    plain_lines_ok [OF 1(2)] plain_lines_ok [OF 1(4)] plain_lines_ok [OF 2(2)] plain_lines_ok [OF 2(4)]
    plain_lines_ok [OF 2(6)] plain_lines_ok [OF 2(8)] plain_lines_ok [OF 3(2)]
    plain_lines_ok [OF printable_simps(2)]
  show ?thesis
    unfolding metrics_lines_def 1 2 3 m' ebind_simps
    by (intro ebind_ok emap_id_ok) (simp_all add: ok)
qed

text \<open>What is assumed of the server, and only where it answers: the three sections, read as above.\<close>

definition info_sections :: "string list" where
  "info_sections = [''memory'', ''stats'', ''clients'']"

definition info_documented :: "(pyfloat \<Rightarrow> string) \<Rightarrow> 'r redis \<Rightarrow> bool" where
  "info_documented fl srv \<longleftrightarrow>
     (\<forall>sec \<in> set info_sections. \<forall>s. case fst (call srv (INFO sec) s) of Inl x \<Rightarrow> True | Inr v \<Rightarrow> info_dict fl v)"

text \<open>What \<open>INFO\<close> of one of them, or the scan of the keys, raised.\<close>

definition server_failed :: "'r redis \<Rightarrow> rerr \<Rightarrow> bool" where
  "server_failed srv x \<longleftrightarrow> (\<exists>sec \<in> set info_sections. \<exists>s. fst (call srv (INFO sec) s) = Inl x) \<or>
     (\<exists>s. snd (fst (scan_iter srv ''*'' 500 s)) = Some x)"

abbreviation scrape_error :: "'r redis \<Rightarrow> exc \<Rightarrow> bool" where
  "scrape_error srv x \<equiv> \<exists>y. x = RedisExc y \<and> server_failed srv y"

lemma yields_info:
  fixes e :: "'r env"
  assumes "info_documented fl (redis e)" and "sec \<in> set info_sections"
  shows "yields e (scrape_error (redis e)) (info_dict fl) (send (INFO sec))"
  unfolding yields_def
proof
  fix w :: "'r world"
  obtain r s where c: "call (redis e) (INFO sec) (rstate w) = (r, s)" by fastforce
  with assms have "case r of Inl x \<Rightarrow> True | Inr v \<Rightarrow> info_dict fl v" unfolding info_documented_def by (metis fst_conv)
  moreover have "server_failed (redis e) x" if "r = Inl x" for x
    using c assms(2) that unfolding server_failed_def by (metis fst_conv)
  ultimately show "case fst (send (INFO sec) e w) of Inl x \<Rightarrow> scrape_error (redis e) x | Inr v \<Rightarrow> info_dict fl v"
    using c by (cases r) (simp_all add: send_def)
qed

lemma yields_counts:
  fixes e :: "'r env"
  shows "yields e (scrape_error (redis e)) (\<lambda>_. True) (get_ns_counts_cached later cache)"
  unfolding yields_def
proof
  fix w :: "'r world"
  obtain ks err s where sc: "scan_iter (redis e) ''*'' 500 (rstate w) = ((ks, err), s)" by (metis prod.collapse)
  have "server_failed (redis e) x" if "err = Some x" for x
    using sc that unfolding server_failed_def by (metis fst_conv snd_conv)
  then show "case fst (get_ns_counts_cached later cache e w) of Inl x \<Rightarrow> scrape_error (redis e) x | Inr v \<Rightarrow> True"
    using sc by (cases "scan_loop (ns_counts_step (use_rust e)) ks ([], 0)")
      (auto simp: get_ns_counts_cached_def act_simps ask_rust_def scan_fold_def split: prod.splits bool.splits sum.splits option.splits)
qed

lemma scrape_yields:
  assumes "client_id client = ''admin''" and "info_documented fl (redis e)"
  shows "yields e (scrape_error (redis e)) (\<lambda>_. True) (prometheus_metrics pyfl fl (PFloat u) now later client cache)"
proof (cases "fst (fst cache) \<noteq> [] \<and> now - snd (fst cache) < METRICS_TEXT_TTL")
  case True
  then show ?thesis using assms(1)
    by (auto simp: prometheus_metrics_def require_admin_def act_simps yields_def split: prod.splits)
next
  case False
  obtain page ts ns_cache where c: "cache = ((page, ts), ns_cache)" by (metis prod.collapse)
  note info = yields_bnd [OF yields_info [OF assms(2)]]
  have sections: "''memory'' \<in> set info_sections" "''stats'' \<in> set info_sections" "''clients'' \<in> set info_sections"
    by (simp_all add: info_sections_def)
  show ?thesis
    using False assms(1) unfolding prometheus_metrics_def require_admin_def Let_def c
    apply simp
    apply (intro impI conjI, blast)
    apply (rule yields_bnd [OF get_metrics_snapshot], rule info [OF sections(1)], rule info [OF sections(2)], rule info [OF sections(3)])
    apply (rule yields_bnd [OF yields_counts])
    apply (clarsimp split del: if_split)
    apply (rule yields_bnd [OF yields_ask_rust], rule yields_bnd, rule yields_lift)
     apply (erule (3) metrics_lines_ok)
    apply (rule yields_ret, simp)
    done
qed

text \<open>C40: a scrape by the administrator fails only by what the server raised on \<open>INFO memory\<close>, \<open>stats\<close> or
  \<open>clients\<close> or on the scan of the keys, which is answered 500; otherwise it is answered with a text that
  is not empty. A failure in reading the counters, their contents and what \<open>INFO\<close> leaves out never
  make it fail. Of the server it is assumed that where it answers these three \<open>INFO\<close>, the fields that are
  read hold no container.\<close>

theorem scrape_answers:
  fixes e :: "'r env" and w :: "'r world" and pyfl :: "string \<Rightarrow> pyfloat option" and u :: pyfloat
    and now later :: rat and cache :: metrics_cache
  assumes "client_id client = ''admin''" and "info_documented fl (redis e)"
  defines "out \<equiv> fst (prometheus_metrics pyfl fl (PFloat u) now later client cache e w)"
  shows "case out of Inr (page, cache') \<Rightarrow> page \<noteq> []
    | Inl x \<Rightarrow> fst (respond (Inl x)) = 500 \<and> (\<exists>y. x = RedisExc y \<and>
        ((\<exists>sec \<in> {''memory'', ''stats'', ''clients''}. \<exists>s. fst (call (redis e) (INFO sec) s) = Inl y) \<or>
         (\<exists>s. snd (fst (scan_iter (redis e) ''*'' 500 s)) = Some y)))"
proof (cases out)
  case (Inl x)
  then have "scrape_error (redis e) x"
    unfolding out_def by (rule yields_error [OF scrape_yields [OF assms(1,2)]])
  then show ?thesis unfolding Inl by (auto simp: respond_def global_exception_handler_def server_failed_def info_sections_def)
next
  case (Inr v)
  then obtain page cache' where v: "out = Inr (page, cache')" by (cases v) auto
  with prometheus_text show ?thesis unfolding out_def by fastforce
qed

lemma sample_info_documented: "info_documented fl (redis sample_scan_env)"
  by (simp add: info_documented_def list_all_iff)

lemma sample_server_works: "\<not> server_failed (redis sample_scan_env) x"
  by (simp add: server_failed_def)

theorem scrape_answers_witness:
  "\<exists>page cache'. fst (prometheus_metrics (\<lambda>s. None) (\<lambda>x. ''0'') (PFloat (Flt 0)) 100 101 admin_client (([], 0), ([], 0))
     sample_scan_env (sample_world Map.empty)) = Inr (page, cache') \<and> page \<noteq> []"
proof -
  have "client_id admin_client = ''admin''" by (simp add: admin_client_def)
  from scrape_answers [OF this sample_info_documented, of "\<lambda>s. None" "\<lambda>x. ''0''" "Flt 0" 100 101 "(([], 0), ([], 0))" "sample_world Map.empty"]
  show ?thesis using sample_server_works by (auto simp: server_failed_def split: sum.splits)
qed

text \<open>The text just made is the one cached.\<close>

lemma prometheus_fresh:
  "fst (prometheus_metrics pyfl fl up now later client (([], ts), ns_cache) e w) = Inr (page, cache') \<Longrightarrow> fst cache' = (page, now)"
proof -
  have "answers (\<lambda>(r, c). fst c = (r, now)) (prometheus_metrics pyfl fl up now later client (([], ts), ns_cache))"
    unfolding prometheus_metrics_def Let_def by (auto intro!: answers_intros)
  then show "fst (prometheus_metrics pyfl fl up now later client (([], ts), ns_cache) e w) = Inr (page, cache') \<Longrightarrow> ?thesis"
    by (auto dest: answersD)
qed

lemma sample_scrape:
  "\<exists>page ns_cache. fst (prometheus_metrics (\<lambda>s. None) (\<lambda>x. ''0'') (PFloat (Flt 0)) 100 101 admin_client (([], 0), ([], 0))
     sample_scan_env (sample_world Map.empty)) = Inr (page, ((page, 100), ns_cache))"
proof -
  have "yields sample_scan_env (scrape_error (redis sample_scan_env)) (\<lambda>_. True) (prometheus_metrics (\<lambda>s. None) (\<lambda>x. ''0'') (PFloat (Flt 0)) 100 101 admin_client (([], 0), ([], 0)))"
    using sample_info_documented by (intro scrape_yields) (simp_all add: admin_client_def)
  from yields_error [OF this, of "sample_world Map.empty"] sample_server_works obtain r where
    r: "fst (prometheus_metrics (\<lambda>s. None) (\<lambda>x. ''0'') (PFloat (Flt 0)) 100 101 admin_client (([], 0), ([], 0))
     sample_scan_env (sample_world Map.empty)) = Inr r"
    by (cases "fst (prometheus_metrics (\<lambda>s. None) (\<lambda>x. ''0'') (PFloat (Flt 0)) 100 101 admin_client (([], 0), ([], 0))
     sample_scan_env (sample_world Map.empty))") blast+
  then have "fst (snd r) = (fst r, 100)"
    using prometheus_fresh [where page = "fst r" and cache' = "snd r"] by simp
  then have "r = (fst r, ((fst r, 100), snd (snd r)))" by (simp add: prod_eq_iff)
  with r show ?thesis by (intro exI [of _ "fst r"] exI [of _ "snd (snd r)"]) simp
qed

text \<open>The text of the metrics is made at most once in five seconds: a scrape by the administrator within
  five seconds of the one that made it is given the same text, changes no cache and sends nothing
  to Redis.\<close>

theorem metrics_text_cached:
  assumes "fst (prometheus_metrics pyfl fl up now later client cache e w) = Inr (result, ((result, now), ns_cache))"
    and "now' - now < METRICS_TEXT_TTL"
  shows "prometheus_metrics pyfl' fl' up' now' later' client ((result, now), ns_cache) e' w' =
    (Inr (result, ((result, now), ns_cache)), w')"
  using prometheus_text [OF assms(1)] assms(2)
  by (simp add: prometheus_metrics_def act_simps require_admin_apply)

theorem metrics_text_cached_witness:
  "\<exists>page c. prometheus_metrics (\<lambda>s. None) (\<lambda>x. ''0'') (PFloat (Flt 4)) 104 104 admin_client ((page, 100), c)
     sample_scan_env (sample_world Map.empty) = (Inr (page, ((page, 100), c)), sample_world Map.empty)"
proof -
  obtain page c where r: "fst (prometheus_metrics (\<lambda>s. None) (\<lambda>x. ''0'') (PFloat (Flt 0)) 100 101 admin_client (([], 0), ([], 0))
     sample_scan_env (sample_world Map.empty)) = Inr (page, ((page, 100), c))"
    using sample_scrape by blast
  have "104 - 100 < METRICS_TEXT_TTL" by (simp add: METRICS_TEXT_TTL_def)
  from metrics_text_cached [OF r this] show ?thesis by blast
qed

end
