(* ===== verification/Application.thy ===== *)
theory Application
  imports Middleware AuditAdmin ConfigValidator RedisManager FileLogger Scrape
begin

text \<open>
  \<open>app/main.py\<close> and \<open>app/audit/banner.py\<close>: the banner, the start and the end of a worker, the health
  check, and the status line one of the workers writes. The texts of a \<open>float\<close>, rounding, the art of
  the logo and the times are parameters. A log line is its tag, level and text.
\<close>

type_synonym app_line = "string \<times> string \<times> string"

definition main_line :: "string \<Rightarrow> app_line" where
  "main_line s = (''MAIN'', ''I'', s)"

section \<open>The audit banner\<close>

definition yes_no :: "bool \<Rightarrow> string" where
  "yes_no b = (if b then ''true'' else ''false'')"

text \<open>
  \<open>fmt1\<close> is \<open>f"{x:.1f}"\<close>, \<open>rnd x\<close> is \<open>round(x, 1)\<close> and \<open>fl\<close> its text; \<open>oserr\<close> is the text of the
  exception when the disk cannot be asked.
\<close>

definition disk_line :: "(rat \<Rightarrow> string) \<Rightarrow> (rat \<Rightarrow> string) \<Rightarrow> string \<Rightarrow> rat \<Rightarrow> (nat \<times> nat \<times> nat) option \<Rightarrow> string" where
  "disk_line fmt1 fl oserr free_pct usage = (case usage of
       Some (total_b, used_b, free_b) \<Rightarrow>
         ''[AUDIT] Disk capacity : total='' @ fmt1 (of_nat total_b / 1024 ^ 3) @ '' GB  used='' @ fmt1 (of_nat used_b / 1024 ^ 3) @
         '' GB  free='' @ fmt1 (of_nat free_b / 1024 ^ 3) @ '' GB ('' @ fl free_pct @ ''% free)''
     | None \<Rightarrow> ''[AUDIT] Disk capacity : (unavailable: '' @ oserr @ '')'')"

definition banner_free_pct :: "(rat \<Rightarrow> rat) \<Rightarrow> audit_dir_view \<Rightarrow> rat" where
  "banner_free_pct rnd dir =
     (if dir_there dir
      then (case disk_usage dir of
              Some (total_b, used_b, free_b) \<Rightarrow> if total_b > 0 then rnd (of_nat free_b / of_nat total_b * 100) else 0
            | None \<Rightarrow> 100)
      else 100)"

definition banner_usage :: "audit_dir_view \<Rightarrow> nat \<times> nat" where
  "banner_usage dir = (case dir_files dir of None \<Rightarrow> (0, 0) | Some fs \<Rightarrow> foldl count_audit_file (0, 0) fs)"

definition level_name :: "int \<Rightarrow> string" where
  "level_name lv = (if lv = 1 then ''BASIC'' else if lv = 2 then ''FULL'' else ''?'')"

definition format_audit_banner ::
  "(rat \<Rightarrow> string) \<Rightarrow> (rat \<Rightarrow> string) \<Rightarrow> (rat \<Rightarrow> rat) \<Rightarrow> string \<Rightarrow> audit_dir_view \<Rightarrow> audit_config \<Rightarrow> string list" where
  "format_audit_banner fmt1 fl rnd oserr dir config =
     (if audit_level config = 0 then
        [''*** WARNING: AUDIT_LEVEL=0 - audit logging FULLY DISABLED ***'',
         ''*** No write/delete/auth events will be persisted ***'',
         ''*** Not recommended for production ***'']
      else
        (let free_pct = banner_free_pct rnd dir in
         [''[AUDIT] Level         : '' @ int_str (audit_level config) @ '' ('' @ level_name (audit_level config) @ '')'',
          ''[AUDIT] Directory     : '' @ audit_directory config] @
         (if dir_there dir
          then [disk_line fmt1 fl oserr free_pct (disk_usage dir),
                ''[AUDIT] Current usage : '' @ fmt1 (of_nat (fst (banner_usage dir)) / 1024 ^ 2) @ '' MB across '' @
                  nat_str (snd (banner_usage dir)) @ '' files'']
          else [''[AUDIT] Disk capacity : (directory not yet created)'', ''[AUDIT] Current usage : 0.0 MB across 0 files'']) @
         [''[AUDIT] Limits        : max_total='' @ int_str (max_total_size_mb config) @ '' MB  retention='' @
            int_str (retention_days config) @ '' days  rotation='' @ int_str (max_file_size_mb config) @ '' MB/file'',
          ''[AUDIT] Policy        : payload='' @
            (if payload_prefix_bytes config = 0 then ''hash-only''
             else ''hash+prefix('' @ int_str (payload_prefix_bytes config) @ ''B)'') @
            ''  exclude='' @ join_strs '','' (exclude_paths config) @ ''  per_worker='' @ yes_no (per_worker_files config) @
            ''  correlation='' @ yes_no (correlation config)] @
         (if free_pct < of_int (disk_min_free_pct config)
          then [''[AUDIT] *** LOW DISK: free '' @ fl free_pct @ ''% < threshold '' @ int_str (disk_min_free_pct config) @ ''% ***'']
          else [])))"

section \<open>The start of a worker\<close>

text \<open>\<open>url.rsplit("@", 1)[-1]\<close>.\<close>

definition after_last_at :: "string \<Rightarrow> string" where
  "after_last_at s = rev (takeWhile (\<lambda>c. c \<noteq> CHR ''@'') (rev s))"

definition banner_level :: "string \<Rightarrow> string" where
  "banner_level l = (if starts_with ''***'' l \<or> contains ''WARNING'' l \<or> contains ''LOW DISK'' l then ''W'' else ''I'')"

text \<open>
  What the surroundings give a starting worker: what making the two log directories raises, whether
  this worker got the start lock, the lines of the logo, the version, which implementations were
  loaded, the lines of the audit banner, the texts of hints and lists, and the attempts to connect.
\<close>

record start_world =
  file_logger_fails :: "exc option"
  audit_fails :: "exc option"
  got_lock :: bool
  logo :: "string list"
  rust_keys :: bool
  rust_limits :: bool
  audit_banner :: "string list"
  hint_text :: "hint \<Rightarrow> string"
  show_list :: "string list \<Rightarrow> string"
  attempts :: "nat \<Rightarrow> attempt"

record worker =
  worker_audit :: audit_state
  worker_manager :: manager
  initial_connected :: bool
  monitor_running :: bool
  holds_lock :: bool
  worker_log :: "app_line list"

definition core_engine_line :: "start_world \<Rightarrow> string" where
  "core_engine_line sw = ''Core engine: '' @
     (if rust_keys sw \<and> rust_limits sw then ''Rust (redgw_core)'' else ''Python (fallback)'')"

definition start_banner :: "start_world \<Rightarrow> app_line list" where
  "start_banner sw = map main_line (logo sw) @ [main_line (core_engine_line sw)] @
     map (\<lambda>l. (''MAIN'', banner_level l, l)) (audit_banner sw)"

definition fatal_line :: app_line where
  "fatal_line = (''MAIN'', ''F'', ''FATAL configuration errors'' @ em_dash @ ''process terminated'')"

text \<open>\<open>lifespan\<close> up to its \<open>yield\<close>: the exception that stops the worker, or the worker; and the log so far.\<close>

definition lifespan_start :: "start_world \<Rightarrow> environ \<Rightarrow> settings \<Rightarrow> (exc + worker) \<times> app_line list" where
  "lifespan_start sw env s =
     (case file_logger_fails sw of
        Some x \<Rightarrow> (Inl x, [])
      | None \<Rightarrow>
          (let ast = snd (init_audit_logger (audit s) (audit_fails sw) audit_off);
               log1 = (if got_lock sw then start_banner sw else [])
           in case validate_config env s of
                Inl x \<Rightarrow> (Inl x, log1)
              | Inr warnings \<Rightarrow>
                  (let report = validate_all_configs (show_list sw) (Some s);
                       log2 = (if got_lock sw
                               then map (\<lambda>(lvl, l). (''CONFIG'', lvl, l)) (log_validation_report (hint_text sw) (Some s) report)
                               else [])
                   in if has_fatal report
                      then (Inl sys_exit, log1 @ log2 @
                        (if got_lock sw then [fatal_line] else []))
                      else
                        (case connect 3 (attempts sw) new_manager of (connected', m) \<Rightarrow>
                           let log3 = (if got_lock sw
                                 then [if connected' then main_line (''Redis connected: '' @ after_last_at (redis_url (redis_cfg s)))
                                       else (''MAIN'', ''W'', ''Redis unavailable'' @ em_dash @ ''starting in degraded mode'')]
                                 else [])
                           in (Inr \<lparr>worker_audit = ast, worker_manager = m, initial_connected = connected',
                                 monitor_running = connected', holds_lock = got_lock sw, worker_log = log1 @ log2 @ log3\<rparr>,
                               log1 @ log2 @ log3)))))"

text \<open>
  What follows the \<open>yield\<close>: the monitor is stopped, the lock is given back, the audit log is shut down,
  the client is closed (which may raise, and then the last line is not written).
\<close>

definition lifespan_stop :: "exc option \<Rightarrow> worker \<Rightarrow> (exc + unit) \<times> worker" where
  "lifespan_stop close_error wk =
     (let wk1 = wk\<lparr>monitor_running := False, holds_lock := False,
            worker_log := worker_log wk @ [main_line ''RedGW shutting down...'']\<rparr>;
          was_active = active (worker_audit wk1);
          (n, ast) = shutdown_audit_logger (worker_audit wk1);
          wk2 = wk1\<lparr>worker_audit := ast, worker_log := worker_log wk1 @
            (if was_active then [main_line (''Audit shutdown'' @ em_dash @ ''flushed '' @ nat_str n @ '' events since start'')] else [])\<rparr>;
          (r, m) = disconnect close_error (worker_manager wk2)
      in case r of
           Inl x \<Rightarrow> (Inl x, wk2\<lparr>worker_manager := m\<rparr>)
         | Inr _ \<Rightarrow> (Inr (), wk2\<lparr>worker_manager := m, worker_log := worker_log wk2 @ [main_line ''RedGW stopped'']\<rparr>))"

section \<open>Memory, health and status\<close>

text \<open>\<open>info.get(name, 0)\<close> as the number it is divided as.\<close>

definition info_number :: "pyval \<Rightarrow> string \<Rightarrow> exc + int" where
  "info_number info name = ebind (get_default info name (PInt 0)) (\<lambda>v.
     case v of PInt n \<Rightarrow> Inr n | _ \<Rightarrow> Inl (PyExc ''TypeError''))"

definition mb :: "int \<Rightarrow> rat" where
  "mb n = of_int n / 1024 / 1024"

definition memory_usage :: "(rat \<Rightarrow> rat) \<Rightarrow> int \<Rightarrow> int \<Rightarrow> rat option" where
  "memory_usage rnd used maxmem = (if maxmem \<noteq> 0 then Some (rnd (rnd (mb used) / mb maxmem * 100)) else None)"

definition opt_float :: "rat option \<Rightarrow> pyval" where
  "opt_float q = (case q of Some x \<Rightarrow> PFloat (Flt x) | None \<Rightarrow> PNone)"

text \<open>The memory part of the answer of \<open>/health\<close>; whatever raises leaves it out.\<close>

definition memory_info :: "(rat \<Rightarrow> rat) \<Rightarrow> exc + pyval \<Rightarrow> (string \<times> pyval) list \<times> rat option" where
  "memory_info rnd reply = (case ebind reply (\<lambda>info. ebind (info_number info ''used_memory'') (\<lambda>used.
       ebind (info_number info ''maxmemory'') (\<lambda>maxmem. Inr (used, maxmem)))) of
       Inl x \<Rightarrow> ([], None)
     | Inr (used, maxmem) \<Rightarrow>
         ([(''used_mb'', PFloat (Flt (rnd (mb used)))),
           (''limit_mb'', if maxmem \<noteq> 0 then PFloat (Flt (rnd (mb maxmem))) else PNone),
           (''usage_pct'', opt_float (memory_usage rnd used maxmem))], memory_usage rnd used maxmem))"

definition health_status :: "bool \<Rightarrow> rat option \<Rightarrow> string" where
  "health_status redis_ok usage_pct =
     (if \<not> redis_ok then ''degraded''
      else case usage_pct of
             Some q \<Rightarrow> if q \<ge> 90 then ''degraded'' else ''healthy''
           | None \<Rightarrow> ''healthy'')"

text \<open>
  \<open>/health\<close>: the answer, the line of the log when the connection changed, and what is remembered of it
  (\<open>None\<close> before the first call, when the state at start-up counts).
\<close>

definition health_check ::
  "(rat \<Rightarrow> rat) \<Rightarrow> settings \<Rightarrow> bool \<Rightarrow> manager \<Rightarrow> ping_result \<Rightarrow> exc + pyval \<Rightarrow> rat \<Rightarrow> bool option
     \<Rightarrow> pyval \<times> string option \<times> bool option" where
  "health_check rnd s initial m answer reply latency prev =
     (let redis_ok = ping answer m;
          (memory, usage_pct) = (if redis_ok then memory_info rnd reply else ([], None));
          before = (case prev of Some b \<Rightarrow> b | None \<Rightarrow> initial)
      in (PDict [(''status'', PStr (health_status redis_ok usage_pct)),
            (''redis'', PDict ([(''connected'', PBool redis_ok),
               (''latency_ms'', if redis_ok then PFloat (Flt latency) else PNone)] @ memory)),
            (''audit_level'', PInt (audit_level (audit s)))],
          if redis_ok \<noteq> before then Some (if redis_ok then ''Redis reconnected'' else ''Redis connection lost'') else None,
          Some redis_ok))"

definition STATUS_INTERVAL :: nat where
  "STATUS_INTERVAL = 600"

definition STATUS_LEADER_KEY :: string where
  "STATUS_LEADER_KEY = ''__redgw:status_monitor:tick''"

definition STATUS_LEADER_TTL :: int where
  "STATUS_LEADER_TTL = 480"

definition status_line :: "(rat \<Rightarrow> rat) \<Rightarrow> (rat \<Rightarrow> string) \<Rightarrow> int \<Rightarrow> int \<Rightarrow> string \<Rightarrow> app_line" where
  "status_line rnd fl used maxmem keys =
     (let used_mb = rnd (mb used);
          limit_mb = (if maxmem \<noteq> 0 then rnd (mb maxmem) else 0);
          usage_pct = (if limit_mb \<noteq> 0 then rnd (used_mb / limit_mb * 100) else 0)
      in (''STATUS'', if usage_pct \<ge> 80 then ''W'' else ''I'',
          ''Redis '' @ fl used_mb @ ''/'' @ fl limit_mb @ '' MB ('' @ fl usage_pct @ ''%) | keys: '' @ keys))"

definition emit_status_line :: "(rat \<Rightarrow> rat) \<Rightarrow> (rat \<Rightarrow> string) \<Rightarrow> ('r, app_line) act" where
  "emit_status_line rnd fl =
     bnd (send (OnServer (Info ''memory''))) (\<lambda>info.
     bnd (lift (info_number info ''used_memory'')) (\<lambda>used.
     bnd (lift (info_number info ''maxmemory'')) (\<lambda>maxmem.
     bnd (send DBSIZE) (\<lambda>keys.
     case py_str keys of
       Some k \<Rightarrow> ret (status_line rnd fl used maxmem k)
     | None \<Rightarrow> bad_unpack))))"

text \<open>One turn of the monitor: the worker that gets the lock writes the line; whatever raises is ignored.\<close>

definition status_tick :: "(rat \<Rightarrow> rat) \<Rightarrow> (rat \<Rightarrow> string) \<Rightarrow> string \<Rightarrow> ('r, app_line list) act" where
  "status_tick rnd fl pid =
     catch_any
       (bnd get_redis (\<lambda>_.
        bnd (send (SET STATUS_LEADER_KEY pid (Some STATUS_LEADER_TTL) True)) (\<lambda>leader.
        if truthy leader then bnd (emit_status_line rnd fl) (\<lambda>l. ret [l]) else ret [])))
       (ret [])"

section \<open>The root endpoint\<close>

definition root_answer :: "string \<Rightarrow> pyval" where
  "root_answer version = PDict [(''service'', PStr ''RedGW''), (''version'', PStr version),
     (''description'', PStr ''Redis Gateway for inter-system data sharing''), (''organization'', PStr ''Cubiware Co., Ltd.''),
     (''health'', PStr ''/health''), (''api'', PStr ''/api/v1'')]"

section \<open>Facts\<close>

text \<open>The address that is logged is what follows the last \<open>@\<close>, so no password.\<close>

lemma takeWhile_stop: "takeWhile (\<lambda>x. x \<noteq> c) (xs @ c # ys) = takeWhile (\<lambda>x. x \<noteq> c) xs"
  by (induction xs) simp_all

lemma address_without_password:
  "after_last_at (a @ CHR ''@'' # b) = after_last_at b" "CHR ''@'' \<notin> set (after_last_at s)"
  by (auto simp: after_last_at_def takeWhile_stop dest: set_takeWhileD)

lemma not_healthy_when_lost: "\<not> ping answer m \<Longrightarrow> fst (health_check rnd s i m answer reply lat prev) =
    PDict [(''status'', PStr ''degraded''), (''redis'', PDict [(''connected'', PBool False), (''latency_ms'', PNone)]),
      (''audit_level'', PInt (audit_level (audit s)))]"
  by (simp add: health_check_def health_status_def)

text \<open>A change of the connection is logged once: a second check with the same outcome is silent.\<close>

lemma health_logged_once:
  assumes "health_check rnd s i m answer reply lat prev = (v, l, prev')" and "ping answer' m' = ping answer m"
  shows "fst (snd (health_check rnd s i m' answer' reply' lat' prev')) = None"
  using assms by (auto simp: health_check_def Let_def split: prod.splits)

text \<open>While the lock is held, another worker writes nothing and sends nothing but its try.\<close>

lemma status_loser:
  assumes "documented_redis (redis e) view" and "view (rstate w) STATUS_LEADER_KEY \<noteq> None" and "connected w"
  shows "\<exists>w'. status_tick rnd fl pid e w = (Inr [], w') \<and> view (rstate w') = view (rstate w) \<and>
    sent w' = sent w @ [SET STATUS_LEADER_KEY pid (Some STATUS_LEADER_TTL) True]"
proof -
  let ?c = "SET STATUS_LEADER_KEY pid (Some STATUS_LEADER_TTL) True"
  have "covered ?c" by simp
  from send_docE [OF assms(1) this, of w] obtain s where
    "send ?c e w = (map_sum RedisExc id (fst (doc_step ?c (view (rstate w)))), w\<lparr>rstate := s, sent := sent w @ [?c]\<rparr>)"
    "view s = snd (doc_step ?c (view (rstate w)))" by blast
  then show ?thesis using assms(2,3)
    by (auto simp: status_tick_def catch_any_def act_simps get_redis_def)
qed

lemma fatal_line_not [simp]:
  "fatal_line \<noteq> main_line l" "fatal_line \<noteq> (''CONFIG'', x)" "fatal_line \<noteq> (''MAIN'', ''W'', l)" "fatal_line \<noteq> (''MAIN'', banner_level l, l')"
  by (simp_all add: fatal_line_def main_line_def banner_level_def)

lemma fatal_not_in_banner: "fatal_line \<notin> set (start_banner sw)"
  by (auto simp: start_banner_def)

lemma report_no_fatal: "distinct (configured_keys s) \<Longrightarrow> \<not> has_fatal (validate_all_configs show_l (Some s))"
  by (simp add: fatal_iff_duplicates)

lemma connect_outcome:
  assumes "\<forall>j. closes (world j)" and "connect n world new_manager = (r, m)"
  shows "(r \<longleftrightarrow> (\<exists>j. 1 \<le> j \<and> j \<le> n \<and> succeeds (world j))) \<and> (pool_client m \<noteq> None \<longleftrightarrow> r)"
  using connect_result [OF assms(1), of n] assms(2) by auto

lemma start_connects:
  assumes "file_logger_fails sw = None" and "\<forall>j. closes (attempts sw j)" and "distinct (configured_keys s)"
  shows "\<exists>wk. fst (lifespan_start sw env s) = Inr wk \<and>
    (initial_connected wk \<longleftrightarrow> (\<exists>j. 1 \<le> j \<and> j \<le> 3 \<and> succeeds (attempts sw j))) \<and>
    (monitor_running wk \<longleftrightarrow> initial_connected wk) \<and> (pool_client (worker_manager wk) \<noteq> None \<longleftrightarrow> initial_connected wk) \<and>
    (active (worker_audit wk) \<longleftrightarrow> audit_level (audit s) \<noteq> 0 \<and> audit_fails sw = None) \<and>
    fatal_line \<notin> set (snd (lifespan_start sw env s))"
proof -
  obtain ws where v: "validate_config env s = Inr ws" using assms(3) validate_config_ok by blast
  then have f: "\<not> has_fatal (validate_all_configs (show_list sw) (Some s))"
    using report_no_fatal [OF assms(3)] by blast
  obtain r m where c: "connect 3 (attempts sw) new_manager = (r, m)" by fastforce
  from connect_outcome [OF assms(2) c] assms(1) v f c fatal_not_in_banner show ?thesis
    by (auto simp: lifespan_start_def Let_def init_audit_logger_def audit_off_def split: option.splits)
qed

text \<open>C24: a worker whose log directory can be made starts exactly when no API key is given twice; otherwise it
  exits. When it starts, neither a failing audit log nor an unreachable Redis stops it: it keeps the
  connection of the first of three attempts that succeeds, with the monitor running, or runs without
  both. The branch that logs a fatal configuration is never reached.\<close>

theorem startup_outcome:
  assumes "file_logger_fails sw = None" and "\<forall>j. closes (attempts sw j)"
  shows "(\<not> distinct (configured_keys s) \<longrightarrow> fst (lifespan_start sw env s) = Inl sys_exit) \<and>
    (distinct (configured_keys s) \<longrightarrow> (\<exists>wk. fst (lifespan_start sw env s) = Inr wk \<and>
      (initial_connected wk \<longleftrightarrow> (\<exists>j. 1 \<le> j \<and> j \<le> 3 \<and> succeeds (attempts sw j))) \<and>
      (monitor_running wk \<longleftrightarrow> initial_connected wk) \<and> (pool_client (worker_manager wk) \<noteq> None \<longleftrightarrow> initial_connected wk) \<and>
      (active (worker_audit wk) \<longleftrightarrow> audit_level (audit s) \<noteq> 0 \<and> audit_fails sw = None))) \<and>
    fatal_line \<notin> set (snd (lifespan_start sw env s))"
proof (cases "distinct (configured_keys s)")
  case False
  then have v: "validate_config env s = Inl sys_exit" by (simp add: validate_config_def Let_def find_duplicates_Nil)
  then show ?thesis using assms(1) False fatal_not_in_banner by (auto simp: lifespan_start_def Let_def)
next
  case True
  with start_connects [OF assms True, of env] show ?thesis by blast
qed

lemma sample_keys_distinct: "distinct (configured_keys sample_settings)"
  by (simp add: configured_keys_def sample_settings_def)

theorem startup_outcome_witness:
  "let sw = \<lparr>file_logger_fails = None, audit_fails = Some (PyExc ''PermissionError''), got_lock = True, logo = [], rust_keys = True,
         rust_limits = True, audit_banner = [], hint_text = (\<lambda>_. []), show_list = concat,
         attempts = (\<lambda>_. \<lparr>builds = True, pinged = PingRaises, first_close_ok = True, second_close_ok = True\<rparr>)\<rparr>
   in \<exists>wk. fst (lifespan_start sw [] sample_settings) = Inr wk \<and> \<not> initial_connected wk \<and> \<not> monitor_running wk \<and>
     \<not> active (worker_audit wk)"
proof -
  let ?sw = "\<lparr>file_logger_fails = None, audit_fails = Some (PyExc ''PermissionError''), got_lock = True, logo = [], rust_keys = True,
         rust_limits = True, audit_banner = [], hint_text = (\<lambda>_. []), show_list = concat,
         attempts = (\<lambda>_. \<lparr>builds = True, pinged = PingRaises, first_close_ok = True, second_close_ok = True\<rparr>)\<rparr>"
  have "file_logger_fails ?sw = None" "\<forall>j. closes (attempts ?sw j)" by (simp_all add: closes_def)
  from startup_outcome [OF this, of sample_settings "[]"] sample_keys_distinct obtain wk where
    "fst (lifespan_start ?sw [] sample_settings) = Inr wk"
    "initial_connected wk \<longleftrightarrow> (\<exists>j. 1 \<le> j \<and> j \<le> 3 \<and> succeeds (attempts ?sw j))"
    "monitor_running wk \<longleftrightarrow> initial_connected wk"
    "active (worker_audit wk) \<longleftrightarrow> audit_level (audit sample_settings) \<noteq> 0 \<and> audit_fails ?sw = None"
    by blast
  then show ?thesis by (simp add: Let_def succeeds_def)
qed

text \<open>At the end of a worker everything it held is given back, even when closing the client raises.\<close>

lemma stop_gives_back:
  "pool_client (worker_manager (snd (lifespan_stop x wk))) = None \<and> \<not> monitor_running (snd (lifespan_stop x wk)) \<and>
   \<not> holds_lock (snd (lifespan_stop x wk)) \<and> \<not> active (worker_audit (snd (lifespan_stop x wk)))"
  by (auto simp: lifespan_stop_def disconnect_def close_client_def shutdown_audit_logger_def stop_listener_def Let_def
      split: option.splits)

text \<open>But then the last line of the log is missing.\<close>

lemma stop_line_missing:
  assumes "pool_client (worker_manager wk) = Some c" and "active (worker_audit wk) = False"
  shows "main_line ''RedGW stopped'' \<in> set (worker_log (snd (lifespan_stop None wk)))"
    and "worker_log (snd (lifespan_stop (Some x) wk)) = worker_log wk @ [main_line ''RedGW shutting down...'']"
  using assms by (simp_all add: lifespan_stop_def disconnect_def shutdown_audit_logger_def Let_def close_client_def)

end
