(* ===== verification/AdminPlane.thy ===== *)
theory AdminPlane
  imports Scrape AuditAdmin
begin

text \<open>
  \<open>app/routers/admin.py\<close>, the eight operations that only the administrator may use, each with its
  dependencies in front of the handler, and that all of them refuse every other client.
\<close>

section \<open>The requests\<close>

datatype admin_request =
    SetTtl string string string ttl_set_request
  | DeleteKey string string string
  | BulkDelete string "string option" string bool
  | ListClients
  | ServiceMetrics
  | PrometheusMetrics
  | HealthDetail
  | AuditOrigin string string string

text \<open>
  What the handlers take from outside: \<open>float()\<close> of a string and the text of a \<open>float\<close>, \<open>round\<close>, the
  uptime, the clock read twice, and the audit log as its directory and queue show it.
\<close>

record admin_params =
  float_of :: "string \<Rightarrow> pyfloat option"
  float_str :: "pyfloat \<Rightarrow> string"
  round_to :: "rat \<Rightarrow> nat \<Rightarrow> pyfloat"
  uptime_now :: pyval
  clock_now :: rat
  clock_later :: rat
  audit_dir_now :: audit_dir_view
  audit_log_now :: audit_state

text \<open>The caches of the module: that of the Prometheus text and that of the health detail.\<close>

record admin_caches =
  metrics_text :: metrics_cache
  health_detail :: health_cache

text \<open>A handler that uses no cache leaves them as they are.\<close>

definition uncached :: "admin_caches \<Rightarrow> ('r, pyval) act \<Rightarrow> ('r, pyval \<times> admin_caches) act" where
  "uncached caches m = bnd m (\<lambda>v. ret (v, caches))"

primrec admin_handle ::
  "admin_params \<Rightarrow> admin_caches \<Rightarrow> client_info \<Rightarrow> admin_request \<Rightarrow> ('r, pyval \<times> admin_caches) act" where
  "admin_handle p caches client (SetTtl ns type_name key body) = uncached caches (set_ttl client ns type_name key body)"
| "admin_handle p caches client (DeleteKey ns type_name key) = uncached caches (delete_key client ns type_name key)"
| "admin_handle p caches client (BulkDelete ns type_name pattern dry_run) =
     uncached caches (bulk_delete_keys client ns type_name pattern dry_run)"
| "admin_handle p caches client ListClients = uncached caches (list_clients client)"
| "admin_handle p caches client ServiceMetrics = uncached caches (service_metrics (float_of p) (uptime_now p) client)"
| "admin_handle p caches client PrometheusMetrics =
     bnd (prometheus_metrics (float_of p) (float_str p) (uptime_now p) (clock_now p) (clock_later p) client (metrics_text caches))
       (\<lambda>(page, cache). ret (PStr page, caches\<lparr>metrics_text := cache\<rparr>))"
| "admin_handle p caches client HealthDetail =
     bnd (admin_health_detail (round_to p) (audit_dir_now p) (audit_log_now p) (clock_now p) (health_detail caches) client)
       (\<lambda>(v, cache). ret (v, caches\<lparr>health_detail := cache\<rparr>))"
| "admin_handle p caches client (AuditOrigin ns type_name key) =
     uncached caches (admin_audit_origin (float_of p) client ns type_name key)"

text \<open>
  The dependencies, in the order of the parameters: the client and then Redis, where the handler
  uses it; \<open>admin_audit_origin\<close> asks for Redis first.
\<close>

datatype admin_depends = OnlyClient | ClientThenRedis | RedisThenClient

primrec depends_on :: "admin_request \<Rightarrow> admin_depends" where
  "depends_on (SetTtl ns type_name key body) = ClientThenRedis"
| "depends_on (DeleteKey ns type_name key) = ClientThenRedis"
| "depends_on (BulkDelete ns type_name pattern dry_run) = ClientThenRedis"
| "depends_on ListClients = OnlyClient"
| "depends_on ServiceMetrics = OnlyClient"
| "depends_on PrometheusMetrics = ClientThenRedis"
| "depends_on HealthDetail = OnlyClient"
| "depends_on (AuditOrigin ns type_name key) = RedisThenClient"

definition admin_endpoint ::
  "admin_params \<Rightarrow> admin_caches \<Rightarrow> string \<Rightarrow> admin_request \<Rightarrow> ('r, pyval \<times> admin_caches) act" where
  "admin_endpoint p caches x_api_key q =
     (case depends_on q of
        OnlyClient \<Rightarrow> bnd (verify_api_key x_api_key) (\<lambda>client. admin_handle p caches client q)
      | ClientThenRedis \<Rightarrow>
          bnd (verify_api_key x_api_key) (\<lambda>client. bnd get_redis (\<lambda>_. admin_handle p caches client q))
      | RedisThenClient \<Rightarrow>
          bnd get_redis (\<lambda>_. bnd (verify_api_key x_api_key) (\<lambda>client. admin_handle p caches client q)))"

section \<open>Only the administrator\<close>

definition admin_required :: exc where
  "admin_required = error ''ADMIN_REQUIRED'' ''Admin privileges required'' 403"

lemma admin_handle_refused:
  "client_id client \<noteq> ''admin'' \<Longrightarrow> admin_handle p caches client q e w =
     (Inl admin_required, after_denial ''admin_required'' ''ADMIN_REQUIRED'' w)"
  by (cases q) (simp_all add: uncached_def set_ttl_def delete_key_def bulk_delete_keys_def list_clients_def service_metrics_def
      prometheus_metrics_def admin_health_detail_def admin_audit_origin_def bnd_apply require_admin_apply admin_required_def)

lemma non_admin_key:
  assumes "map_of (build_key_map s) k = Some c" and "k \<noteq> admin_api_key (admin s) \<or> k = []"
  shows "client_id c \<noteq> ''admin''"
  using build_key_map_origin [OF assms(1)] assms(2) by (auto simp: admin_client_def)

text \<open>
  How such a request is refused: without Redis, that is found out first by \<open>admin_audit_origin\<close>, and
  by the others that use it after the key has been accepted.
\<close>

definition refusal :: "bool \<Rightarrow> bool \<Rightarrow> admin_request \<Rightarrow> nat" where
  "refusal redis_there known q =
     (case depends_on q of
        OnlyClient \<Rightarrow> if known then 403 else 401
      | ClientThenRedis \<Rightarrow> if \<not> known then 401 else if redis_there then 403 else 500
      | RedisThenClient \<Rightarrow> if \<not> redis_there then 500 else if known then 403 else 401)"

lemma admin_endpoint_unknown:
  assumes "cache_ok (conf e) w" and "map_of (build_key_map (conf e)) k = None"
  shows "\<exists>x cs. fst (admin_endpoint p caches k q e w) = Inl x \<and> fst (respond (Inl x)) = refusal (connected w) False q \<and>
    sent (snd (admin_endpoint p caches k q e w)) = sent w @ cs \<and> list_all (\<lambda>c. c = INCRBY (auth_fail_key ''auth_fail'') 1) cs"
proof -
  obtain r w' where v: "verify_api_key k e w = (r, w')" by fastforce
  with verify_api_key_unknown(1) [OF assms] have r: "r = Inl (error ''UNAUTHORIZED'' ''Invalid API key'' 401)" by simp
  obtain cs where cs: "sent w' = sent w @ cs" "list_all (\<lambda>c. c = INCRBY (auth_fail_key ''auth_fail'') 1) cs"
    using confined_verify [of k] v by (metis confinedE snd_conv)
  show ?thesis
    using v r cs
    by (cases "depends_on q"; cases "connected w")
       (auto simp: admin_endpoint_def act_simps get_redis_def refusal_def respond_def error_def global_exception_handler_def)
qed

lemma admin_endpoint_known:
  assumes "cache_ok (conf e) w" and "map_of (build_key_map (conf e)) k = Some c" and "client_id c \<noteq> ''admin''"
  shows "\<exists>x. fst (admin_endpoint p caches k q e w) = Inl x \<and> fst (respond (Inl x)) = refusal (connected w) True q \<and>
    sent (snd (admin_endpoint p caches k q e w)) = sent w"
  using verify_api_key_known [OF assms(1,2)]
  by (cases "depends_on q"; cases "connected w")
     (simp_all add: admin_handle_refused [OF assms(3)] admin_endpoint_def act_simps get_redis_def refusal_def respond_def error_def admin_required_def
        global_exception_handler_def)

text \<open>C36: without the configured administrator key, each of the eight operations for the administrator is
  refused and sends nothing to Redis but the count of the failure: with 401 for a key that is not
  configured and 403 for another client's, or 500 where the worker holds no Redis client and that is
  found out first. So no such request succeeds, connected or not.\<close>

theorem admin_needs_admin_key:
  assumes "cache_ok (conf e) w" and "k \<noteq> admin_api_key (admin (conf e)) \<or> k = []"
  shows "\<exists>x cs. fst (admin_endpoint p caches k q e w) = Inl x \<and>
    (if connected w then fst (respond (Inl x)) = (if map_of (build_key_map (conf e)) k = None then 401 else 403)
     else fst (respond (Inl x)) \<in> {401, 403, 500}) \<and>
    sent (snd (admin_endpoint p caches k q e w)) = sent w @ cs \<and>
    list_all (\<lambda>c. c = INCRBY (auth_fail_key ''auth_fail'') 1) cs"
proof (cases "map_of (build_key_map (conf e)) k")
  case None
  from admin_endpoint_unknown [OF assms(1) None, of p caches q] None show ?thesis
    by (auto simp: refusal_def split: admin_depends.splits)
next
  case (Some c)
  from admin_endpoint_known [OF assms(1) Some non_admin_key [OF Some assms(2)], of p caches q] Some show ?thesis
    by (auto simp: refusal_def split: admin_depends.splits)
qed

text \<open>Settings of the parameters for the witness.\<close>

definition sample_params :: admin_params where
  "sample_params = \<lparr>float_of = (\<lambda>s. None), float_str = (\<lambda>x. ''0''), round_to = (\<lambda>x n. Flt x), uptime_now = PFloat (Flt 0),
     clock_now = 100, clock_later = 101, audit_dir_now = \<lparr>dir_there = False, disk_usage = None, dir_files = None\<rparr>,
     audit_log_now = audit_off\<rparr>"

definition no_caches :: admin_caches where
  "no_caches = \<lparr>metrics_text = (([], 0), ([], 0)), health_detail = (0, None)\<rparr>"

theorem admin_needs_admin_key_witness:
  "\<exists>x. fst (admin_endpoint sample_params no_caches ''s3cret'' (AuditOrigin ''A'' ''kv'' ''k'') sample_auth_env
     (sample_world Map.empty)) = Inl x \<and> fst (respond (Inl x)) = 403"
proof -
  have "cache_ok (conf sample_auth_env) (sample_world Map.empty)" and c: "connected (sample_world Map.empty)"
    by (simp_all add: cache_ok_def sample_world_def)
  moreover have "''s3cret'' \<noteq> admin_api_key (admin (conf sample_auth_env)) \<or> ''s3cret'' = []"
    by (simp add: sample_auth_env_def sample_settings_def)
  moreover have "map_of (build_key_map (conf sample_auth_env)) ''s3cret'' \<noteq> None"
    by (simp add: sample_auth_env_def sample_settings_def build_key_map_def add_client_def)
  ultimately show ?thesis
    using admin_needs_admin_key [of sample_auth_env "sample_world Map.empty" "''s3cret''" sample_params no_caches "AuditOrigin ''A'' ''kv'' ''k''"]
    by auto
qed

end
