(* ===== verification/Pubsub.thy ===== *)
theory Pubsub
  imports RedisDoc
begin

text \<open>
  \<open>app/routers/pubsub.py\<close>: publishing to a channel, and the WebSocket subscription: who is
  let in, and the state machine of the connections around the shared counter
  \<open>_ws_connection_count\<close>.
\<close>

section \<open>Publishing\<close>

text \<open>\<open>validate_ns\<close> and \<open>validate_key\<close> as steps.\<close>

definition validate_ns_act :: "string \<Rightarrow> ('r, string) act" where
  "validate_ns_act ns = (\<lambda>e w. (validate_ns (use_rust e) ns, w))"

definition validate_key_act :: "string \<Rightarrow> ('r, string) act" where
  "validate_key_act key = (\<lambda>e w. (validate_key (use_rust e) key, w))"

definition channel_name :: "string \<Rightarrow> string \<Rightarrow> string" where
  "channel_name ns channel = ns @ CHR '':'' # channel"

definition publish_message :: "client_info \<Rightarrow> string \<Rightarrow> string \<Rightarrow> publish_request \<Rightarrow> ('r, pyval) act" where
  "publish_message client ns channel body =
     bnd (require_write client ns) (\<lambda>_.
     bnd (validate_ns_act ns) (\<lambda>_.
     bnd (validate_key_act channel) (\<lambda>_.
     bnd (check_value_size (publish_text body) ''Message'') (\<lambda>_.
     bnd (send (PUBLISH (channel_name ns channel) (publish_text body))) (\<lambda>receivers.
     ret (ok_no_ttl (PDict [(''channel'', PStr (channel_name ns channel)), (''receivers'', receivers)])
            ns channel ''pubsub''))))))"

section \<open>Who may subscribe\<close>

text \<open>
  The checks before the counter, in order: the code and the reason of the close frame, or
  the client. \<open>except HTTPException\<close> catches what the two validations raise.
\<close>

definition is_http :: "exc \<Rightarrow> bool" where
  "is_http x = (case x of HttpExc a b c \<Rightarrow> True | _ \<Rightarrow> False)"

definition catch_http :: "('r, 'a) act \<Rightarrow> ('r, 'a) act \<Rightarrow> ('r, 'a) act" where
  "catch_http m h = (\<lambda>e w. case m e w of
       (Inl x, w') \<Rightarrow> if is_http x then h e w' else (Inl x, w')
     | r \<Rightarrow> r)"

type_synonym ws_close = "nat \<times> string"

definition ws_authorize :: "string option \<Rightarrow> string \<Rightarrow> string \<Rightarrow> ('r, ws_close + client_info) act" where
  "ws_authorize api_key ns channel =
     (case api_key of
        None \<Rightarrow> ret (Inl (4001, ''API key required''))
      | Some k \<Rightarrow>
          if k = [] then ret (Inl (4001, ''API key required''))
          else
            bnd (resolve_client k) (\<lambda>c.
            case c of
              None \<Rightarrow> ret (Inl (4001, ''Invalid API key''))
            | Some client \<Rightarrow>
                if \<not> check_access client ns ''read''
                then ret (Inl (4003, ''Access to namespace '' @ quoted ns @ '' denied''))
                else
                  catch_http
                    (bnd (validate_ns_act ns) (\<lambda>_. bnd (validate_key_act channel) (\<lambda>_. ret (Inr client))))
                    (ret (Inl (4002, ''Invalid namespace or channel name'')))))"

section \<open>The connections and their counter\<close>

definition MAX_WS_CONNECTIONS :: int where
  "MAX_WS_CONNECTIONS = 100"

text \<open>The section under \<open>_ws_lock\<close>: a close frame, or one more connection.\<close>

definition ws_enter :: "int \<Rightarrow> (ws_close + unit) \<times> int" where
  "ws_enter count =
     (if count \<ge> MAX_WS_CONNECTIONS
      then (Inl (4029, ''Too many WebSocket connections (max='' @ int_str MAX_WS_CONNECTIONS @ '')''), count)
      else (Inr (), count + 1))"

text \<open>
  Where a connection stands: checked and not yet counted (\<open>Idle\<close>); refused; counted; with its
  own Redis client and subscription (\<open>Linked\<close>); in the \<open>finally\<close> block before the counter is
  lowered (\<open>Finishing\<close>) and after (\<open>Closing\<close>), each with whether a Redis client was made; gone.
\<close>

datatype ws_phase = Idle | Refused | Slot | Linked | Finishing bool | Closing bool | Gone

record ws_state =
  ws_count :: int
  ws_phase_of :: "nat \<Rightarrow> ws_phase"

text \<open>
  The steps of connection \<open>i\<close>: through the lock; \<open>accept\<close>, \<open>from_url\<close> and \<open>pubsub\<close>; the body
  of the \<open>try\<close> ends, by a disconnect or any exception; the counter is lowered under the lock;
  the subscription and the client are closed.
\<close>

datatype ws_event = Enter nat | Link nat | Leave nat | Release nat | Dispose nat

definition ws_move :: "nat \<Rightarrow> ws_phase \<Rightarrow> int \<Rightarrow> ws_state \<Rightarrow> ws_state" where
  "ws_move i p n s = s\<lparr>ws_count := n, ws_phase_of := (ws_phase_of s)(i := p)\<rparr>"

fun ws_step :: "ws_event \<Rightarrow> ws_state \<Rightarrow> ws_state option" where
  "ws_step (Enter i) s = (case ws_phase_of s i of
       Idle \<Rightarrow> (case ws_enter (ws_count s) of
                  (Inl c, n) \<Rightarrow> Some (ws_move i Refused n s)
                | (Inr _, n) \<Rightarrow> Some (ws_move i Slot n s))
     | _ \<Rightarrow> None)"
| "ws_step (Link i) s = (case ws_phase_of s i of Slot \<Rightarrow> Some (ws_move i Linked (ws_count s) s) | _ \<Rightarrow> None)"
| "ws_step (Leave i) s = (case ws_phase_of s i of
       Slot \<Rightarrow> Some (ws_move i (Finishing False) (ws_count s) s)
     | Linked \<Rightarrow> Some (ws_move i (Finishing True) (ws_count s) s)
     | _ \<Rightarrow> None)"
| "ws_step (Release i) s = (case ws_phase_of s i of
       Finishing b \<Rightarrow> Some (ws_move i (Closing b) (ws_count s - 1) s) | _ \<Rightarrow> None)"
| "ws_step (Dispose i) s = (case ws_phase_of s i of
       Closing b \<Rightarrow> Some (ws_move i Gone (ws_count s) s) | _ \<Rightarrow> None)"

definition ws_init :: ws_state where
  "ws_init = \<lparr>ws_count = 0, ws_phase_of = (\<lambda>i. Idle)\<rparr>"

inductive ws_reachable :: "ws_state \<Rightarrow> bool" where
  ws_start: "ws_reachable ws_init"
| ws_next: "ws_reachable s \<Longrightarrow> ws_step a s = Some s' \<Longrightarrow> ws_reachable s'"

definition counted :: "ws_phase \<Rightarrow> bool" where
  "counted p = (case p of Slot \<Rightarrow> True | Linked \<Rightarrow> True | Finishing b \<Rightarrow> True | _ \<Rightarrow> False)"

definition ws_live :: "ws_state \<Rightarrow> nat set" where
  "ws_live s = {i. counted (ws_phase_of s i)}"

section \<open>Facts\<close>

lemma confined_validate_ns_act [confined_intros]: "confined P (validate_ns_act ns)"
  by (simp add: confined_def validate_ns_act_def)

lemma confined_validate_key_act [confined_intros]: "confined P (validate_key_act key)"
  by (simp add: confined_def validate_key_act_def)

text \<open>The invariant of the counter, preserved by every step.\<close>

definition ws_inv :: "ws_state \<Rightarrow> bool" where
  "ws_inv s \<longleftrightarrow> finite (ws_live s) \<and> ws_count s = int (card (ws_live s)) \<and> ws_count s \<le> MAX_WS_CONNECTIONS"

lemma ws_live_move:
  "ws_live (ws_move i p n s) = (if counted p then insert i (ws_live s) else ws_live s - {i})"
  by (auto simp: ws_live_def ws_move_def)

lemma ws_count_move [simp]: "ws_count (ws_move i p n s) = n"
  by (simp add: ws_move_def)

lemma counted_simps [simp]:
  "counted Slot" "counted Linked" "counted (Finishing b)"
  "\<not> counted Idle" "\<not> counted Refused" "\<not> counted (Closing b)" "\<not> counted Gone"
  by (simp_all add: counted_def)

lemma ws_live_iff: "i \<in> ws_live s \<longleftrightarrow> counted (ws_phase_of s i)"
  by (simp add: ws_live_def)

lemma ws_inv_same:
  "ws_inv s \<Longrightarrow> (counted p \<longleftrightarrow> counted (ws_phase_of s i)) \<Longrightarrow> ws_inv (ws_move i p (ws_count s) s)"
  by (auto simp: ws_inv_def ws_live_move ws_live_iff insert_absorb)

lemma ws_inv_step:
  assumes "ws_inv s" and "ws_step a s = Some s'"
  shows "ws_inv s'"
proof (cases a)
  case (Enter i)
  then have idle: "ws_phase_of s i = Idle" using assms(2) by (auto split: ws_phase.splits)
  then have "i \<notin> ws_live s" by (simp add: ws_live_iff)
  then show ?thesis using assms idle Enter
    by (auto simp: ws_enter_def ws_inv_def ws_live_move split: if_splits)
next
  case (Release i)
  then obtain b where b: "ws_phase_of s i = Finishing b" "s' = ws_move i (Closing b) (ws_count s - 1) s"
    using assms(2) by (auto split: ws_phase.splits)
  then have "i \<in> ws_live s" by (simp add: ws_live_iff)
  moreover have "card (ws_live s) > 0" using calculation assms(1) by (auto simp: ws_inv_def card_gt_0_iff)
  ultimately show ?thesis using assms(1) b by (auto simp: ws_inv_def ws_live_move of_nat_diff)
qed (use assms in \<open>auto split: ws_phase.splits intro!: ws_inv_same\<close>)

lemma ws_inv_init: "ws_inv ws_init"
  by (simp add: ws_inv_def ws_init_def ws_live_def MAX_WS_CONNECTIONS_def)

lemma ws_inv_reachable: "ws_reachable s \<Longrightarrow> ws_inv s"
  by (induction rule: ws_reachable.induct) (blast intro: ws_inv_init ws_inv_step)+

section \<open>Properties\<close>

text \<open>The counter of WebSocket connections is exact and bounded in every reachable state: it is the
  number of connections let in and not yet released, at most 100, and a connection that was
  refused or has gone holds no slot.\<close>

lemma ws_connections_bounded:
  assumes "ws_reachable s"
  shows "finite (ws_live s) \<and> ws_count s = int (card (ws_live s)) \<and> card (ws_live s) \<le> 100 \<and>
    (ws_phase_of s i \<in> {Refused, Gone} \<longrightarrow> i \<notin> ws_live s)"
  using ws_inv_reachable [OF assms] by (auto simp: ws_inv_def MAX_WS_CONNECTIONS_def ws_live_iff)

lemma ws_connections_bounded_witness:
  "\<exists>s. ws_step (Enter 7) ws_init = Some s \<and> ws_count s = int (card (ws_live s)) \<and> ws_count s = 1"
proof -
  have s: "ws_step (Enter 7) ws_init = Some (ws_move 7 Slot 1 ws_init)"
    by (simp add: ws_init_def ws_enter_def MAX_WS_CONNECTIONS_def)
  have "ws_reachable (ws_move 7 Slot 1 ws_init)" by (rule ws_next [OF ws_start s])
  from ws_connections_bounded [OF this] s show ?thesis by auto
qed

text \<open>No slot is lost: a connection that holds one can always leave, by steps of its own, and
  then has gone, with the counter one lower, whatever stage of its life it was in.\<close>

lemma ws_slot_returned:
  assumes "i \<in> ws_live s"
  shows "\<exists>as s'. set as \<subseteq> {Leave i, Release i, Dispose i} \<and> run_events ws_step as s = Some s' \<and> ws_phase_of s' i = Gone \<and>
    ws_count s' = ws_count s - 1"
proof -
  have fin: "\<exists>s'. run_events ws_step [Release i, Dispose i] s = Some s' \<and> ws_phase_of s' i = Gone \<and> ws_count s' = ws_count s - 1"
    if "ws_phase_of s i = Finishing b" for s b
    using that by (simp add: ws_move_def)
  show ?thesis
  proof (cases "ws_phase_of s i")
    case Slot
    then have "\<exists>s'. run_events ws_step [Leave i, Release i, Dispose i] s = Some s' \<and> ws_phase_of s' i = Gone \<and> ws_count s' = ws_count s - 1"
      by (simp add: ws_move_def)
    then show ?thesis by (intro exI [of _ "[Leave i, Release i, Dispose i]"]) auto
  next
    case Linked
    then have "\<exists>s'. run_events ws_step [Leave i, Release i, Dispose i] s = Some s' \<and> ws_phase_of s' i = Gone \<and> ws_count s' = ws_count s - 1"
      by (simp add: ws_move_def)
    then show ?thesis by (intro exI [of _ "[Leave i, Release i, Dispose i]"]) auto
  next
    case (Finishing b)
    from fin [OF this] show ?thesis by (intro exI [of _ "[Release i, Dispose i]"]) auto
  qed (use assms in \<open>simp_all add: ws_live_iff\<close>)
qed

lemma ws_slot_returned_witness:
  "\<exists>as s'. run_events ws_step as (ws_move 7 Linked 1 ws_init) = Some s' \<and> ws_phase_of s' 7 = Gone \<and> ws_count s' = 0"
proof -
  have "7 \<in> ws_live (ws_move 7 Linked 1 ws_init)" by (simp add: ws_live_move)
  from ws_slot_returned [OF this] show ?thesis by auto
qed

text \<open>C34: only an authenticated client with the read permission on a well-formed namespace, and for a
  well-formed channel, is let through to a subscription.\<close>

theorem subscriber_authorized:
  assumes "cache_ok (conf e) w" and "fst (ws_authorize api_key ns channel e w) = Inr (Inr client)"
  shows "\<exists>k. api_key = Some k \<and> k \<noteq> [] \<and> map_of (build_key_map (conf e)) k = Some client \<and>
    check_access client ns ''read'' \<and> ns_matches ns \<and> key_matches channel"
  using assms
  by (auto simp: ws_authorize_def act_simps resolve_client_apply catch_http_def validate_ns_act_def validate_key_act_def
        validate_ns_Inr validate_key_Inr split: option.splits if_splits sum.splits prod.splits)

theorem subscriber_authorized_witness:
  "\<exists>client. fst (ws_authorize (Some ''s3cret'') ''A'' ''k'' sample_auth_env (sample_world Map.empty)) = Inr (Inr client) \<and>
     check_access client ''A'' ''read''"
proof -
  have m: "build_key_map (conf sample_auth_env) = [(''s3cret'', sample_client)]" by code_simp
  have n: "cache_ok (conf sample_auth_env) (sample_world Map.empty)" by (simp add: cache_ok_def sample_world_def)
  have v: "validate_ns (use_rust sample_auth_env) ''A'' = Inr ''A''"
    "validate_key (use_rust sample_auth_env) ''k'' = Inr ''k''"
    by (simp_all add: validate_ns_Inr validate_key_Inr sample_ns sample_key)
  have "fst (ws_authorize (Some ''s3cret'') ''A'' ''k'' sample_auth_env (sample_world Map.empty)) = Inr (Inr sample_client)"
    by (simp add: ws_authorize_def act_simps resolve_client_apply [OF n] m sample_access catch_http_def
        validate_ns_act_def validate_key_act_def v)
  with subscriber_authorized [OF n this] show ?thesis by blast
qed

text \<open>A publish request sends at most messages of its own to the channel of its own namespace,
  and only with the write permission, well-formed names and a message within the limit.\<close>

lemma publish_own_channel:
  "sent (snd (publish_message client ns channel body e w)) =
     sent w @ (if check_access client ns ''write'' \<and> ns_matches ns \<and> key_matches channel \<and>
                  size_check (use_rust e) (max_value_size (defaults (conf e))) ''Message'' (publish_text body) = Inr ()
               then [PUBLISH (channel_name ns channel) (publish_text body)] else [])"
proof -
  have ns: "ns_matches ns \<longleftrightarrow> (\<exists>r. validate_ns (use_rust e) ns = Inr r)"
    and u: "key_matches channel \<longleftrightarrow> (\<exists>r. validate_key (use_rust e) channel = Inr r)"
    by (auto simp: validate_ns_Inr validate_key_Inr)
  show ?thesis unfolding ns u
    by (cases "check_access client ns ''write''"; cases "validate_ns (use_rust e) ns"; cases "validate_key (use_rust e) channel";
        cases "size_check (use_rust e) (max_value_size (defaults (conf e))) ''Message'' (publish_text body)")
       (auto simp: publish_message_def require_write_def act_simps require_access_apply validate_ns_act_def validate_key_act_def
          send_def split: prod.splits sum.splits)
qed

end
