(* ===== verification/Subscription.thy ===== *)
theory Subscription
  imports Pubsub
begin

text \<open>
  \<open>app/routers/pubsub.py\<close>, the body of the \<open>try\<close> of \<open>ws_subscribe\<close>: an open connection runs two tasks
  side by side, one that pumps the messages of the channel to the client and one that watches for
  the client's disconnect, and the main coroutine waits for the first of them to end, cancels the
  other and waits for both. Their steps interleave freely. The theory puts these tasks beside the
  connections of the theory Pubsub and shows that the whole refines the counter kept there.
\<close>

section \<open>What one turn of a task does\<close>

text \<open>\<open>get_message\<close> yields \<open>None\<close> or a dict; \<open>msg["type"]\<close> and \<open>msg["data"]\<close> raise when they are missing.\<close>

definition pump_turn :: "string \<Rightarrow> pyval \<Rightarrow> exc + pyval option" where
  "pump_turn full_channel msg =
     (if \<not> truthy msg then Inr None
      else case dict_get msg ''type'' of
             None \<Rightarrow> Inl (PyExc ''KeyError'')
           | Some t \<Rightarrow>
               if t = PStr ''message''
               then (case dict_get msg ''data'' of
                       None \<Rightarrow> Inl (PyExc ''KeyError'')
                     | Some d \<Rightarrow> Inr (Some (PDict [(''channel'', PStr full_channel), (''data'', d)])))
               else Inr None)"

text \<open>The code of a frame that reports a disconnect, 1000 if it has none.\<close>

definition watch_turn :: "pyval \<Rightarrow> pyval option" where
  "watch_turn msg =
     (if dict_get msg ''type'' = Some (PStr ''websocket.disconnect'')
      then Some (case dict_get msg ''code'' of Some c \<Rightarrow> c | None \<Rightarrow> PInt 1000)
      else None)"

section \<open>An open connection\<close>

datatype ws_failure = WebSocketDisconnect pyval | OtherFailure exc

datatype ws_task = Running | Raised ws_failure | TaskCancelled

text \<open>
  How the \<open>try\<close> ends: \<open>except WebSocketDisconnect\<close>, \<open>except Exception\<close>, a cancellation of the whole
  connection that passes through, or no exception at all.
\<close>

datatype ws_end = Disconnected pyval | WsError exc | TornDown | FellThrough

text \<open>The main coroutine: in \<open>asyncio.wait\<close>; in \<open>gather\<close> (having been cancelled or not); past both.\<close>

datatype ws_main = Waiting | Gathering bool | Ended ws_end

text \<open>A subscription also keeps the frame \<open>send_json\<close> was called with and is not out, and the frames that are.\<close>

record subscription =
  pump :: ws_task
  watch :: ws_task
  main_at :: ws_main
  sending :: "pyval option"
  ws_frames :: "pyval list"

definition sub_start :: subscription where
  "sub_start = \<lparr>pump = Running, watch = Running, main_at = Waiting, sending = None, ws_frames = []\<rparr>"

text \<open>
  The events: \<open>get_message\<close> returned, and \<open>send_json\<close> is called where its message asks for it;
  \<open>send_json\<close> returned; \<open>get_message\<close> or \<open>send_json\<close> raised; \<open>receive\<close> returned or raised; a cancelled task ends; the first task is done; the server
  cancels the connection; both tasks are done.
\<close>

datatype sub_event =
    PumpGets pyval
  | PumpSends
  | PumpFails ws_failure
  | WatchGets pyval
  | WatchFails exc
  | PumpStops
  | WatchStops
  | FirstDone
  | TearDown
  | BothDone

text \<open>The loop after \<open>gather\<close>: the exception of the first task that has one, the pump before the watcher.\<close>

fun first_failure :: "ws_task list \<Rightarrow> ws_failure option" where
  "first_failure [] = None"
| "first_failure (Raised x # ts) = Some x"
| "first_failure (t # ts) = first_failure ts"

definition try_end :: "bool \<Rightarrow> subscription \<Rightarrow> ws_end" where
  "try_end torn s =
     (if torn then TornDown
      else case first_failure [pump s, watch s] of
             None \<Rightarrow> FellThrough
           | Some (WebSocketDisconnect c) \<Rightarrow> Disconnected c
           | Some (OtherFailure x) \<Rightarrow> WsError x)"

text \<open>
  \<open>cancel()\<close> is asked for as soon as the main coroutine leaves \<open>wait\<close>; from then on a task takes no
  further turn, but what it awaited may still return or end in an exception of its own. A frame that
  is still being sent when the pump is cancelled or fails stays where it is.
\<close>

fun sub_step :: "string \<Rightarrow> sub_event \<Rightarrow> subscription \<Rightarrow> subscription option" where
  "sub_step ch (PumpGets msg) s =
     (if pump s = Running \<and> sending s = None \<and> main_at s = Waiting
      then Some (case pump_turn ch msg of
                   Inl x \<Rightarrow> s\<lparr>pump := Raised (OtherFailure x)\<rparr>
                 | Inr None \<Rightarrow> s
                 | Inr (Some f) \<Rightarrow> s\<lparr>sending := Some f\<rparr>)
      else None)"
| "sub_step ch PumpSends s =
     (case sending s of
        Some f \<Rightarrow> if pump s = Running then Some (s\<lparr>ws_frames := ws_frames s @ [f], sending := None\<rparr>) else None
      | None \<Rightarrow> None)"
| "sub_step ch (PumpFails x) s = (if pump s = Running then Some (s\<lparr>pump := Raised x\<rparr>) else None)"
| "sub_step ch (WatchGets msg) s =
     (if watch s = Running \<and> main_at s = Waiting
      then Some (case watch_turn msg of
                   None \<Rightarrow> s
                 | Some c \<Rightarrow> s\<lparr>watch := Raised (WebSocketDisconnect c)\<rparr>)
      else None)"
| "sub_step ch (WatchFails x) s = (if watch s = Running then Some (s\<lparr>watch := Raised (OtherFailure x)\<rparr>) else None)"
| "sub_step ch PumpStops s =
     (if pump s = Running \<and> main_at s \<noteq> Waiting then Some (s\<lparr>pump := TaskCancelled\<rparr>) else None)"
| "sub_step ch WatchStops s =
     (if watch s = Running \<and> main_at s \<noteq> Waiting then Some (s\<lparr>watch := TaskCancelled\<rparr>) else None)"
| "sub_step ch FirstDone s =
     (if main_at s = Waiting \<and> (pump s \<noteq> Running \<or> watch s \<noteq> Running)
      then Some (s\<lparr>main_at := Gathering False\<rparr>) else None)"
| "sub_step ch TearDown s = (if main_at s = Waiting then Some (s\<lparr>main_at := Gathering True\<rparr>) else None)"
| "sub_step ch BothDone s =
     (case main_at s of
        Gathering torn \<Rightarrow> if pump s \<noteq> Running \<and> watch s \<noteq> Running then Some (s\<lparr>main_at := Ended (try_end torn s)\<rparr>) else None
      | _ \<Rightarrow> None)"

section \<open>All connections\<close>

record ws_system =
  conns :: ws_state
  subs :: "nat \<Rightarrow> subscription option"

definition sys_start :: ws_system where
  "sys_start = \<lparr>conns = ws_init, subs = (\<lambda>i. None)\<rparr>"

definition sub_over :: "subscription \<Rightarrow> bool" where
  "sub_over t = (case main_at t of Ended x \<Rightarrow> True | _ \<Rightarrow> False)"

text \<open>
  A step of a connection (the body of the \<open>try\<close> is left before the tasks exist, or when they are
  over); \<open>subscribe\<close> succeeded and the two tasks are created; a step of the tasks of a connection.
\<close>

datatype ws_action = Conn ws_event | Subscribed nat | InTry nat sub_event

fun may_leave :: "ws_event \<Rightarrow> (nat \<Rightarrow> subscription option) \<Rightarrow> bool" where
  "may_leave (Leave i) ts = (case ts i of None \<Rightarrow> True | Some t \<Rightarrow> sub_over t)"
| "may_leave _ ts = True"

fun sys_step :: "(nat \<Rightarrow> string) \<Rightarrow> ws_action \<Rightarrow> ws_system \<Rightarrow> ws_system option" where
  "sys_step chan (Conn a) s =
     (if may_leave a (subs s) then map_option (\<lambda>c. s\<lparr>conns := c\<rparr>) (ws_step a (conns s)) else None)"
| "sys_step chan (Subscribed i) s =
     (if ws_phase_of (conns s) i = Linked \<and> subs s i = None
      then Some (s\<lparr>subs := (subs s)(i \<mapsto> sub_start)\<rparr>) else None)"
| "sys_step chan (InTry i a) s =
     (case (ws_phase_of (conns s) i, subs s i) of
        (Linked, Some t) \<Rightarrow> map_option (\<lambda>t'. s\<lparr>subs := (subs s)(i \<mapsto> t')\<rparr>) (sub_step (chan i) a t)
      | _ \<Rightarrow> None)"

section \<open>Refinement\<close>

text \<open>
  An event system that implements another one: every step of the detailed system is a step of the
  abstract one or changes nothing there. So every run is a run of the abstract system, and its
  invariants hold of what the detailed system does.
\<close>

locale event_refinement =
  fixes cinit :: "'c" and cstep :: "'d \<Rightarrow> 'c \<Rightarrow> 'c option"
    and ainit :: "'s" and astep :: "'e \<Rightarrow> 's \<Rightarrow> 's option" and abs_state :: "'c \<Rightarrow> 's"
  assumes starts: "abs_state cinit = ainit"
    and simulates: "cstep d s = Some s' \<Longrightarrow> abs_state s' = abs_state s \<or> (\<exists>e. astep e (abs_state s) = Some (abs_state s'))"
begin

lemma run_simulated:
  "run_events cstep ds s = Some s' \<Longrightarrow> \<exists>es. run_events astep es (abs_state s) = Some (abs_state s')"
proof (induction ds arbitrary: s)
  case Nil
  then show ?case by (intro exI [of _ "[]"]) simp
next
  case (Cons d ds)
  then obtain s1 where s1: "cstep d s = Some s1" "run_events cstep ds s1 = Some s'" by (auto split: option.splits)
  from Cons.IH [OF s1(2)] obtain es where es: "run_events astep es (abs_state s1) = Some (abs_state s')" ..
  from simulates [OF s1(1)] show ?case
  proof
    assume "\<exists>e. astep e (abs_state s) = Some (abs_state s1)"
    then obtain e where "astep e (abs_state s) = Some (abs_state s1)" ..
    with es have "run_events astep (e # es) (abs_state s) = Some (abs_state s')" by simp
    then show ?case ..
  qed (use es in auto)
qed

lemma invariant_holds:
  assumes "run_events cstep ds cinit = Some s" and "I ainit"
    and "\<And>e x x'. I x \<Longrightarrow> astep e x = Some x' \<Longrightarrow> I x'"
  shows "I (abs_state s)"
proof -
  from run_simulated [OF assms(1)] obtain es where "run_events astep es ainit = Some (abs_state s)" unfolding starts ..
  then show ?thesis using assms(2,3) by (rule run_invariant [where I = I])
qed

end

interpretation ws: event_refinement sys_start "sys_step chan" ws_init ws_step conns for chan
proof
  fix d s s'
  assume "sys_step chan d s = Some s'"
  then show "conns s' = conns s \<or> (\<exists>e. ws_step e (conns s) = Some (conns s'))"
    by (cases d) (auto split: if_splits ws_phase.splits option.splits)
qed (simp add: sys_start_def)

section \<open>Facts\<close>

text \<open>The invariant of the tasks of a connection, and of all connections.\<close>

definition sub_inv :: "subscription \<Rightarrow> bool" where
  "sub_inv t \<longleftrightarrow> (case main_at t of
       Waiting \<Rightarrow> pump t \<noteq> TaskCancelled \<and> watch t \<noteq> TaskCancelled
     | Gathering torn \<Rightarrow> torn \<or> first_failure [pump t, watch t] \<noteq> None
     | Ended x \<Rightarrow> pump t \<noteq> Running \<and> watch t \<noteq> Running \<and> x \<noteq> FellThrough)"

lemma first_failure_two:
  "first_failure [a, b] = (case a of Raised x \<Rightarrow> Some x | _ \<Rightarrow> case b of Raised y \<Rightarrow> Some y | _ \<Rightarrow> None)"
  by (cases a; cases b) simp_all

lemma sub_inv_start: "sub_inv sub_start"
  by (simp add: sub_inv_def sub_start_def)

lemma sub_inv_step:
  assumes "sub_inv t" and "sub_step ch a t = Some t'"
  shows "sub_inv t'"
proof (cases a)
  case BothDone
  with assms show ?thesis
    by (auto simp: sub_inv_def try_end_def split: if_splits ws_main.splits option.splits ws_failure.splits)
next
  case (PumpGets m)
  with assms show ?thesis
    by (auto simp: sub_inv_def first_failure_two split: if_splits sum.splits option.splits)
next
  case PumpSends
  with assms show ?thesis by (auto simp: sub_inv_def first_failure_two split: if_splits option.splits ws_main.splits)
next
  case (WatchGets m)
  with assms show ?thesis
    by (auto simp: sub_inv_def first_failure_two split: if_splits option.splits)
next
  case FirstDone
  with assms show ?thesis
    by (cases "pump t"; cases "watch t") (auto simp: sub_inv_def split: if_splits)
qed (use assms in \<open>auto simp: sub_inv_def first_failure_two split: if_splits ws_main.splits ws_task.splits\<close>)

text \<open>
  Once a connection has its tasks it is \<open>Linked\<close> or past that, and it gets past that only when they
  are over.
\<close>

fun phase_ok :: "ws_phase \<Rightarrow> subscription \<Rightarrow> bool" where
  "phase_ok Linked t = True"
| "phase_ok (Finishing b) t = sub_over t"
| "phase_ok (Closing b) t = sub_over t"
| "phase_ok Gone t = sub_over t"
| "phase_ok p t = False"

definition sys_inv :: "ws_system \<Rightarrow> bool" where
  "sys_inv s \<longleftrightarrow> (\<forall>i t. subs s i = Some t \<longrightarrow> sub_inv t \<and> phase_ok (ws_phase_of (conns s) i) t)"

lemma sys_invD: "sys_inv s \<Longrightarrow> subs s i = Some t \<Longrightarrow> phase_ok (ws_phase_of (conns s) i) t"
  by (simp add: sys_inv_def)

lemma sys_inv_move:
  "sys_inv s \<Longrightarrow> (\<And>t. subs s i = Some t \<Longrightarrow> phase_ok p t) \<Longrightarrow> sys_inv (s\<lparr>conns := ws_move i p n (conns s)\<rparr>)"
  by (simp add: sys_inv_def ws_move_def)

lemma sys_inv_conn:
  assumes "sys_inv s" and "ws_step b (conns s) = Some c" and "may_leave b (subs s)"
  shows "sys_inv (s\<lparr>conns := c\<rparr>)"
proof (cases b)
  case (Enter i)
  with assms(1,2) show ?thesis
    by (auto simp: ws_enter_def split: ws_phase.splits if_splits intro!: sys_inv_move dest: sys_invD [where i = i])
next
  case (Leave i)
  with assms show ?thesis
    by (auto split: ws_phase.splits intro!: sys_inv_move dest: sys_invD [where i = i])
qed (use assms(1,2) in \<open>auto split: ws_phase.splits intro!: sys_inv_move dest: sys_invD\<close>)

lemma sys_inv_step:
  assumes "sys_inv s" and "sys_step chan a s = Some s'"
  shows "sys_inv s'"
proof (cases a)
  case (Conn b)
  with assms(2) obtain c where c: "ws_step b (conns s) = Some c" "may_leave b (subs s)" "s' = s\<lparr>conns := c\<rparr>"
    by (auto split: if_splits)
  with sys_inv_conn [OF assms(1) c(1,2)] show ?thesis by simp
next
  case (Subscribed i)
  with assms show ?thesis by (auto simp: sys_inv_def sub_inv_start split: if_splits)
next
  case (InTry i b)
  with assms(2) obtain t t' where t: "ws_phase_of (conns s) i = Linked" "subs s i = Some t"
      "sub_step (chan i) b t = Some t'" "s' = s\<lparr>subs := (subs s)(i \<mapsto> t')\<rparr>"
    by (auto split: ws_phase.splits option.splits)
  with assms(1) sub_inv_step [OF _ t(3)] show ?thesis by (auto simp: sys_inv_def)
qed

lemma sys_inv_run: "run_events (sys_step chan) as sys_start = Some s \<Longrightarrow> sys_inv s"
  by (erule run_invariant) (simp add: sys_inv_def sys_start_def, rule sys_inv_step)


text \<open>
  What the client is owed: the \<open>data\<close> of every message of type \<open>message\<close> taken from the channel, each
  in a frame that names the channel.
\<close>

fun message_data :: "pyval \<Rightarrow> pyval option" where
  "message_data (PDict kvs) = (if map_of kvs ''type'' = Some (PStr ''message'') then map_of kvs ''data'' else None)"
| "message_data _ = None"

definition data_taken :: "sub_event list \<Rightarrow> pyval list" where
  "data_taken evs = List.map_filter (\<lambda>e. case e of PumpGets m \<Rightarrow> message_data m | _ \<Rightarrow> None) evs"

definition channel_frame :: "string \<Rightarrow> pyval \<Rightarrow> pyval" where
  "channel_frame ch d = PDict [(''channel'', PStr ch), (''data'', d)]"

definition frames_out :: "subscription \<Rightarrow> pyval list" where
  "frames_out t = ws_frames t @ (case sending t of None \<Rightarrow> [] | Some f \<Rightarrow> [f])"

lemma pump_turn_frame: "pump_turn ch m = Inr (Some f) \<longleftrightarrow> map_option (channel_frame ch) (message_data m) = Some f"
  by (cases m) (auto simp: pump_turn_def channel_frame_def split: option.splits dest: map_of_SomeD)

lemma data_taken_snoc: "data_taken (evs @ [e]) = data_taken evs @ data_taken [e]"
  by (simp add: data_taken_def List.map_filter_def)

lemma data_taken_single:
  "data_taken [e] = (case e of PumpGets m \<Rightarrow> (case message_data m of None \<Rightarrow> [] | Some d \<Rightarrow> [d]) | _ \<Rightarrow> [])"
  by (cases e) (simp_all add: data_taken_def List.map_filter_def split: option.splits)

lemma pump_turn_none: "pump_turn ch m = Inl x \<or> pump_turn ch m = Inr None \<Longrightarrow> message_data m = None"
  using pump_turn_frame [of ch m "channel_frame ch (the (message_data m))"] by (cases "message_data m") auto

lemma frames_out_step:
  "sub_step ch a t = Some t' \<Longrightarrow> frames_out t' = frames_out t @ map (channel_frame ch) (data_taken [a])"
proof (cases a)
  case (PumpGets m)
  assume "sub_step ch a t = Some t'"
  with PumpGets show ?thesis
    using pump_turn_none [of ch m] pump_turn_frame [of ch m]
    by (auto simp: frames_out_def data_taken_single split: if_splits sum.splits option.splits)
qed (auto simp: frames_out_def data_taken_single split: if_splits option.splits ws_main.splits)

lemma frames_out_run:
  "run_events (sub_step ch) evs sub_start = Some t \<Longrightarrow> frames_out t = map (channel_frame ch) (data_taken evs)"
proof (erule run_trace)
  show "frames_out sub_start = map (channel_frame ch) (data_taken [])"
    by (simp add: sub_start_def frames_out_def data_taken_def List.map_filter_def)
qed (simp add: frames_out_step data_taken_snoc)

text \<open>Where the exception of a task, and the end of the \<open>try\<close>, come from.\<close>

definition caused :: "sub_event list \<Rightarrow> subscription \<Rightarrow> bool" where
  "caused evs t \<longleftrightarrow> (\<forall>c. pump t = Raised (WebSocketDisconnect c) \<longrightarrow> PumpFails (WebSocketDisconnect c) \<in> set evs) \<and>
     (\<forall>c. watch t = Raised (WebSocketDisconnect c) \<longrightarrow> (\<exists>m. WatchGets m \<in> set evs \<and> watch_turn m = Some c)) \<and>
     (main_at t = Gathering True \<longrightarrow> TearDown \<in> set evs) \<and>
     (\<forall>x. main_at t = Ended x \<longrightarrow> x = try_end False t \<or> x = TornDown \<and> TearDown \<in> set evs)"

lemma caused_step:
  assumes "caused evs t" and "sub_inv t" and "sub_step ch a t = Some t'"
  shows "caused (evs @ [a]) t'"
proof (cases a)
  case BothDone
  with assms(3) obtain torn where m: "main_at t = Gathering torn" "t' = t\<lparr>main_at := Ended (try_end torn t)\<rparr>"
    by (auto split: ws_main.splits if_splits)
  with assms(1) show ?thesis by (cases torn) (auto simp: caused_def try_end_def)
next
  case (PumpGets m)
  with assms(1,3) show ?thesis by (auto simp: caused_def try_end_def split: if_splits sum.splits option.splits)
next
  case PumpSends
  with assms(1,3) show ?thesis by (auto simp: caused_def try_end_def split: if_splits option.splits)
next
  case (WatchGets m)
  with assms(1,3) show ?thesis by (auto simp: caused_def split: if_splits option.splits)
qed (use assms in \<open>auto simp: caused_def sub_inv_def split: if_splits ws_main.splits\<close>)

lemma caused_run: "run_events (sub_step ch) evs sub_start = Some t \<Longrightarrow> caused evs t \<and> sub_inv t"
proof (erule run_trace)
  show "caused [] sub_start \<and> sub_inv sub_start" by (simp add: caused_def sub_start_def sub_inv_def)
qed (blast intro: caused_step sub_inv_step)

section \<open>Properties\<close>

text \<open>C33: over any interleaving of its two tasks, the frames a subscription has sent to its client are the
  \<open>data\<close> of the messages taken from its channel, each once, in their order and under the channel's
  name; all of them, except that the last one may still be with \<open>send_json\<close>, where it is lost if the
  pump is cancelled or fails. When the subscription is over both tasks are, always by an exception or a
  cancellation, and it is taken for a disconnect only if the client's side reported one.\<close>

theorem subscription_forwards:
  assumes "run_events (sub_step ch) evs sub_start = Some t"
  defines "frames \<equiv> map (\<lambda>d. PDict [(''channel'', PStr ch), (''data'', d)]) (data_taken evs)"
  shows "(case sending t of None \<Rightarrow> ws_frames t = frames | Some f \<Rightarrow> ws_frames t @ [f] = frames) \<and>
    (\<forall>x. main_at t = Ended x \<longrightarrow> pump t \<noteq> Running \<and> watch t \<noteq> Running \<and> x \<noteq> FellThrough \<and>
      (x = TornDown \<longrightarrow> TearDown \<in> set evs) \<and>
      (\<forall>c. x = Disconnected c \<longrightarrow>
        PumpFails (WebSocketDisconnect c) \<in> set evs \<or> (\<exists>m. WatchGets m \<in> set evs \<and> watch_turn m = Some c)))"
proof -
  have "frames_out t = frames"
    using frames_out_run [OF assms(1)] by (simp add: frames_def channel_frame_def [abs_def])
  moreover have "\<forall>c. Disconnected c = try_end False t \<longrightarrow>
      pump t = Raised (WebSocketDisconnect c) \<or> watch t = Raised (WebSocketDisconnect c)" and "try_end False t \<noteq> TornDown"
    by (auto simp: try_end_def first_failure_two split: option.splits ws_failure.splits ws_task.splits)
  ultimately show ?thesis
    using caused_run [OF assms(1)] by (auto simp: caused_def sub_inv_def frames_out_def split: option.splits)
qed

theorem subscription_forwards_witness:
  "\<exists>t. run_events (sub_step ''A:news'')
      [PumpGets (PDict [(''type'', PStr ''message''), (''data'', PStr ''hi'')]), PumpSends, PumpGets PNone,
       PumpGets (PDict [(''type'', PStr ''message''), (''data'', PStr ''lost'')]),
       WatchGets (PDict [(''type'', PStr ''websocket.disconnect''), (''code'', PInt 1001)]), FirstDone, PumpStops, BothDone] sub_start = Some t \<and>
     ws_frames t = [PDict [(''channel'', PStr ''A:news''), (''data'', PStr ''hi'')]] \<and> main_at t = Ended (Disconnected (PInt 1001))"
proof -
  let ?m = "PDict [(''type'', PStr ''message''), (''data'', PStr ''hi'')]"
    and ?l = "PDict [(''type'', PStr ''message''), (''data'', PStr ''lost'')]"
    and ?d = "PDict [(''type'', PStr ''websocket.disconnect''), (''code'', PInt 1001)]"
  let ?f = "\<lambda>d. PDict [(''channel'', PStr ''A:news''), (''data'', PStr d)]"
  have run: "run_events (sub_step ''A:news'') [PumpGets ?m, PumpSends, PumpGets PNone, PumpGets ?l, WatchGets ?d, FirstDone, PumpStops, BothDone] sub_start =
      Some \<lparr>pump = TaskCancelled, watch = Raised (WebSocketDisconnect (PInt 1001)), main_at = Ended (Disconnected (PInt 1001)),
            sending = Some (?f ''lost''), ws_frames = [?f ''hi'']\<rparr>"
    by (simp add: sub_start_def pump_turn_def watch_turn_def try_end_def)
  from subscription_forwards [OF run] run show ?thesis by (auto simp: data_taken_def List.map_filter_def)
qed

text \<open>C28: in every state of all connections and their tasks the shared counter is the number of
  connections that hold a slot, at most 100; and every connection that has a task still running
  holds one, so no task outlives its slot.\<close>

theorem ws_tasks_hold_slots:
  assumes "run_events (sys_step chan) as sys_start = Some s"
  shows "finite (ws_live (conns s)) \<and> ws_count (conns s) = int (card (ws_live (conns s))) \<and> card (ws_live (conns s)) \<le> 100 \<and>
    {i. \<exists>t. subs s i = Some t \<and> (pump t = Running \<or> watch t = Running)} \<subseteq> ws_live (conns s)"
proof -
  have "ws_inv (conns s)" using assms ws_inv_init ws_inv_step by (rule ws.invariant_holds [where I = ws_inv])
  moreover have "i \<in> ws_live (conns s)" if "subs s i = Some t" "pump t = Running \<or> watch t = Running" for i t
  proof -
    from sys_inv_run [OF assms] that(1) have "sub_inv t" "phase_ok (ws_phase_of (conns s) i) t" by (auto simp: sys_inv_def)
    moreover from this(1) that(2) have "\<not> sub_over t" by (auto simp: sub_inv_def sub_over_def split: ws_main.splits)
    ultimately show ?thesis by (cases "ws_phase_of (conns s) i") (simp_all add: ws_live_iff)
  qed
  ultimately show ?thesis by (auto simp: ws_inv_def MAX_WS_CONNECTIONS_def)
qed

theorem ws_tasks_hold_slots_witness:
  "\<exists>s. run_events (sys_step (\<lambda>i. ''A:news'')) [Conn (Enter 7), Conn (Link 7), Subscribed 7, InTry 7 TearDown] sys_start = Some s \<and>
     7 \<in> ws_live (conns s) \<and> ws_count (conns s) = int (card (ws_live (conns s)))"
proof -
  let ?t = "sub_start\<lparr>main_at := Gathering True\<rparr>"
  let ?s = "\<lparr>conns = ws_move 7 Linked 1 (ws_move 7 Slot 1 ws_init), subs = [7 \<mapsto> ?t]\<rparr>"
  have run: "run_events (sys_step (\<lambda>i. ''A:news'')) [Conn (Enter 7), Conn (Link 7), Subscribed 7, InTry 7 TearDown] sys_start = Some ?s"
    by (simp add: sys_start_def ws_init_def ws_enter_def MAX_WS_CONNECTIONS_def ws_move_def sub_start_def)
  have "pump ?t = Running" by (simp add: sub_start_def)
  with ws_tasks_hold_slots [OF run] have "7 \<in> ws_live (conns ?s)" by auto
  with run ws_tasks_hold_slots [OF run] show ?thesis by blast
qed

text \<open>C32: a client that goes away frees its slot even if the channel is silent for ever: from any state in
  which a connection is being served, its disconnect frame can be followed by steps of that
  connection alone, none of which takes a message, to the end of the connection, with both tasks
  over, nothing more sent and the counter one lower; and unless the pump had failed before, the end
  is recorded as a disconnect with the code of the frame.\<close>

theorem disconnect_frees_slot:
  assumes "ws_phase_of (conns s) i = Linked" and "subs s i = Some t"
    and "main_at t = Waiting" and "watch t = Running" and "watch_turn m = Some c"
  shows "\<exists>as s' t'. set as \<subseteq> {InTry i FirstDone, InTry i PumpStops, InTry i BothDone, Conn (Leave i), Conn (Release i), Conn (Dispose i)} \<and>
    run_events (sys_step chan) (InTry i (WatchGets m) # as) s = Some s' \<and>
    ws_phase_of (conns s') i = Gone \<and> ws_count (conns s') = ws_count (conns s) - 1 \<and>
    subs s' i = Some t' \<and> ws_frames t' = ws_frames t \<and> pump t' \<noteq> Running \<and> watch t' \<noteq> Running \<and>
    (pump t = Running \<longrightarrow> main_at t' = Ended (Disconnected c))"
proof -
  let ?stop = "if pump t = Running then [InTry i PumpStops] else []"
  let ?as = "InTry i FirstDone # ?stop @ [InTry i BothDone, Conn (Leave i), Conn (Release i), Conn (Dispose i)]"
  let ?t = "t\<lparr>watch := Raised (WebSocketDisconnect c), pump := if pump t = Running then TaskCancelled else pump t\<rparr>"
  let ?t' = "?t\<lparr>main_at := Ended (try_end False ?t)\<rparr>"
  obtain s' where "run_events (sys_step chan) (InTry i (WatchGets m) # ?as) s = Some s'" "ws_phase_of (conns s') i = Gone"
      "ws_count (conns s') = ws_count (conns s) - 1" "subs s' i = Some ?t'"
    using assms by (cases "pump t = Running") (simp_all add: ws_move_def sub_over_def try_end_def)
  moreover have "pump t = Running \<longrightarrow> main_at ?t' = Ended (Disconnected c)" by (simp add: try_end_def)
  ultimately show ?thesis by (intro exI [of _ ?as] exI [of _ s'] exI [of _ ?t']) auto
qed

theorem disconnect_frees_slot_witness:
  "let s = \<lparr>conns = ws_move 7 Linked 1 ws_init, subs = [7 \<mapsto> sub_start]\<rparr>;
       m = PDict [(''type'', PStr ''websocket.disconnect'')]
   in \<exists>as s'. run_events (sys_step (\<lambda>i. ''A:news'')) (InTry 7 (WatchGets m) # as) s = Some s' \<and> ws_count (conns s') = 0"
proof -
  let ?s = "\<lparr>conns = ws_move 7 Linked 1 ws_init, subs = [7 \<mapsto> sub_start]\<rparr>"
    and ?m = "PDict [(''type'', PStr ''websocket.disconnect'')]"
  have "ws_phase_of (conns ?s) 7 = Linked" "subs ?s 7 = Some sub_start" "main_at sub_start = Waiting" "watch sub_start = Running"
    "watch_turn ?m = Some (PInt 1000)" "ws_count (conns ?s) = 1"
    by (simp_all add: ws_move_def sub_start_def watch_turn_def)
  from disconnect_frees_slot [OF this(1-5), of "\<lambda>i. ''A:news''"] this(6) show ?thesis unfolding Let_def by auto
qed

end
