(* ===== verification/JsonFuel.thy ===== *)
theory JsonFuel
  imports Json
begin

text \<open>
  The parser of Json ends by itself: whatever it reads leaves less of the text, and with the fuel
  \<open>json_loads\<close> gives, any more would change nothing.
\<close>

section \<open>What is left is shorter\<close>

lemma json_string_shorter: "json_string s = Some (t, r) \<Longrightarrow> length r < length s"
proof (induction s arbitrary: t r rule: json_string.induct)
  case (2 c s)
  from 2(4) 2(1) 2(2) 2(3) show ?case
    by (subst (asm) json_string.simps)
       (fastforce split: if_splits list.splits option.splits dest: json_unicode_shorter)
qed simp

lemma length_dropWhile_drop: "length (dropWhile P (drop n s)) \<le> length s"
  by (metis diff_le_self le_trans length_drop length_dropWhile_le)

lemma json_int_part_shorter: "json_int_part s = Some (ds, r) \<Longrightarrow> length r < length s"
  by (auto simp: json_int_part_def le_imp_less_Suc length_dropWhile_le split: list.splits if_splits)

lemma json_frac_shorter: "length (snd (json_frac s)) \<le> length s"
  by (auto simp: json_frac_def le_SucI length_dropWhile_le split: list.splits)

lemma json_exp_shorter: "length (snd (json_exp s)) \<le> length s"
  by (auto simp: json_exp_def Let_def le_SucI length_dropWhile_drop split: list.splits)

lemma json_number_shorter:
  assumes "json_number pyfl s = Some (v, r)"
  shows "length r < length s"
proof -
  define body where "body = (if starts_with ''-'' s then drop 1 s else s)"
  obtain ds r1 where i: "json_int_part body = Some (ds, r1)"
    using assms by (auto simp: json_number_def body_def Let_def split: option.splits)
  have "r = snd (json_exp (snd (json_frac r1)))"
    using assms i by (auto simp: json_number_def body_def [symmetric] Let_def split: if_splits prod.splits)
  then have "length r \<le> length r1" using json_frac_shorter json_exp_shorter le_trans by blast
  also have "length r1 < length body" using i by (rule json_int_part_shorter)
  also have "length body \<le> length s" by (simp add: body_def)
  finally show ?thesis .
qed

lemma json_word_shorter: "json_word (c # w) v s = Some (x, r) \<Longrightarrow> length r < length s"
  by (auto simp: json_word_def starts_with_iff split: if_splits)

lemma json_atom_shorter:
  assumes "json_atom pyfl s = Some (v, r)"
  shows "length r < length s"
proof (cases s)
  case (Cons c t)
  with assms have "(\<exists>d w x. json_word (d # w) x s = Some (v, r)) \<or> json_number pyfl s = Some (v, r)"
    unfolding json_atom_def by (simp only: list.case split: if_splits) blast+
  then show ?thesis using json_word_shorter json_number_shorter by blast
qed (use assms in \<open>simp add: json_atom_def\<close>)

lemma skip_Cons: "skip x = d # y \<Longrightarrow> length y < length x"
  using length_dropWhile_le [of json_space x] by simp

lemma skip_less: "n < length (skip x) \<Longrightarrow> n < length x"
  using length_dropWhile_le [of json_space x] by simp

lemma json_shorter:
  "(json_value n pyfl s = Some (v, r) \<longrightarrow> length r < length s) \<and>
   (json_items n pyfl s = Some (vs, r) \<longrightarrow> length r < length s) \<and>
   (json_members n pyfl s = Some (kvs, r) \<longrightarrow> length r < length s)"
proof (induction n arbitrary: s v vs kvs r)
  case (Suc n)
  have v: "length r < length s" if "json_value n pyfl s = Some (v, r)" for s v r using Suc that by blast
  have i: "length r < length s" if "json_items n pyfl s = Some (vs, r)" for s vs r using Suc that by blast
  have m: "length r < length s" if "json_members n pyfl s = Some (kvs, r)" for s kvs r using Suc that by blast
  have "length r < length s" if "json_value (Suc n) pyfl s = Some (v, r)"
  proof (cases s)
    case (Cons c t)
    have ii: "length r < length t" if "json_items n pyfl u = Some (vs, r)" "skip t = u" for vs u
      using i [OF that(1)] that(2) skip_less by blast
    have mm: "length r < length t" if "json_members n pyfl u = Some (kvs, r)" "skip t = u" for kvs u
      using m [OF that(1)] that(2) skip_less by blast
    show ?thesis using that Cons
      by (auto simp: json_value.simps(2) less_Suc_eq split: if_splits list.splits dest: json_string_shorter skip_Cons ii mm
          dest!: json_atom_shorter)
  qed (use that in \<open>simp add: json_value.simps(2)\<close>)
  moreover have "length r < length s" if "json_items (Suc n) pyfl s = Some (vs, r)"
    using that by (auto simp: json_items.simps(2) split: if_splits list.splits option.splits
      dest!: v i skip_Cons skip_less)
  moreover have "length r < length s" if "json_members (Suc n) pyfl s = Some (kvs, r)"
    using that by (auto simp: json_members.simps(2) split: if_splits list.splits option.splits
      dest!: v m json_string_shorter skip_Cons skip_less)
  ultimately show ?case by blast
qed simp

lemma json_value_shorter: "json_value n pyfl s = Some (v, r) \<Longrightarrow> length r < length s"
  using json_shorter by blast

section \<open>More fuel\<close>

text \<open>From the fuel \<open>json_loads\<close> gives on, more of it changes nothing.\<close>

lemma json_fuel:
  "(2 * length s + 1 \<le> n \<longrightarrow> n \<le> m \<longrightarrow> json_value n pyfl s = json_value m pyfl s) \<and>
   (2 * length s + 2 \<le> n \<longrightarrow> n \<le> m \<longrightarrow> json_items n pyfl s = json_items m pyfl s \<and> json_members n pyfl s = json_members m pyfl s)"
proof (induction n arbitrary: s m)
  case (Suc n)
  have v: "json_value n pyfl t = json_value k pyfl t" if "2 * length t + 1 \<le> n" "n \<le> k" for t k using Suc that by blast
  have i: "json_items n pyfl t = json_items k pyfl t" if "2 * length t + 2 \<le> n" "n \<le> k" for t k using Suc that by blast
  have mm: "json_members n pyfl t = json_members k pyfl t" if "2 * length t + 2 \<le> n" "n \<le> k" for t k using Suc that by blast
  have sk: "length (skip t) \<le> length t" for t by (rule length_dropWhile_le)
  show ?case
  proof (cases m)
    case (Suc k)
    have "json_value (Suc n) pyfl s = json_value (Suc k) pyfl s" if "2 * length s + 1 \<le> Suc n" "n \<le> k"
    proof (cases s)
      case (Cons c t)
      have b: "2 * length (skip t) + 2 \<le> n" using sk [of t] that(1) Cons by simp
      show ?thesis by (simp only: json_value.simps(2) Cons list.case i [OF b that(2)] mm [OF b that(2)])
    qed (simp add: json_value.simps(2))
    moreover have "json_items (Suc n) pyfl s = json_items (Suc k) pyfl s" if b: "2 * length s + 2 \<le> Suc n" "n \<le> k"
    proof -
      have "json_items n pyfl (skip t) = json_items k pyfl (skip t)" if "json_value k pyfl s = Some (x, r)" "skip r = d # t" for x r d t
        using json_value_shorter [OF that(1)] skip_Cons [OF that(2)] sk [of t] b by (intro i) simp_all
      then show ?thesis using v [of s k] b by (auto simp: json_items.simps(2) simp del: dropWhile_eq_Nil_conv split: option.split list.split)
    qed
    moreover have "json_members (Suc n) pyfl s = json_members (Suc k) pyfl s" if b: "2 * length s + 2 \<le> Suc n" "n \<le> k"
    proof (cases s)
      case (Cons q t)
      have 1: "json_value n pyfl (skip r1) = json_value k pyfl (skip r1)" and 2: "length r1 < length t"
        if "json_string t = Some (key, r)" "skip r = e # r1" for key r e r1
        using json_string_shorter [OF that(1)] skip_Cons [OF that(2)] sk [of r1] b Cons by (auto intro!: v)
      have 3: "json_members n pyfl (skip r3) = json_members k pyfl (skip r3)"
        if "json_string t = Some (key, r)" "skip r = e # r1" "json_value k pyfl (skip r1) = Some (x, r2)" "skip r2 = d # r3"
        for key r e r1 x r2 d r3
        using 2 [OF that(1,2)] json_value_shorter [OF that(3)] skip_Cons [OF that(4)] sk [of r1] sk [of r3] b Cons
        by (intro mm) simp_all
      show ?thesis using Cons 1
        by (auto simp: json_members.simps(2) simp del: dropWhile_eq_Nil_conv split: option.split list.split) (simp add: 3)
    qed (simp add: json_members.simps(2))
    ultimately show ?thesis using Suc by simp
  qed simp
qed simp

lemma json_loads_fuel:
  assumes "2 * length s + 1 \<le> n"
  shows "json_loads pyfl s =
    (if starts_with [CHR 0xEF, CHR 0xBB, CHR 0xBF] s then None
     else case json_value n pyfl (skip s) of
            Some (v, r) \<Rightarrow> if skip r = [] then Some v else None
          | None \<Rightarrow> None)"
proof -
  have f: "json_value (2 * length s + 1) pyfl (skip s) = json_value k pyfl (skip s)" if "2 * length s + 1 \<le> k" for k
    using json_fuel [of "skip s" "2 * length s + 1" k] length_dropWhile_le [of json_space s] that by simp
  from f [OF assms] f [of "2 * length s + 2"] show ?thesis by (simp add: json_loads_def)
qed

end
