(* ===== verification/Routes.thy ===== *)
theory Routes
  imports AuditTrail
begin

text \<open>
  The table of routes \<open>create_app\<close> of \<open>app/main.py\<close> builds from the decorators of \<open>app/routers\<close>, in their
  order, and which endpoint a request reaches. The router is FastAPI's and a parameter; what the
  gateway relies on is that the first route of the table which matches is the one that is called.
  The facts: a data request reaches its own endpoint, with its own path parameters, except for the
  names an earlier route takes away.
\<close>

section \<open>Routes\<close>

text \<open>
  A segment of a pattern: fixed, a parameter \<open>{x}\<close> for one segment that is not empty, and \<open>{x:path}\<close>
  for all that follow.
\<close>

datatype route_seg = Lit string | Param string | PathParam string

type_synonym route = "string \<times> route_seg list \<times> string"
type_synonym routed = "string \<times> (string \<times> string) list"

fun match_segs :: "route_seg list \<Rightarrow> string list \<Rightarrow> (string \<times> string) list option" where
  "match_segs [] [] = Some []"
| "match_segs [] (t # ts) = None"
| "match_segs (Lit s # ps) (t # ts) = (if s = t then match_segs ps ts else None)"
| "match_segs (Param x # ps) (t # ts) = (if t = [] then None else map_option (\<lambda>m. (x, t) # m) (match_segs ps ts))"
| "match_segs (PathParam x # ps) (t # ts) = (if ps = [] then Some [(x, drop 1 (join_path (t # ts)))] else None)"
| "match_segs (p # ps) [] = None"

fun first_match :: "route list \<Rightarrow> string \<Rightarrow> string list \<Rightarrow> routed option" where
  "first_match [] verb segs = None"
| "first_match ((v, pat, h) # rs) verb segs =
     (case if v = verb then match_segs pat segs else None of
        Some m \<Rightarrow> Some (h, m)
      | None \<Rightarrow> first_match rs verb segs)"

definition under :: "route_seg list \<Rightarrow> route list \<Rightarrow> route list" where
  "under pre rs = map (\<lambda>(v, pat, h). (v, pre @ pat, h)) rs"

section \<open>The routers\<close>

definition kv_routes :: "route list" where
  "kv_routes =
     [(''POST'', [Lit ''batch''], ''batch_get_kv''),
      (''PUT'', [Lit ''batch''], ''batch_set_kv''),
      (''GET'', [Param ''key''], ''get_kv''),
      (''PUT'', [Param ''key''], ''set_kv''),
      (''DELETE'', [Param ''key''], ''delete_kv''),
      (''GET'', [Param ''key'', Lit ''exists''], ''exists_kv''),
      (''POST'', [Param ''key'', Lit ''incr''], ''incr_kv''),
      (''PUT'', [Param ''key'', Lit ''touch''], ''touch_kv''),
      (''PUT'', [Param ''key'', Lit ''nx''], ''set_kv_nx'')]"

definition map_routes :: "route list" where
  "map_routes =
     [(''POST'', [Lit ''batch''], ''batch_get_map''),
      (''PUT'', [Lit ''batch''], ''batch_set_map''),
      (''GET'', [Param ''key''], ''get_map''),
      (''GET'', [Param ''key'', Param ''field''], ''get_map_field''),
      (''PUT'', [Param ''key''], ''set_map''),
      (''PUT'', [Param ''key'', Lit ''touch''], ''touch_map''),
      (''PUT'', [Param ''key'', Param ''field''], ''set_map_field''),
      (''DELETE'', [Param ''key''], ''delete_map''),
      (''DELETE'', [Param ''key'', Param ''field''], ''delete_map_field'')]"

definition queue_routes :: "route list" where
  "queue_routes =
     [(''POST'', [Param ''key'', Lit ''batch''], ''batch_push_queue''),
      (''POST'', [Param ''key''], ''push_queue''),
      (''GET'', [Param ''key'', Lit ''pop''], ''pop_queue''),
      (''GET'', [Param ''key''], ''range_queue''),
      (''GET'', [Param ''key'', Lit ''len''], ''len_queue''),
      (''DELETE'', [Param ''key''], ''delete_queue''),
      (''PUT'', [Param ''key'', Lit ''touch''], ''touch_queue''),
      (''POST'', [Param ''key'', Lit ''trim''], ''trim_queue'')]"

definition group_routes :: "route list" where
  "group_routes =
     [(''POST'', [Lit ''batch''], ''batch_get_group''),
      (''PUT'', [Lit ''batch''], ''batch_add_group''),
      (''POST'', [Param ''key''], ''add_group''),
      (''GET'', [Param ''key''], ''members_group''),
      (''GET'', [Param ''key'', Lit ''contains'', Param ''member''], ''contains_group''),
      (''DELETE'', [Param ''key''], ''delete_group''),
      (''DELETE'', [Param ''key'', Param ''member''], ''remove_group''),
      (''GET'', [Param ''key'', Lit ''count''], ''count_group''),
      (''PUT'', [Param ''key'', Lit ''touch''], ''touch_group''),
      (''POST'', [Lit ''ops'', Lit ''inter''], ''inter_groups''),
      (''POST'', [Lit ''ops'', Lit ''union''], ''union_groups''),
      (''POST'', [Lit ''ops'', Lit ''diff''], ''diff_groups'')]"

definition rank_routes :: "route list" where
  "rank_routes =
     [(''POST'', [Lit ''batch''], ''batch_get_rank''),
      (''POST'', [Param ''key'', Lit ''batch''], ''batch_add_rank''),
      (''POST'', [Param ''key''], ''add_rank''),
      (''GET'', [Param ''key''], ''range_rank''),
      (''GET'', [Param ''key'', Lit ''score'', Param ''member''], ''score_rank''),
      (''GET'', [Param ''key'', Lit ''between''], ''between_rank''),
      (''DELETE'', [Param ''key''], ''delete_rank''),
      (''DELETE'', [Param ''key'', Param ''member''], ''remove_rank''),
      (''POST'', [Param ''key'', Lit ''incr''], ''incr_rank''),
      (''PUT'', [Param ''key'', Lit ''touch''], ''touch_rank''),
      (''GET'', [Param ''key'', Lit ''pop''], ''pop_rank'')]"

definition event_routes :: "route list" where
  "event_routes =
     [(''POST'', [Param ''key'', Lit ''batch''], ''batch_publish_event''),
      (''POST'', [Param ''key''], ''publish_event''),
      (''GET'', [Param ''key''], ''read_events''),
      (''POST'', [Param ''key'', Lit ''group''], ''create_group''),
      (''GET'', [Param ''key'', Lit ''group'', Param ''group'', Lit ''read''], ''read_group''),
      (''POST'', [Param ''key'', Lit ''group'', Param ''group'', Lit ''ack''], ''ack_events''),
      (''DELETE'', [Param ''key''], ''delete_event''),
      (''PUT'', [Param ''key'', Lit ''touch''], ''touch_event''),
      (''GET'', [Param ''key'', Lit ''info''], ''stream_info'')]"

definition pubsub_routes :: "route list" where
  "pubsub_routes = [(''POST'', [Lit ''ns'', Param ''ns'', Lit ''publish'', Param ''channel''], ''publish_message'')]"

definition admin_routes :: "route list" where
  "admin_routes =
     [(''GET'', [Lit ''systems''], ''list_systems''),
      (''GET'', [Lit ''admin'', Lit ''keys''], ''list_keys''),
      (''GET'', [Lit ''admin'', Lit ''info'', Param ''ns'', Param ''type'', PathParam ''key''], ''key_info''),
      (''PUT'', [Lit ''admin'', Lit ''ttl'', Param ''ns'', Param ''type'', PathParam ''key''], ''set_ttl''),
      (''DELETE'', [Lit ''admin'', Lit ''keys'', Lit ''bulk''], ''bulk_delete_keys''),
      (''DELETE'', [Lit ''admin'', Lit ''keys'', Param ''ns'', Param ''type'', PathParam ''key''], ''delete_key''),
      (''GET'', [Lit ''admin'', Lit ''stats''], ''get_stats''),
      (''GET'', [Lit ''admin'', Lit ''clients''], ''list_clients''),
      (''GET'', [Lit ''admin'', Lit ''metrics''], ''service_metrics''),
      (''GET'', [Lit ''metrics''], ''prometheus_metrics''),
      (''GET'', [Lit ''admin'', Lit ''health-detail''], ''admin_health_detail''),
      (''GET'', [Lit ''admin'', Lit ''audit'', Lit ''origin'', Param ''ns'', Param ''type'', PathParam ''key''], ''admin_audit_origin'')]"

text \<open>The routers of the data types; every path of theirs begins with \<open>/ns/{ns}\<close> and the type.\<close>

definition data_routers :: "(string \<times> route list) list" where
  "data_routers = [(''kv'', kv_routes), (''map'', map_routes), (''queue'', queue_routes), (''group'', group_routes),
     (''rank'', rank_routes), (''event'', event_routes)]"

definition router_routes :: "string \<times> route list \<Rightarrow> route list" where
  "router_routes r = under [Lit ''ns'', Param ''ns'', Lit (fst r)] (snd r)"

text \<open>\<open>include_router\<close> with the prefix \<open>/api/v1\<close>, then the two routes of the application itself.\<close>

definition app_routes :: "route list" where
  "app_routes = under [Lit ''api'', Lit ''v1''] (concat (map router_routes data_routers) @ pubsub_routes @ admin_routes) @
     [(''GET'', [Lit []], ''root''), (''GET'', [Lit ''health''], ''health_check'')]"

text \<open>What is documented of the router: a path is matched against the routes in their order.\<close>

type_synonym router = "route list \<Rightarrow> string \<Rightarrow> string \<Rightarrow> routed option"

definition documented_router :: "router \<Rightarrow> bool" where
  "documented_router dispatch \<longleftrightarrow> (\<forall>table verb segs r. segs \<noteq> [] \<and> (\<forall>s \<in> set segs. slash \<notin> set s) \<and>
     first_match table verb segs = Some r \<longrightarrow> dispatch table verb (join_path segs) = Some r)"

section \<open>The endpoint of a request\<close>

primrec op_endpoint :: "group_op \<Rightarrow> string" where
  "op_endpoint OpInter = ''inter_groups''"
| "op_endpoint OpUnion = ''union_groups''"
| "op_endpoint OpDiff = ''diff_groups''"

abbreviation keyed :: "string \<Rightarrow> string \<Rightarrow> routed" where
  "keyed h key \<equiv> (h, [(''key'', key)])"

primrec kv_endpoint :: "kv_request \<Rightarrow> routed" where
  "kv_endpoint (BatchGetKv body) = (''batch_get_kv'', [])"
| "kv_endpoint (BatchSetKv body) = (''batch_set_kv'', [])"
| "kv_endpoint (GetKv key) = keyed ''get_kv'' key"
| "kv_endpoint (SetKv key body) = keyed ''set_kv'' key"
| "kv_endpoint (DeleteKv key) = keyed ''delete_kv'' key"
| "kv_endpoint (ExistsKv key) = keyed ''exists_kv'' key"
| "kv_endpoint (IncrKv key body) = keyed ''incr_kv'' key"
| "kv_endpoint (TouchKv key body) = keyed ''touch_kv'' key"
| "kv_endpoint (SetKvNx key body) = keyed ''set_kv_nx'' key"

primrec map_endpoint :: "map_request \<Rightarrow> routed" where
  "map_endpoint (BatchGetMap body) = (''batch_get_map'', [])"
| "map_endpoint (BatchSetMap body) = (''batch_set_map'', [])"
| "map_endpoint (GetMap key) = keyed ''get_map'' key"
| "map_endpoint (GetMapField key field) = (''get_map_field'', [(''key'', key), (''field'', field)])"
| "map_endpoint (SetMap key body) = keyed ''set_map'' key"
| "map_endpoint (TouchMap key body) = keyed ''touch_map'' key"
| "map_endpoint (SetMapField key field body) = (''set_map_field'', [(''key'', key), (''field'', field)])"
| "map_endpoint (DeleteMap key) = keyed ''delete_map'' key"
| "map_endpoint (DeleteMapField key field) = (''delete_map_field'', [(''key'', key), (''field'', field)])"

primrec queue_endpoint :: "queue_request \<Rightarrow> routed" where
  "queue_endpoint (BatchPushQueue key body) = keyed ''batch_push_queue'' key"
| "queue_endpoint (PushQueue key body) = keyed ''push_queue'' key"
| "queue_endpoint (PopQueue key direction) = keyed ''pop_queue'' key"
| "queue_endpoint (RangeQueue key start stop) = keyed ''range_queue'' key"
| "queue_endpoint (LenQueue key) = keyed ''len_queue'' key"
| "queue_endpoint (DeleteQueue key) = keyed ''delete_queue'' key"
| "queue_endpoint (TouchQueue key body) = keyed ''touch_queue'' key"
| "queue_endpoint (TrimQueue key body) = keyed ''trim_queue'' key"

primrec group_endpoint :: "group_request \<Rightarrow> routed" where
  "group_endpoint (BatchGetGroup body) = (''batch_get_group'', [])"
| "group_endpoint (BatchAddGroup body) = (''batch_add_group'', [])"
| "group_endpoint (AddGroup key body) = keyed ''add_group'' key"
| "group_endpoint (MembersGroup key) = keyed ''members_group'' key"
| "group_endpoint (ContainsGroup key member) = (''contains_group'', [(''key'', key), (''member'', member)])"
| "group_endpoint (DeleteGroup key) = keyed ''delete_group'' key"
| "group_endpoint (RemoveGroup key member) = (''remove_group'', [(''key'', key), (''member'', member)])"
| "group_endpoint (CountGroup key) = keyed ''count_group'' key"
| "group_endpoint (TouchGroup key body) = keyed ''touch_group'' key"
| "group_endpoint (OpsGroup oper body) = (op_endpoint oper, [])"

primrec rank_endpoint :: "rank_request \<Rightarrow> routed" where
  "rank_endpoint (BatchGetRank body) = (''batch_get_rank'', [])"
| "rank_endpoint (BatchAddRank key body) = keyed ''batch_add_rank'' key"
| "rank_endpoint (AddRank key body) = keyed ''add_rank'' key"
| "rank_endpoint (RangeRank key start stop reverse) = keyed ''range_rank'' key"
| "rank_endpoint (ScoreRank key member) = (''score_rank'', [(''key'', key), (''member'', member)])"
| "rank_endpoint (BetweenRank key lo hi) = keyed ''between_rank'' key"
| "rank_endpoint (DeleteRank key) = keyed ''delete_rank'' key"
| "rank_endpoint (RemoveRank key member) = (''remove_rank'', [(''key'', key), (''member'', member)])"
| "rank_endpoint (IncrRank key body) = keyed ''incr_rank'' key"
| "rank_endpoint (TouchRank key body) = keyed ''touch_rank'' key"
| "rank_endpoint (PopRank key direction) = keyed ''pop_rank'' key"

primrec event_endpoint :: "event_request \<Rightarrow> routed" where
  "event_endpoint (BatchPublishEvent key body) = keyed ''batch_publish_event'' key"
| "event_endpoint (PublishEvent key body) = keyed ''publish_event'' key"
| "event_endpoint (ReadEvents key last_id count) = keyed ''read_events'' key"
| "event_endpoint (CreateGroup key body) = keyed ''create_group'' key"
| "event_endpoint (ReadGroup key gname consumer count) = (''read_group'', [(''key'', key), (''group'', gname)])"
| "event_endpoint (AckEvents key gname body) = (''ack_events'', [(''key'', key), (''group'', gname)])"
| "event_endpoint (DeleteEvent key) = keyed ''delete_event'' key"
| "event_endpoint (TouchEvent key body) = keyed ''touch_event'' key"
| "event_endpoint (StreamInfo key) = keyed ''stream_info'' key"

text \<open>The function that should answer a request, and its arguments that come from the path.\<close>

primrec data_own_endpoint :: "data_request \<Rightarrow> routed" where
  "data_own_endpoint (KvRequest q) = kv_endpoint q"
| "data_own_endpoint (MapRequest q) = map_endpoint q"
| "data_own_endpoint (QueueRequest q) = queue_endpoint q"
| "data_own_endpoint (GroupRequest q) = group_endpoint q"
| "data_own_endpoint (RankRequest q) = rank_endpoint q"
| "data_own_endpoint (EventRequest q) = event_endpoint q"

text \<open>The requests whose path an earlier route takes.\<close>

primrec shadowed :: "data_request \<Rightarrow> bool" where
  "shadowed (KvRequest q) = (case q of SetKv key body \<Rightarrow> key = ''batch'' | _ \<Rightarrow> False)"
| "shadowed (MapRequest q) = (case q of SetMap key body \<Rightarrow> key = ''batch'' | SetMapField key field body \<Rightarrow> field = ''touch'' | _ \<Rightarrow> False)"
| "shadowed (QueueRequest q) = False"
| "shadowed (GroupRequest q) = (case q of AddGroup key body \<Rightarrow> key = ''batch'' | _ \<Rightarrow> False)"
| "shadowed (RankRequest q) = (case q of AddRank key body \<Rightarrow> key = ''batch'' | _ \<Rightarrow> False)"
| "shadowed (EventRequest q) = False"

section \<open>Facts\<close>

lemma first_match_append:
  "first_match (rs @ rs') verb segs = (case first_match rs verb segs of None \<Rightarrow> first_match rs' verb segs | r \<Rightarrow> r)"
  by (induction rs verb segs rule: first_match.induct) (auto split: option.split)

lemma first_match_lit:
  "first_match (under (Lit s # pre) rs) verb (t # ts) = (if s = t then first_match (under pre rs) verb ts else None)"
  by (induction rs) (auto simp: under_def split: option.split)

lemma first_match_param:
  "t \<noteq> [] \<Longrightarrow> first_match (under (Param x # pre) rs) verb (t # ts) =
    map_option (\<lambda>(h, m). (h, (x, t) # m)) (first_match (under pre rs) verb ts)"
  by (induction rs) (auto simp: under_def split: option.split)

lemma under_Nil [simp]: "under [] rs = rs"
  by (induction rs) (auto simp: under_def)

lemma under_append: "under pre (rs @ rs') = under pre rs @ under pre rs'"
  by (simp add: under_def)

lemma under_under: "under pre (under pre' rs) = under (pre @ pre') rs"
  by (induction rs) (auto simp: under_def)

definition with_ns :: "string \<Rightarrow> routed \<Rightarrow> routed" where
  "with_ns ns r = (fst r, (''ns'', ns) # snd r)"

text \<open>The table of its type answers for a data path: no other router has a route for it.\<close>

lemma first_match_routers:
  assumes "ns \<noteq> []"
  shows "map_of routers ty = Some rs \<Longrightarrow> first_match rs verb rest = Some r \<Longrightarrow>
    first_match (concat (map router_routes routers) @ others) verb (''ns'' # ns # ty # rest) = Some (with_ns ns r)"
proof (induction routers)
  case (Cons x routers)
  obtain ty' rs' where x: "x = (ty', rs')" by fastforce
  show ?case
  proof (cases "ty' = ty")
    case True
    with Cons.prems x show ?thesis
      by (simp add: router_routes_def first_match_append first_match_lit first_match_param assms with_ns_def split: prod.split)
  next
    case False
    with Cons x show ?thesis
      by (simp add: router_routes_def first_match_append first_match_lit first_match_param assms)
  qed
qed simp

lemma first_match_data:
  assumes "ns \<noteq> []" and "map_of data_routers ty = Some rs" and "first_match rs verb rest = Some r"
  shows "first_match app_routes verb ([''api'', ''v1'', ''ns'', ns, ty] @ rest) = Some (with_ns ns r)"
  using first_match_routers [OF assms]
  by (simp add: app_routes_def first_match_append first_match_lit)

text \<open>Inside a router, its own endpoint answers, or the one that shadows it.\<close>

primrec shadow :: "data_request \<Rightarrow> routed" where
  "shadow (KvRequest q) = (''batch_set_kv'', [])"
| "shadow (MapRequest q) = (case q of SetMapField key field body \<Rightarrow> keyed ''touch_map'' key | _ \<Rightarrow> (''batch_set_map'', []))"
| "shadow (QueueRequest q) = ([], [])"
| "shadow (GroupRequest q) = (''batch_get_group'', [])"
| "shadow (RankRequest q) = (''batch_get_rank'', [])"
| "shadow (EventRequest q) = ([], [])"

definition reached :: "data_request \<Rightarrow> routed" where
  "reached q = (if shadowed q then shadow q else data_own_endpoint q)"

lemma kv_reached: "param_ok ns (KvRequest q) \<Longrightarrow>
    \<exists>rest. snd (kv_route q) = ''kv'' # rest \<and> first_match kv_routes (fst (kv_route q)) rest = Some (reached (KvRequest q))"
  by (cases q) (simp_all add: kv_routes_def reached_def param_ok_def data_segments_def)

lemma map_reached: "param_ok ns (MapRequest q) \<Longrightarrow>
    \<exists>rest. snd (map_route q) = ''map'' # rest \<and> first_match map_routes (fst (map_route q)) rest = Some (reached (MapRequest q))"
  by (cases q) (simp_all add: map_routes_def reached_def param_ok_def data_segments_def)

lemma queue_reached: "param_ok ns (QueueRequest q) \<Longrightarrow>
    \<exists>rest. snd (queue_route q) = ''queue'' # rest \<and> first_match queue_routes (fst (queue_route q)) rest = Some (reached (QueueRequest q))"
  by (cases q) (simp_all add: queue_routes_def reached_def param_ok_def data_segments_def)

lemma group_reached: "param_ok ns (GroupRequest q) \<Longrightarrow>
    \<exists>rest. snd (group_route q) = ''group'' # rest \<and> first_match group_routes (fst (group_route q)) rest = Some (reached (GroupRequest q))"
proof (cases q)
  case (OpsGroup oper body)
  then show ?thesis by (cases oper) (simp_all add: group_routes_def reached_def)
qed (simp_all add: group_routes_def reached_def param_ok_def data_segments_def)

lemma rank_reached: "param_ok ns (RankRequest q) \<Longrightarrow>
    \<exists>rest. snd (rank_route q) = ''rank'' # rest \<and> first_match rank_routes (fst (rank_route q)) rest = Some (reached (RankRequest q))"
  by (cases q) (simp_all add: rank_routes_def reached_def param_ok_def data_segments_def)

lemma event_reached: "param_ok ns (EventRequest q) \<Longrightarrow>
    \<exists>rest. snd (event_route q) = ''event'' # rest \<and> first_match event_routes (fst (event_route q)) rest = Some (reached (EventRequest q))"
  by (cases q) (simp_all add: event_routes_def reached_def param_ok_def data_segments_def)

lemma data_routers_of [simp]:
  "map_of data_routers ''kv'' = Some kv_routes" "map_of data_routers ''map'' = Some map_routes"
  "map_of data_routers ''queue'' = Some queue_routes" "map_of data_routers ''group'' = Some group_routes"
  "map_of data_routers ''rank'' = Some rank_routes" "map_of data_routers ''event'' = Some event_routes"
  by (simp_all add: data_routers_def)

lemma data_reached:
  assumes "param_ok ns q"
  shows "\<exists>ty rs rest. map_of data_routers ty = Some rs \<and> snd (data_route q) = ty # rest \<and>
    first_match rs (fst (data_route q)) rest = Some (reached q)" (is "\<exists>ty rs rest. ?P ty rs rest")
proof -
  have found: "\<exists>ty rs rest. ?P ty rs rest" if "map_of data_routers ty = Some rs" "\<exists>rest. snd (data_route q) = ty # rest \<and>
      first_match rs (fst (data_route q)) rest = Some (reached q)" for ty rs
    using that by blast
  show ?thesis
  proof (cases q)
    case (KvRequest x)
    with kv_reached assms show ?thesis by (intro found [of "''kv''"]) simp_all
  next
    case (MapRequest x)
    with map_reached assms show ?thesis by (intro found [of "''map''"]) simp_all
  next
    case (QueueRequest x)
    with queue_reached assms show ?thesis by (intro found [of "''queue''"]) simp_all
  next
    case (GroupRequest x)
    with group_reached assms show ?thesis by (intro found [of "''group''"]) simp_all
  next
    case (RankRequest x)
    with rank_reached assms show ?thesis by (intro found [of "''rank''"]) simp_all
  next
    case (EventRequest x)
    with event_reached assms show ?thesis by (intro found [of "''event''"]) simp_all
  qed
qed

lemma shadow_differs: "shadowed q \<Longrightarrow> shadow q \<noteq> data_own_endpoint q"
  by (cases q) (auto split: kv_request.splits map_request.splits group_request.splits rank_request.splits)

section \<open>Properties\<close>

text \<open>A router of samples, for the witness.\<close>

definition sample_router :: router where
  "sample_router table verb path = first_match table verb (split_on slash (drop 1 path))"

lemma split_join_path: "segs \<noteq> [] \<Longrightarrow> \<forall>s \<in> set segs. slash \<notin> set s \<Longrightarrow> split_on slash (drop (Suc 0) (join_path segs)) = segs"
proof (induction segs)
  case (Cons s segs)
  then show ?case by (cases segs) (simp_all add: join_path_def split_on_free split_on_sep)
qed simp

lemma sample_router_documented: "documented_router sample_router"
  by (simp add: documented_router_def sample_router_def split_join_path)

text \<open>C12: a data request reaches the endpoint that should answer it, with the namespace and its own path
  parameters, exactly when no earlier route takes its path; the requests that are taken away are the
  writes of a string, a hash, a set or a sorted set named \<open>batch\<close> and of a hash field named \<open>touch\<close>,
  and they reach the batch operation, or the one that changes the TTL.\<close>

theorem requests_routed:
  assumes "documented_router dispatch" and "param_ok ns q"
  shows "dispatch app_routes (fst (data_route q)) (data_path ns q) =
      Some (with_ns ns (if shadowed q then shadow q else data_own_endpoint q)) \<and>
    (dispatch app_routes (fst (data_route q)) (data_path ns q) = Some (with_ns ns (data_own_endpoint q)) \<longleftrightarrow> \<not> shadowed q)"
proof -
  have segs: "data_segments ns q \<noteq> []" "\<forall>s \<in> set (data_segments ns q). slash \<notin> set s" "ns \<noteq> []"
    using assms(2) by (auto simp: param_ok_def list_all_iff data_segments_def)
  obtain ty rs rest where "map_of data_routers ty = Some rs" and seg: "snd (data_route q) = ty # rest"
    and "first_match rs (fst (data_route q)) rest = Some (reached q)"
    using data_reached [OF assms(2)] by blast
  from first_match_data [OF segs(3) this(1,3)]
  have "first_match app_routes (fst (data_route q)) (data_segments ns q) = Some (with_ns ns (reached q))"
    by (simp add: data_segments_def seg)
  with assms(1) segs(1,2) have "dispatch app_routes (fst (data_route q)) (data_path ns q) = Some (with_ns ns (reached q))"
    unfolding documented_router_def data_path_def by blast
  then show ?thesis using shadow_differs by (auto simp: reached_def with_ns_def prod_eq_iff)
qed

theorem requests_routed_witness:
  "sample_router app_routes ''PUT'' ''/api/v1/ns/A/map/k/touch'' = Some (''touch_map'', [(''ns'', ''A''), (''key'', ''k'')]) \<and>
   sample_router app_routes ''PUT'' ''/api/v1/ns/A/map/k/name'' =
     Some (''set_map_field'', [(''ns'', ''A''), (''key'', ''k''), (''field'', ''name'')])"
proof -
  let ?q = "\<lambda>f. MapRequest (SetMapField ''k'' f \<lparr>field_value = ''v'', field_ttl = None\<rparr>)"
  have ok: "param_ok ''A'' (?q ''touch'')" "param_ok ''A'' (?q ''name'')" by (simp_all add: param_ok_def data_segments_def)
  from requests_routed [OF sample_router_documented ok(1)] requests_routed [OF sample_router_documented ok(2)]
  show ?thesis by (simp add: data_path_def join_path_def data_segments_def with_ns_def)
qed

text \<open>
  A user key may contain a slash, but the path of a data endpoint has one segment for it: deleting the
  set \<open>a/b\<close> has the path of removing the member \<open>b\<close> of the set \<open>a\<close>, and reaches that endpoint.
\<close>

lemma slash_in_key_rerouted:
  assumes "documented_router dispatch" and "param_ok ns (GroupRequest (RemoveGroup a b))"
  shows "dispatch app_routes ''DELETE'' (data_path ns (GroupRequest (DeleteGroup (a @ slash # b)))) =
    Some (''remove_group'', [(''ns'', ns), (''key'', a), (''member'', b)])"
proof -
  have "data_path ns (GroupRequest (DeleteGroup (a @ slash # b))) = data_path ns (GroupRequest (RemoveGroup a b))"
    by (simp add: data_path_def join_path_def data_segments_def)
  with requests_routed [OF assms] show ?thesis by (simp add: with_ns_def)
qed

lemma slash_key_valid: "key_matches ''a/b''"
  by (simp add: key_matches_def key_char_def is_alnum_def is_lower_def is_upper_def is_digit_def code_def)

end
