(* ===== verification/StatusMonitor.thy ===== *)
theory StatusMonitor
  imports Application
begin

text \<open>
  \<open>app/main.py\<close>, \<open>_status_monitor_loop\<close>: every worker runs the loop, and a lock in Redis with a time to
  live chooses the one that writes the status line of a turn. The workers' steps interleave freely
  with the passing of time; what one turn sends and writes is \<open>status_tick\<close> of the theory
  Application. Redis is seen here through the one key of the lock, which expires by itself and
  which no request of a client can touch (\<open>internal_keys_apart\<close>).
\<close>

section \<open>The loops and the lock\<close>

text \<open>
  Where the loop of a worker is: not begun; at the test of \<open>while\<close>; holding the lock of the turn it
  got at a time, before its line is written; in \<open>wait_for\<close> with its deadline; left.
\<close>

datatype loop_phase = NotBegun | LoopTop | Elected rat | Sleeping rat | LoopDone

text \<open>
  The lock by the time it expires, and, newest first, who got it when, and the lines: when the
  worker got the lock for it, when it was written, and by whom. Between the two lie the \<open>INFO\<close>, the
  \<open>DBSIZE\<close> and the wait for the log.
\<close>

record monitors =
  time_now :: rat
  lease_until :: "rat option"
  loops :: "nat \<Rightarrow> loop_phase"
  shutdown_set :: "nat \<Rightarrow> bool"
  elections :: "(rat \<times> nat) list"
  status_log :: "(rat \<times> rat \<times> nat) list"

definition monitors_init :: monitors where
  "monitors_init = \<lparr>time_now = 0, lease_until = None, loops = (\<lambda>w. NotBegun), shutdown_set = (\<lambda>w. False),
     elections = [], status_log = []\<rparr>"

text \<open>The \<open>SET\<close> is answered, or executed and its answer lost, or not executed.\<close>

datatype set_outcome = SetAnswered | SetLost | SetRefused

datatype monitor_event =
    TimePasses rat
  | BeginLoop nat
  | TryLock nat set_outcome
  | WriteLine nat bool
  | TimedOut nat
  | SetShutdown nat
  | SeeShutdown nat
  | CancelLoop nat

definition lease_held :: "monitors \<Rightarrow> bool" where
  "lease_held s = (case lease_until s of None \<Rightarrow> False | Some t \<Rightarrow> time_now s < t)"

definition to_phase :: "nat \<Rightarrow> loop_phase \<Rightarrow> monitors \<Rightarrow> monitors" where
  "to_phase w p s = s\<lparr>loops := (loops s)(w := p)\<rparr>"

definition sleep_turn :: "nat \<Rightarrow> monitors \<Rightarrow> monitors" where
  "sleep_turn w s = to_phase w (Sleeping (time_now s + of_nat STATUS_INTERVAL)) s"

text \<open>\<open>SET key pid NX EX ttl\<close> by worker \<open>w\<close> when the lock is free.\<close>

definition take_lease :: "nat \<Rightarrow> monitors \<Rightarrow> monitors" where
  "take_lease w s = s\<lparr>lease_until := Some (time_now s + of_int STATUS_LEADER_TTL), elections := (time_now s, w) # elections s\<rparr>"

fun monitor_step :: "monitor_event \<Rightarrow> monitors \<Rightarrow> monitors option" where
  "monitor_step (TimePasses d) s = (if d \<ge> 0 then Some (s\<lparr>time_now := time_now s + d\<rparr>) else None)"
| "monitor_step (BeginLoop w) s = (if loops s w = NotBegun then Some (to_phase w LoopTop s) else None)"
| "monitor_step (TryLock w out) s =
     (if loops s w = LoopTop \<and> \<not> shutdown_set s w
      then Some (case out of
             SetRefused \<Rightarrow> sleep_turn w s
           | SetLost \<Rightarrow> sleep_turn w (if lease_held s then s else take_lease w s)
           | SetAnswered \<Rightarrow> if lease_held s then sleep_turn w s
               else to_phase w (Elected (time_now s)) (take_lease w s))
      else None)"
| "monitor_step (WriteLine w logged) s =
     (case loops s w of
        Elected t \<Rightarrow> Some (sleep_turn w (if logged then s\<lparr>status_log := (t, time_now s, w) # status_log s\<rparr> else s))
      | _ \<Rightarrow> None)"
| "monitor_step (TimedOut w) s =
     (case loops s w of Sleeping t \<Rightarrow> if t \<le> time_now s then Some (to_phase w LoopTop s) else None | _ \<Rightarrow> None)"
| "monitor_step (SetShutdown w) s = Some (s\<lparr>shutdown_set := (shutdown_set s)(w := True)\<rparr>)"
| "monitor_step (SeeShutdown w) s =
     (if shutdown_set s w \<and> (case loops s w of LoopTop \<Rightarrow> True | Sleeping t \<Rightarrow> True | _ \<Rightarrow> False)
      then Some (to_phase w LoopDone s) else None)"
| "monitor_step (CancelLoop w) s =
     (if shutdown_set s w \<and> loops s w \<noteq> NotBegun then Some (to_phase w LoopDone s) else None)"

section \<open>The lease\<close>

definition spaced :: "(rat \<times> nat) list \<Rightarrow> bool" where
  "spaced = sorted_wrt (\<lambda>a b. fst b + 480 \<le> fst a)"

definition lease_inv :: "monitors \<Rightarrow> bool" where
  "lease_inv s \<longleftrightarrow> spaced (elections s) \<and>
     (elections s = [] \<longrightarrow> lease_until s = None) \<and>
     (\<forall>e es. elections s = e # es \<longrightarrow> lease_until s = Some (fst e + 480) \<and> fst e \<le> time_now s)"

fun line_election :: "rat \<times> rat \<times> nat \<Rightarrow> rat \<times> nat" where
  "line_election (t, u, w) = (t, w)"

abbreviation line_elections :: "monitors \<Rightarrow> (rat \<times> nat) list" where
  "line_elections s \<equiv> map line_election (status_log s)"

definition log_of_elections :: "monitors \<Rightarrow> bool" where
  "log_of_elections s \<longleftrightarrow> distinct (line_elections s) \<and> set (line_elections s) \<subseteq> set (elections s) \<and>
     list_all (\<lambda>(t, u, w). t \<le> u \<and> u \<le> time_now s) (status_log s) \<and>
     (\<forall>w t. loops s w = Elected t \<longrightarrow> t \<le> time_now s \<and> (t, w) \<in> set (elections s) - set (line_elections s))"

definition sleep_inv :: "monitors \<Rightarrow> bool" where
  "sleep_inv s \<longleftrightarrow> (\<forall>w t. loops s w = Sleeping t \<longrightarrow> t \<le> time_now s + 600)"

lemmas monitor_ops = to_phase_def sleep_turn_def take_lease_def

lemma lease_take: "lease_inv s \<Longrightarrow> \<not> lease_held s \<Longrightarrow> lease_inv (take_lease w s)"
  by (cases "elections s") (force simp: lease_inv_def lease_held_def take_lease_def spaced_def STATUS_LEADER_TTL_def)+

lemma lease_inv_phase [simp]: "lease_inv (to_phase w p s) = lease_inv s" "lease_inv (sleep_turn w s) = lease_inv s"
  by (simp_all add: lease_inv_def monitor_ops)

lemma lease_inv_step: "lease_inv s \<Longrightarrow> monitor_step a s = Some s' \<Longrightarrow> lease_inv s'"
proof (cases a)
  case (TimePasses d)
  assume "lease_inv s" "monitor_step a s = Some s'"
  with TimePasses show ?thesis by (auto simp: lease_inv_def split: if_splits list.splits)
next
  case (TryLock w out)
  assume "lease_inv s" "monitor_step a s = Some s'"
  with TryLock show ?thesis by (auto simp: lease_take split: if_splits set_outcome.splits)
next
  case (WriteLine w logged)
  assume "lease_inv s" "monitor_step a s = Some s'"
  with WriteLine show ?thesis by (cases logged) (auto simp: lease_inv_def monitor_ops split: loop_phase.splits)
qed (auto simp: lease_inv_def monitor_ops split: if_splits loop_phase.splits)

lemma log_phase:
  assumes "log_of_elections s" and "\<And>t. p \<noteq> Elected t"
  shows "log_of_elections (to_phase w p s)"
proof -
  have s: "loops (to_phase w p s) = (loops s)(w := p)" "elections (to_phase w p s) = elections s"
    "status_log (to_phase w p s) = status_log s" "time_now (to_phase w p s) = time_now s" by (simp_all add: monitor_ops)
  from assms show ?thesis unfolding log_of_elections_def s by simp
qed

lemma log_sleep: "log_of_elections s \<Longrightarrow> log_of_elections (sleep_turn w s)"
  by (simp add: sleep_turn_def log_phase)

lemma log_shutdown: "log_of_elections s \<Longrightarrow> log_of_elections (s\<lparr>shutdown_set := g\<rparr>)"
  by (simp add: log_of_elections_def)

lemma log_take:
  assumes "log_of_elections s" and "\<And>v. (time_now s, v) \<notin> set (elections s)"
  shows "log_of_elections (to_phase w (Elected (time_now s)) (take_lease w s))" (is "log_of_elections ?s")
    and "log_of_elections (sleep_turn w (take_lease w s))" (is "log_of_elections ?s'")
proof -
  have s: "loops ?s = (loops s)(w := Elected (time_now s))" "elections ?s = (time_now s, w) # elections s"
    "status_log ?s = status_log s" "time_now ?s = time_now s" by (simp_all add: monitor_ops)
  have "(time_now s, w) \<notin> set (line_elections s)" using assms unfolding log_of_elections_def by blast
  with assms(1) show "log_of_elections ?s" unfolding log_of_elections_def s by (simp add: subset_insertI2)
  have s': "loops ?s' = (loops s)(w := Sleeping (time_now s + of_nat STATUS_INTERVAL))" "elections ?s' = (time_now s, w) # elections s"
    "status_log ?s' = status_log s" "time_now ?s' = time_now s" by (simp_all add: monitor_ops)
  from assms(1) show "log_of_elections ?s'" unfolding log_of_elections_def s' by auto
qed

lemma log_write:
  assumes "log_of_elections s" and "loops s w = Elected t"
  shows "log_of_elections (sleep_turn w (s\<lparr>status_log := (t, time_now s, w) # status_log s\<rparr>))" (is "log_of_elections ?s")
proof -
  have s: "loops ?s = (loops s)(w := Sleeping (time_now s + of_nat STATUS_INTERVAL))" "elections ?s = elections s"
    "status_log ?s = (t, time_now s, w) # status_log s" "time_now ?s = time_now s" by (simp_all add: monitor_ops)
  from assms show ?thesis unfolding log_of_elections_def s by simp
qed

lemma log_step_elections: "lease_inv s \<Longrightarrow> log_of_elections s \<Longrightarrow> monitor_step a s = Some s' \<Longrightarrow> log_of_elections s'"
proof (cases a)
  case (TimePasses d)
  assume i: "lease_inv s" "log_of_elections s" "monitor_step a s = Some s'"
  have d: "0 \<le> d" "s' = s\<lparr>time_now := time_now s + d\<rparr>" using i(3) TimePasses by (simp_all split: if_splits)
  have "u \<le> time_now s \<Longrightarrow> u \<le> time_now s + d" for u using d(1) by simp
  then show ?thesis using i(2) unfolding d(2) log_of_elections_def list_all_iff by fastforce
next
  case (TryLock w out)
  assume i: "lease_inv s" "log_of_elections s" "monitor_step a s = Some s'"
  have fresh: "(time_now s, v) \<notin> set (elections s)" if "\<not> lease_held s" for v
    using i(1) that by (cases "elections s") (force simp: lease_inv_def lease_held_def spaced_def)+
  show ?thesis using i(2,3) TryLock
    by (auto simp: log_sleep log_take fresh split: if_splits set_outcome.splits)
next
  case (WriteLine w logged)
  assume i: "lease_inv s" "log_of_elections s" "monitor_step a s = Some s'"
  then show ?thesis using WriteLine by (cases logged) (auto simp: log_sleep log_write split: loop_phase.splits)
qed (auto simp: log_phase log_shutdown split: if_splits loop_phase.splits)

lemma sleep_inv_step: "sleep_inv s \<Longrightarrow> monitor_step a s = Some s' \<Longrightarrow> sleep_inv s'"
proof (cases a)
  case (TimePasses d)
  assume "sleep_inv s" "monitor_step a s = Some s'"
  with TimePasses show ?thesis by (force simp: sleep_inv_def split: if_splits)
qed (auto simp: sleep_inv_def monitor_ops STATUS_INTERVAL_def split: if_splits loop_phase.splits set_outcome.splits)

lemma monitor_invs: "run_events monitor_step as monitors_init = Some s \<Longrightarrow> lease_inv s \<and> log_of_elections s \<and> sleep_inv s"
proof (erule run_invariant)
  show "lease_inv monitors_init \<and> log_of_elections monitors_init \<and> sleep_inv monitors_init"
    by (simp add: monitors_init_def lease_inv_def log_of_elections_def sleep_inv_def spaced_def)
qed (blast intro: lease_inv_step log_step_elections sleep_inv_step)

lemma spaced_far: "spaced es \<Longrightarrow> a \<in> set es \<Longrightarrow> b \<in> set es \<Longrightarrow> a \<noteq> b \<Longrightarrow> \<bar>fst a - fst b\<bar> \<ge> 480"
  unfolding spaced_def by (induction es) (auto simp: abs_if)

lemma held_recent: "lease_inv s \<Longrightarrow> lease_held s \<Longrightarrow> \<exists>e \<in> set (elections s). time_now s - 480 < fst e \<and> fst e \<le> time_now s"
  by (cases "elections s") (auto simp: lease_inv_def lease_held_def)

lemma line_far:
  assumes "lease_inv s" and "log_of_elections s" and "a \<in> set (status_log s)" and "b \<in> set (status_log s)"
  shows "a = b \<or> 480 \<le> \<bar>fst a - fst b\<bar>"
proof (rule disjCI)
  assume far: "\<not> 480 \<le> \<bar>fst a - fst b\<bar>"
  show "a = b"
  proof (rule ccontr)
  assume "a \<noteq> b"
  have log: "inj_on line_election (set (status_log s))" "line_election ` set (status_log s) \<subseteq> set (elections s)"
    using assms(2) by (simp_all add: log_of_elections_def distinct_map)
  have "line_election a \<noteq> line_election b" using inj_onD [OF log(1) _ assms(3,4)] \<open>a \<noteq> b\<close> by blast
  moreover have "line_election a \<in> set (elections s)" "line_election b \<in> set (elections s)" using log(2) assms(3,4) by blast+
  moreover have "fst (line_election x) = fst x" for x by (cases x rule: line_election.cases) simp
  ultimately show False
    using far spaced_far [of "elections s" "line_election a" "line_election b"] assms(1) by (simp add: lease_inv_def)
  qed
qed

section \<open>Properties\<close>

text \<open>C16: the workers share one status line: whatever their steps and however time passes between them, the
  turns that write a line got the lock at least 480 seconds apart from each other, each such turn writes
  one line, and after it got the lock. (The writing itself may be delayed without bound, so the lines can
  be closer: \<open>lines_close_together\<close>.) And a worker that
  dies is replaced: from every reachable state, as soon as any waiting worker reaches its deadline, at
  most 600 seconds from then, and its \<open>SET\<close> is answered, some worker got the lock less than 480 seconds
  before.\<close>

theorem status_line_lease:
  assumes "run_events monitor_step as monitors_init = Some s"
  shows "distinct (status_log s) \<and>
    (\<forall>(elected, written, w) \<in> set (status_log s). elected \<le> written \<and> written \<le> time_now s) \<and>
    (\<forall>a \<in> set (status_log s). \<forall>b \<in> set (status_log s). a = b \<or> 480 \<le> \<bar>fst a - fst b\<bar>) \<and>
    (\<forall>w t. loops s w = Sleeping t \<and> \<not> shutdown_set s w \<longrightarrow>
      (\<exists>s'. run_events monitor_step [TimePasses (max 0 (t - time_now s)), TimedOut w, TryLock w SetAnswered] s = Some s' \<and>
        time_now s' \<le> time_now s + 600 \<and>
        (\<exists>e \<in> set (elections s'). time_now s' - 480 < fst e \<and> fst e \<le> time_now s')))"
proof -
  have inv: "lease_inv s" "log_of_elections s" "sleep_inv s" using monitor_invs [OF assms] by simp_all
  have "a = b \<or> 480 \<le> \<bar>fst a - fst b\<bar>" if "a \<in> set (status_log s)" "b \<in> set (status_log s)" for a b
    using that inv line_far [of s a b] by blast
  moreover have "\<exists>s'. run_events monitor_step [TimePasses (max 0 (t - time_now s)), TimedOut w, TryLock w SetAnswered] s = Some s' \<and>
      time_now s' \<le> time_now s + 600 \<and> (\<exists>e \<in> set (elections s'). time_now s' - 480 < fst e \<and> fst e \<le> time_now s')"
    if w: "loops s w = Sleeping t" "\<not> shutdown_set s w" for w t
  proof -
    let ?s = "to_phase w LoopTop (s\<lparr>time_now := time_now s + max 0 (t - time_now s)\<rparr>)"
    have "t \<le> time_now s + 600" using inv(3) w(1) unfolding sleep_inv_def by blast
    then have t: "time_now ?s \<le> time_now s + 600" "t \<le> time_now ?s" by (auto simp: to_phase_def max_def)
    have i: "lease_inv ?s"
      using lease_inv_step [OF inv(1), of "TimePasses (max 0 (t - time_now s))"] by simp
    obtain s' where s': "monitor_step (TryLock w SetAnswered) ?s = Some s'" using w(2) by (simp add: to_phase_def)
    then have "time_now s' = time_now ?s" and el: "elections s' = (if lease_held ?s then elections ?s else (time_now ?s, w) # elections ?s)"
      by (auto simp: monitor_ops split: if_splits)
    moreover have "run_events monitor_step [TimePasses (max 0 (t - time_now s)), TimedOut w, TryLock w SetAnswered] s = Some s'"
      using w t(2) s' by (simp add: to_phase_def)
    ultimately show ?thesis using t(1) held_recent [OF i] by (intro exI [of _ s']) auto
  qed
  moreover have "distinct (status_log s)" "list_all (\<lambda>(t, u, w). t \<le> u \<and> u \<le> time_now s) (status_log s)"
    using inv(2) by (simp_all add: log_of_elections_def distinct_map)
  ultimately show ?thesis unfolding list_all_iff by blast
qed

theorem status_line_lease_witness:
  "\<exists>s s'. run_events monitor_step [BeginLoop 1, BeginLoop 2, TryLock 2 SetAnswered, TryLock 1 SetAnswered, WriteLine 2 True] monitors_init = Some s \<and>
     status_log s = [(0, 0, 2)] \<and>
     run_events monitor_step [TimePasses 600, TimedOut 1, TryLock 1 SetAnswered] s = Some s' \<and> elections s' \<noteq> []"
proof -
  obtain s where s: "run_events monitor_step [BeginLoop 1, BeginLoop 2, TryLock 2 SetAnswered, TryLock 1 SetAnswered, WriteLine 2 True] monitors_init = Some s"
    and l: "loops s 1 = Sleeping 600" "\<not> shutdown_set s 1" "time_now s = 0" "status_log s = [(0, 0, 2)]"
    by (simp add: monitors_init_def monitor_ops lease_held_def STATUS_LEADER_TTL_def STATUS_INTERVAL_def)
  have "\<exists>s'. run_events monitor_step [TimePasses (max 0 (600 - time_now s)), TimedOut 1, TryLock 1 SetAnswered] s = Some s' \<and>
      time_now s' \<le> time_now s + 600 \<and> (\<exists>e \<in> set (elections s'). time_now s' - 480 < fst e \<and> fst e \<le> time_now s')"
    using conjunct2 [OF conjunct2 [OF conjunct2 [OF status_line_lease [OF s]]]] l(1,2) by blast
  then obtain s' where "run_events monitor_step [TimePasses 600, TimedOut 1, TryLock 1 SetAnswered] s = Some s'" "elections s' \<noteq> []"
    unfolding l(3) by fastforce
  with s l(4) show ?thesis by blast
qed

text \<open>But two lines can be less than one interval apart, when two workers began at different times.\<close>

lemma two_lines_in_an_interval:
  "\<exists>s. run_events monitor_step [BeginLoop 1, TryLock 1 SetAnswered, WriteLine 1 True, TimePasses 480, BeginLoop 2,
      TryLock 2 SetAnswered, WriteLine 2 True] monitors_init = Some s \<and> status_log s = [(480, 480, 2), (0, 0, 1)] \<and> time_now s < of_nat STATUS_INTERVAL"
  by (simp add: monitors_init_def monitor_ops lease_held_def STATUS_LEADER_TTL_def STATUS_INTERVAL_def)

text \<open>
  Nor does the lock space the writing: a worker that needs 479 seconds to write the line it was
  elected for writes it one second before the line of the next turn.
\<close>

lemma lines_close_together:
  "\<exists>s. run_events monitor_step [BeginLoop 1, TryLock 1 SetAnswered, TimePasses 479, WriteLine 1 True, TimePasses 1, BeginLoop 2,
      TryLock 2 SetAnswered, WriteLine 2 True] monitors_init = Some s \<and> status_log s = [(480, 480, 2), (0, 479, 1)]"
  by (simp add: monitors_init_def monitor_ops lease_held_def STATUS_LEADER_TTL_def STATUS_INTERVAL_def)

text \<open>A worker that gets the lock and cannot write keeps the others from writing while the lock lasts.\<close>

lemma line_lost_with_lock:
  "\<exists>s. run_events monitor_step [BeginLoop 1, BeginLoop 2, TryLock 1 SetLost, TimePasses 479, TryLock 2 SetAnswered] monitors_init = Some s \<and>
    status_log s = [] \<and> loops s 2 = Sleeping 1079"
  by (simp add: monitors_init_def monitor_ops lease_held_def STATUS_LEADER_TTL_def STATUS_INTERVAL_def)

text \<open>Once shutdown is asked for, a loop that has begun leaves by one step of its own, without waiting.\<close>

lemma loop_leaves:
  assumes "loops s w \<noteq> NotBegun"
  shows "\<exists>a s'. a \<in> {SeeShutdown w, CancelLoop w} \<and> run_events monitor_step [SetShutdown w, a] s = Some s' \<and>
    loops s' w = LoopDone \<and> time_now s' = time_now s \<and> (\<forall>v. v \<noteq> w \<longrightarrow> loops s' v = loops s v)"
  using assms by (intro exI [of _ "CancelLoop w"]) (simp add: to_phase_def)

end
