(* ===== verification/WorkerLife.thy ===== *)
theory WorkerLife
  imports Application DataPlane
begin

text \<open>
  What a worker answers between its start and its end (\<open>app/main.py\<close>): the requests for data and the
  health checks, in any order, on the client its start left in the manager. Nothing but the start
  connects, so a worker that started without Redis stays so.
\<close>

section \<open>A worker that serves\<close>

text \<open>The state of the process: what the requests share, and \<open>_last_redis_status\<close>.\<close>

record 'r serving =
  shared_world :: "'r world"
  last_redis_status :: "bool option"

datatype worker_call = DataCall string string data_request | HealthCall ping_result "exc + pyval" rat

datatype call_answer = DataAnswer "exc + pyval" | HealthAnswer pyval "string option"

text \<open>After the start the key map is not built; the client is the one of the manager.\<close>

definition serving_start :: "'r \<Rightarrow> worker \<Rightarrow> 'r serving" where
  "serving_start r wk = \<lparr>shared_world = \<lparr>rstate = r, sent = [], connected = (pool_client (worker_manager wk) \<noteq> None),
     key_map = None, pending = None, bg_metrics = [], scope_client = None\<rparr>, last_redis_status = None\<rparr>"

text \<open>Each request has a context and a scope of its own.\<close>

definition fresh_request :: "'r world \<Rightarrow> 'r world" where
  "fresh_request w = w\<lparr>pending := None, scope_client := None\<rparr>"

primrec answer_call :: "(rat \<Rightarrow> rat) \<Rightarrow> worker \<Rightarrow> 'r env \<Rightarrow> worker_call \<Rightarrow> 'r serving \<Rightarrow> call_answer \<times> 'r serving" where
  "answer_call rnd wk e (DataCall k ns q) st =
     (case data_endpoint k ns q e (fresh_request (shared_world st)) of
        (r, w) \<Rightarrow> (DataAnswer r, st\<lparr>shared_world := w\<rparr>))"
| "answer_call rnd wk e (HealthCall answer reply latency) st =
     (case health_check rnd (conf e) (initial_connected wk) (worker_manager wk) answer reply latency (last_redis_status st) of
        (v, l, status) \<Rightarrow> (HealthAnswer v l, st\<lparr>last_redis_status := status\<rparr>))"

primrec answer_calls ::
  "(rat \<Rightarrow> rat) \<Rightarrow> worker \<Rightarrow> 'r env \<Rightarrow> worker_call list \<Rightarrow> 'r serving \<Rightarrow> call_answer list \<times> 'r serving" where
  "answer_calls rnd wk e [] st = ([], st)"
| "answer_calls rnd wk e (c # cs) st =
     (case answer_call rnd wk e c st of
        (a, st1) \<Rightarrow> (case answer_calls rnd wk e cs st1 of (rest, st2) \<Rightarrow> (a # rest, st2)))"

section \<open>Without a client\<close>

text \<open>
  What such a worker answers: 401 to an unknown key; to a known one the \<open>RuntimeError\<close> of
  \<open>RedisManager.get_client\<close>, which becomes a 500; and a health check that is degraded, with no line
  in the log.
\<close>

definition degraded_answer :: "settings \<Rightarrow> worker_call \<Rightarrow> call_answer \<Rightarrow> bool" where
  "degraded_answer s c a \<longleftrightarrow> (case c of
       DataCall k ns q \<Rightarrow> a = DataAnswer (Inl (case map_of (build_key_map s) k of
           None \<Rightarrow> error ''UNAUTHORIZED'' ''Invalid API key'' 401
         | Some client \<Rightarrow> PyExc ''RuntimeError''))
     | HealthCall answer reply latency \<Rightarrow> a = HealthAnswer
         (PDict [(''status'', PStr ''degraded''), (''redis'', PDict [(''connected'', PBool False), (''latency_ms'', PNone)]),
            (''audit_level'', PInt (audit_level (audit s)))]) None)"

definition without_client :: "settings \<Rightarrow> 'r \<Rightarrow> 'r serving \<Rightarrow> bool" where
  "without_client s r st \<longleftrightarrow> \<not> connected (shared_world st) \<and> cache_ok s (shared_world st) \<and> sent (shared_world st) = [] \<and>
     rstate (shared_world st) = r \<and> last_redis_status st \<noteq> Some True"

lemma endpoint_without_client:
  assumes "cache_ok (conf e) w" and "\<not> connected w"
  shows "fst (data_endpoint k ns q e w) = Inl (case map_of (build_key_map (conf e)) k of
      None \<Rightarrow> error ''UNAUTHORIZED'' ''Invalid API key'' 401 | Some client \<Rightarrow> PyExc ''RuntimeError'')"
    and "\<not> connected (snd (data_endpoint k ns q e w))" and "cache_ok (conf e) (snd (data_endpoint k ns q e w))"
    and "sent (snd (data_endpoint k ns q e w)) = sent w" and "rstate (snd (data_endpoint k ns q e w)) = rstate w"
  using assms(2) resolve_client_apply [OF assms(1), of k]
  by (auto simp: data_endpoint_def endpoint_def verify_api_key_def act_simps get_redis_def set_pending_event_def
      set_scope_client_def record_auth_failure_async_def ignore_errors_def cache_ok_def split: option.splits)

lemma degraded_step:
  assumes "without_client (conf e) r st" and "pool_client (worker_manager wk) = None" and "\<not> initial_connected wk"
  shows "degraded_answer (conf e) c (fst (answer_call rnd wk e c st)) \<and> without_client (conf e) r (snd (answer_call rnd wk e c st))"
proof (cases c)
  case (DataCall k ns q)
  let ?w = "fresh_request (shared_world st)"
  have "cache_ok (conf e) ?w" "\<not> connected ?w" "sent ?w = []" "rstate ?w = r"
    using assms(1) by (simp_all add: without_client_def fresh_request_def cache_ok_def)
  with endpoint_without_client [of e ?w k ns q] assms(1) DataCall show ?thesis
    by (auto simp: degraded_answer_def without_client_def split: prod.split)
next
  case (HealthCall answer reply latency)
  have "\<not> ping answer (worker_manager wk)" by (simp add: ping_def assms(2))
  with assms(1,3) HealthCall show ?thesis
    by (auto simp: degraded_answer_def without_client_def health_check_def health_status_def split: option.split)
qed

lemma degraded_run:
  assumes "pool_client (worker_manager wk) = None" and "\<not> initial_connected wk"
  shows "without_client (conf e) r st \<Longrightarrow> answer_calls rnd wk e cs st = (as, st') \<Longrightarrow>
    list_all2 (degraded_answer (conf e)) cs as \<and> without_client (conf e) r st'"
proof (induction cs arbitrary: st as)
  case (Cons c cs)
  obtain a st1 where c: "answer_call rnd wk e c st = (a, st1)" by fastforce
  obtain rest where as: "answer_calls rnd wk e cs st1 = (rest, st')" "as = a # rest"
    using Cons.prems(2) c by (auto split: prod.splits)
  from degraded_step [OF Cons.prems(1) assms, of c rnd] c Cons.IH [OF _ as(1)] as(2) show ?case by simp
qed simp

text \<open>A client that was there at the start and is lost only comes back: then the log says so once.\<close>

lemma lost_connection_comes_back:
  assumes "pool_client (worker_manager wk) = Some i"
  shows "fst (answer_call rnd wk e (HealthCall PingTrue reply latency) (st\<lparr>last_redis_status := Some False\<rparr>)) =
    HealthAnswer v l \<Longrightarrow> l = Some ''Redis reconnected''"
  using assms by (auto simp: health_check_def ping_def Let_def split: prod.splits)

text \<open>C10: a worker that none of the three attempts connects starts all the same, and then never recovers:
  whatever it is asked and whatever Redis would answer, every request for data with a known key ends in
  an exception, every health check is degraded and none reports a reconnection, and nothing is ever
  sent to Redis.\<close>

theorem degraded_worker_stays:
  assumes "file_logger_fails sw = None" and "\<forall>j. closes (attempts sw j)" and "distinct (configured_keys (conf e))"
    and "\<forall>j. 1 \<le> j \<and> j \<le> 3 \<longrightarrow> \<not> succeeds (attempts sw j)"
  shows "\<exists>wk. fst (lifespan_start sw env (conf e)) = Inr wk \<and>
    (\<forall>cs as st. answer_calls rnd wk e cs (serving_start r wk) = (as, st) \<longrightarrow>
      list_all2 (degraded_answer (conf e)) cs as \<and> sent (shared_world st) = [] \<and> rstate (shared_world st) = r)"
proof -
  obtain wk where wk: "fst (lifespan_start sw env (conf e)) = Inr wk" "\<not> initial_connected wk"
      "pool_client (worker_manager wk) = None"
    using start_connects [OF assms(1-3)] assms(4) by blast
  have "without_client (conf e) r (serving_start r wk)"
    using wk(3) by (simp add: without_client_def serving_start_def cache_ok_def)
  from degraded_run [OF wk(3,2) this] wk(1) show ?thesis by (auto simp: without_client_def)
qed

theorem degraded_worker_stays_witness:
  "let sw = \<lparr>file_logger_fails = None, audit_fails = None, got_lock = True, logo = [], rust_keys = True,
         rust_limits = True, audit_banner = [], hint_text = (\<lambda>_. []), show_list = concat,
         attempts = (\<lambda>j. \<lparr>builds = True, pinged = (if j \<le> 3 then PingRaises else PingTrue), first_close_ok = True, second_close_ok = True\<rparr>)\<rparr>
   in \<exists>wk a b. fst (lifespan_start sw [] (conf sample_auth_env)) = Inr wk \<and>
     fst (answer_calls id wk sample_auth_env
       [DataCall ''s3cret'' ''A'' (KvRequest (GetKv ''k'')), HealthCall PingTrue (Inr (PDict [])) 1] (serving_start Map.empty wk)) = [a, b] \<and>
     a = DataAnswer (Inl (PyExc ''RuntimeError'')) \<and>
     b = HealthAnswer (PDict [(''status'', PStr ''degraded''), (''redis'', PDict [(''connected'', PBool False), (''latency_ms'', PNone)]),
       (''audit_level'', PInt (audit_level (audit (conf sample_auth_env))))]) None"
proof -
  let ?sw = "\<lparr>file_logger_fails = None, audit_fails = None, got_lock = True, logo = [], rust_keys = True,
         rust_limits = True, audit_banner = [], hint_text = (\<lambda>_. []), show_list = concat,
         attempts = (\<lambda>j. \<lparr>builds = True, pinged = (if j \<le> 3 then PingRaises else PingTrue), first_close_ok = True, second_close_ok = True\<rparr>)\<rparr>"
  let ?cs = "[DataCall ''s3cret'' ''A'' (KvRequest (GetKv ''k'')), HealthCall PingTrue (Inr (PDict [])) 1]"
  have "file_logger_fails ?sw = None" "\<forall>j. closes (attempts ?sw j)" "\<forall>j. 1 \<le> j \<and> j \<le> 3 \<longrightarrow> \<not> succeeds (attempts ?sw j)"
    by (simp_all add: closes_def succeeds_def)
  moreover have "distinct (configured_keys (conf sample_auth_env))" by code_simp
  ultimately obtain wk where wk: "fst (lifespan_start ?sw [] (conf sample_auth_env)) = Inr wk"
    and run: "\<And>as st. answer_calls id wk sample_auth_env ?cs (serving_start Map.empty wk) = (as, st) \<Longrightarrow>
      list_all2 (degraded_answer (conf sample_auth_env)) ?cs as"
    using degraded_worker_stays [of ?sw sample_auth_env "[]" id Map.empty] by blast
  obtain as st where as: "answer_calls id wk sample_auth_env ?cs (serving_start Map.empty wk) = (as, st)" by fastforce
  have "map_of (build_key_map (conf sample_auth_env)) ''s3cret'' = Some sample_client" by code_simp
  with run [OF as] have "\<exists>a b. as = [a, b] \<and> a = DataAnswer (Inl (PyExc ''RuntimeError'')) \<and>
     b = HealthAnswer (PDict [(''status'', PStr ''degraded''), (''redis'', PDict [(''connected'', PBool False), (''latency_ms'', PNone)]),
       (''audit_level'', PInt (audit_level (audit (conf sample_auth_env))))]) None"
    by (auto simp: degraded_answer_def list_all2_Cons1)
  with wk as show ?thesis by (simp add: Let_def)
qed

end
