(* ===== verification/CreateApp.thy ===== *)
theory CreateApp
  imports Middleware
begin

text \<open>
  \<open>create_app\<close> of \<open>app/main.py\<close>: the level of Python's logging, the pages of the documentation, the
  middlewares, and the handler of the exceptions nobody caught. The routes are in Routes, the health
  check and the service page in Application. The CORS middleware and the outermost layer of Starlette,
  which runs the handler of \<open>Exception\<close>, are library code and parameters.
\<close>

section \<open>The set-up\<close>

text \<open>
  \<open>getattr(logging, name, logging.INFO)\<close> for a name in capitals: what the module has under such names
  is its levels, a text and a dict.
\<close>

datatype logging_attr = LevelAttr int | TextAttr | DictAttr

definition logging_attrs :: "(string \<times> logging_attr) list" where
  "logging_attrs =
     [(''CRITICAL'', LevelAttr 50), (''FATAL'', LevelAttr 50), (''ERROR'', LevelAttr 40), (''WARNING'', LevelAttr 30),
      (''WARN'', LevelAttr 30), (''INFO'', LevelAttr 20), (''DEBUG'', LevelAttr 10), (''NOTSET'', LevelAttr 0),
      (''BASIC_FORMAT'', TextAttr), (''_STYLES'', DictAttr)]"

definition wanted_level :: "settings \<Rightarrow> logging_attr" where
  "wanted_level s = (case map_of logging_attrs (upper (log_level (logging s))) of Some a \<Rightarrow> a | None \<Rightarrow> LevelAttr 20)"

text \<open>\<open>basicConfig\<close> does nothing when the root logger has a handler; else it sets the level of the root.\<close>

fun basic_config :: "bool \<Rightarrow> logging_attr \<Rightarrow> exc + int option" where
  "basic_config True a = Inr None"
| "basic_config False (LevelAttr n) = Inr (Some n)"
| "basic_config False TextAttr = Inl (PyExc ''ValueError'')"
| "basic_config False DictAttr = Inl (PyExc ''TypeError'')"

datatype layer = CorsLayer "string list" | AuditLayer | AccessLogLayer | MetricsLayer | SecurityHeadersLayer

text \<open>In the order of \<open>add_middleware\<close>: each one is put around those before it.\<close>

definition added_layers :: "settings \<Rightarrow> layer list" where
  "added_layers s =
     (if cors_origins (server s) \<noteq> [] then [CorsLayer (cors_origins (server s))] else []) @
     (if audit_level (audit s) \<ge> 1 then [AuditLayer] else []) @
     (if access_log (logging s) then [AccessLogLayer] else []) @
     [MetricsLayer, SecurityHeadersLayer]"

record app_setup =
  root_level :: "int option"
  docs_url :: "string option"
  redoc_url :: "string option"
  layers :: "layer list"

definition create_app :: "bool \<Rightarrow> settings \<Rightarrow> exc + app_setup" where
  "create_app root_has_handlers s =
     ebind (basic_config root_has_handlers (wanted_level s)) (\<lambda>lvl.
       Inr \<lparr>root_level = lvl,
            docs_url = (if server_docs (server s) then Some ''/docs'' else None),
            redoc_url = (if server_docs (server s) then Some ''/redoc'' else None),
            layers = added_layers s\<rparr>)"

text \<open>Only two names, which are no levels, keep the application from being made.\<close>

lemma create_app_made:
  assumes "upper (log_level (logging s)) \<notin> {''BASIC_FORMAT'', ''_STYLES''}"
  shows "\<exists>su. create_app h s = Inr su \<and> layers su = added_layers s"
proof -
  have "\<exists>n. wanted_level s = LevelAttr n"
    using assms by (auto simp: wanted_level_def logging_attrs_def)
  then show ?thesis by (cases h) (auto simp: create_app_def)
qed

section \<open>A request through the layers\<close>

text \<open>
  CORS is added before the audit middleware and so runs inside it, next to the routers; the rest of the
  stack is that of Middleware.
\<close>

definition inside_audit :: "(string list \<Rightarrow> 'r asgi_app \<Rightarrow> 'r asgi_app) \<Rightarrow> settings \<Rightarrow> 'r asgi_app \<Rightarrow> 'r asgi_app" where
  "inside_audit cors s app =
     (if cors_origins (server s) \<noteq> [] then cors (cors_origins (server s)) app else app)"

text \<open>
  The outermost layer gets the handler of \<open>Exception\<close> and what came out of the stack, and gives what the
  client is sent.
\<close>

type_synonym error_layer = "(exc \<Rightarrow> nat \<times> pyval) \<Rightarrow> asgi_result \<Rightarrow> asgi_out list"

definition serve ::
  "audit_clock \<Rightarrow> (string \<Rightarrow> string) \<Rightarrow> (rat \<Rightarrow> string) \<Rightarrow> rat \<Rightarrow> (string list \<Rightarrow> 'r asgi_app \<Rightarrow> 'r asgi_app) \<Rightarrow> error_layer \<Rightarrow>
     settings \<Rightarrow> http_scope \<Rightarrow> 'r asgi_app \<Rightarrow> 'r env \<Rightarrow> 'r world \<times> stack_state \<Rightarrow> asgi_out list \<times> 'r world \<times> stack_state" where
  "serve clock sha256_hex fmt2 duration_ms cors outer s scope routers e ws =
     (case app_stack clock sha256_hex fmt2 duration_ms s scope (inside_audit cors s routers) e ws of
        (out, w1, st1) \<Rightarrow> (outer global_exception_handler out, w1, st1))"

text \<open>
  Starlette's \<open>ServerErrorMiddleware\<close>: what ends without an exception passes; an exception before the
  response has started is answered by the handler, with the headers of a \<open>JSONResponse\<close>.
\<close>

definition json_headers_only :: "asgi_out \<Rightarrow> bool" where
  "json_headers_only m \<longleftrightarrow> (case m of
       ResponseStart status hdrs \<Rightarrow> fst ` set hdrs \<subseteq> {''content-length'', ''content-type''}
     | ResponseBody body more_body \<Rightarrow> True)"

definition documented_error_layer :: "error_layer \<Rightarrow> bool" where
  "documented_error_layer outer \<longleftrightarrow> (\<forall>handler out.
     (failure out = None \<longrightarrow> outer handler out = emitted out) \<and>
     (\<forall>x. failure out = Some x \<and> emitted out = [] \<longrightarrow>
        complete_response (fst (handler x)) (outer handler out) \<and> list_all json_headers_only (outer handler out)))"

section \<open>Facts\<close>

text \<open>What raises before it answers leaves the stack the same way.\<close>

lemma audit_passes_failure:
  "failure (fst (audit_middleware clock sha scope app e (w, st))) = failure (fst (app e w)) \<and>
   (emitted (fst (app e w)) = [] \<longrightarrow> emitted (fst (audit_middleware clock sha scope app e (w, st))) = [])"
  by (auto simp: audit_middleware_def Let_def split: prod.splits option.splits bool.splits)

lemma stack_passes_failure:
  assumes "app e w = (out, w')" and "app_stack clock sha fmt2 d s scope app e (w, st) = (out1, w1, st1)"
  shows "failure out1 = failure out"
    and "emitted out = [] \<Longrightarrow> emitted out1 = [] \<and> tasks st1 = tasks st \<and> access_log_lines st1 = access_log_lines st"
proof -
  obtain out0 w0 ast where inner: "(if audit_level (audit s) \<ge> 1 then audit_middleware clock sha scope app e (w, audit_part st)
      else (case app e w of (out, w1) \<Rightarrow> (out, w1, audit_part st))) = (out0, w0, ast)"
    by (metis prod.collapse)
  have f: "failure out0 = failure out" "emitted out = [] \<Longrightarrow> emitted out0 = []"
    using inner assms(1) audit_passes_failure [of clock sha scope app e w "audit_part st"] by (auto split: if_splits)
  from assms(2) inner f(1) show "failure out1 = failure out" by (auto simp: app_stack_def Let_def split: if_splits)
  show "emitted out1 = [] \<and> tasks st1 = tasks st \<and> access_log_lines st1 = access_log_lines st" if "emitted out = []"
    using assms(2) inner f(2) [OF that]
    by (auto simp: app_stack_def Let_def metric_tasks_def recorded_statuses_def access_lines_def split: if_splits)
qed

definition unprotected_start :: "asgi_out \<Rightarrow> bool" where
  "unprotected_start m \<longleftrightarrow> (case m of
       ResponseStart status hdrs \<Rightarrow> filter (\<lambda>(n, v). n \<in> set SECURITY_HEADER_NAMES) hdrs = []
     | ResponseBody body more_body \<Rightarrow> True)"

lemma json_unprotected: "json_headers_only m \<Longrightarrow> unprotected_start m"
  by (cases m) (auto simp: json_headers_only_def unprotected_start_def SECURITY_HEADER_NAMES_def SECURITY_HEADERS_def filter_empty_conv)

text \<open>C11: an exception that no handler below catches is answered 500 by the outermost layer, outside every
  middleware of the gateway: the answer has none of the security headers, no metric is scheduled, and no
  access line is written. Every other complete answer is sent as the stack made it, with the headers
  and one metric.\<close>

theorem unhandled_error_bypasses:
  assumes "documented_error_layer outer" and "scope_http scope" and "scope_path scope = data_path ns q" and "ns_matches ns"
    and "inside_audit cors s routers e w = (out, w')"
    and "emitted out = [] \<and> failure out = Some x \<or> complete_response status (emitted out) \<and> failure out = None"
    and "serve clock sha fmt2 d cors outer s scope routers e (w, st) = (msgs, w1, st1)"
  shows "if failure out = None
    then complete_response status msgs \<and> list_all protected_start msgs \<and> length (tasks st1) = length (tasks st) + 1
    else complete_response 500 msgs \<and> list_all unprotected_start msgs \<and> tasks st1 = tasks st \<and> access_log_lines st1 = access_log_lines st"
proof -
  obtain out1 where run: "app_stack clock sha fmt2 d s scope (inside_audit cors s routers) e (w, st) = (out1, w1, st1)"
    and m: "msgs = outer global_exception_handler out1"
    using assms(7) by (auto simp: serve_def split: prod.splits)
  show ?thesis
  proof (cases "failure out")
    case None
    with assms(6) have c: "complete_response status (emitted out)" by simp
    with None stack_passes_failure(1) [OF assms(5) run] m assms(1) have "msgs = emitted out1" by (simp add: documented_error_layer_def)
    with response_through_stack [OF assms(2-5) c run] None show ?thesis by simp
  next
    case (Some y)
    with assms(6) have e: "emitted out = []" by auto
    note p = stack_passes_failure(1) [OF assms(5) run] stack_passes_failure(2) [OF assms(5) run e]
    have "complete_response 500 msgs" "list_all json_headers_only msgs"
      using assms(1) p Some unfolding m documented_error_layer_def by (metis fst_conv global_exception_handler_def)+
    moreover from this have "list_all unprotected_start msgs"
      using json_unprotected by (simp add: list_all_iff)
    ultimately show ?thesis using p Some by simp
  qed
qed

definition sample_error_layer :: error_layer where
  "sample_error_layer handler out = (case failure out of
       None \<Rightarrow> emitted out
     | Some x \<Rightarrow> emitted out @ [ResponseStart (fst (handler x)) [(''content-type'', ''application/json'')], ResponseBody [] False])"

lemma sample_error_layer_documented: "documented_error_layer sample_error_layer"
  unfolding documented_error_layer_def complete_response_def
  by (auto simp: sample_error_layer_def json_headers_only_def intro: exI [of _ "[]"])

theorem unhandled_error_bypasses_witness:
  "\<exists>msgs w1 st1. serve sample_clock id (\<lambda>_. ''1.00'') 1 (\<lambda>_ app. app) sample_error_layer default_settings sample_scope
      (sample_app (data_endpoint ''s3cret'' ''B'' (KvRequest (GetKv ''k'')))) sample_auth_env
      ((sample_world Map.empty)\<lparr>connected := False\<rparr>, \<lparr>audit_part = sample_audit, tasks = [], access_log_lines = []\<rparr>) = (msgs, w1, st1) \<and>
    complete_response 500 msgs \<and> tasks st1 = []"
proof -
  let ?q = "KvRequest (GetKv ''k'')" and ?w = "(sample_world Map.empty)\<lparr>connected := False\<rparr>" and ?cors = "\<lambda>_ app. app"
  let ?app = "sample_app (data_endpoint ''s3cret'' ''B'' ?q)"
  let ?st = "\<lparr>audit_part = sample_audit, tasks = [], access_log_lines = []\<rparr>"
  have "fst (data_endpoint ''s3cret'' ''B'' ?q sample_auth_env ?w) = Inl (PyExc ''RuntimeError'')" by code_simp
  then obtain w' where "data_endpoint ''s3cret'' ''B'' ?q sample_auth_env ?w = (Inl (PyExc ''RuntimeError''), w')" by (metis prod.collapse)
  then have a: "inside_audit ?cors default_settings ?app sample_auth_env ?w =
      (\<lparr>received = [], emitted = [], failure = Some (PyExc ''RuntimeError''), path_key = None\<rparr>, w')"
    by (simp add: inside_audit_def sample_app_def)
  obtain msgs w1 st1 where run: "serve sample_clock id (\<lambda>_. ''1.00'') 1 ?cors sample_error_layer default_settings sample_scope ?app sample_auth_env (?w, ?st)
      = (msgs, w1, st1)" by (metis prod.collapse)
  have "ns_matches ''B''" by code_simp
  moreover have "scope_http sample_scope" "scope_path sample_scope = data_path ''B'' ?q"
    by (simp_all add: sample_scope_def data_path_def data_segments_def join_path_def)
  ultimately show ?thesis
    using unhandled_error_bypasses [OF sample_error_layer_documented _ _ _ a _ run, of "''B''" ?q "PyExc ''RuntimeError''" 500] run by simp
qed

end
