(* ===== verification/LogHome.thy ===== *)
theory LogHome
  imports LogFailures
begin

text \<open>
  What a handler touches: every operation of \<open>DailySizeRotatingHandler\<close> reads and changes only the files
  whose name begins with the handler's prefix and a dot, and puts no other process on a file. These are
  the facts by which processes with different prefixes share a directory.
\<close>

section \<open>Changes at home\<close>

definition own_name :: "string \<Rightarrow> string \<Rightarrow> bool" where
  "own_name p n = starts_with (p @ ''.'') n"

lemma own_names [simp, intro]:
  "own_name p (log_path p d)" "own_name p b \<Longrightarrow> own_name p (backup_name b i)" "own_name p m \<Longrightarrow> own_name p (gz_name m)"
  by (auto simp: own_name_def log_path_def backup_name_def gz_name_def starts_with_iff)

lemma own_dated: "dated_name p n = Some r \<Longrightarrow> own_name p n"
  by (simp add: dated_name_def own_name_def split: if_splits)

lemma own_archive: "archive_matches p n \<Longrightarrow> own_name p n"
  using own_dated by (fastforce simp: archive_matches_def split: option.splits)

text \<open>Process \<open>q\<close> has no stream open outside the names of \<open>p\<close>; process \<open>v\<close> has none inside.\<close>

definition at_home :: "nat \<Rightarrow> string \<Rightarrow> dir \<Rightarrow> bool" where
  "at_home q p d \<longleftrightarrow> (\<forall>n f. map_of d n = Some f \<and> \<not> own_name p n \<longrightarrow> q \<notin> set (writers f))"

definition away :: "nat \<Rightarrow> string \<Rightarrow> dir \<Rightarrow> bool" where
  "away v p d \<longleftrightarrow> (\<forall>n f. map_of d n = Some f \<and> own_name p n \<longrightarrow> v \<notin> set (writers f))"

definition stays_in :: "nat \<Rightarrow> string \<Rightarrow> dir \<Rightarrow> dir \<Rightarrow> bool" where
  "stays_in q p d d' \<longleftrightarrow> (at_home q p d \<longrightarrow>
     (\<forall>n. \<not> own_name p n \<longrightarrow> map_of d' n = map_of d n) \<and> (\<forall>v. v \<noteq> q \<and> away v p d \<longrightarrow> away v p d'))"

lemma stays_home: "stays_in q p d d' \<Longrightarrow> at_home q p d \<Longrightarrow> at_home q p d'"
  unfolding stays_in_def at_home_def by metis

lemma stays_refl [simp]: "stays_in q p d d"
  by (simp add: stays_in_def)

lemma stays_trans:
  assumes "stays_in q p d d'" and "stays_in q p d' d''"
  shows "stays_in q p d d''"
proof (cases "at_home q p d")
  case True
  with stays_home [OF assms(1)] have "at_home q p d'" by simp
  with True assms show ?thesis by (simp add: stays_in_def)
qed (simp add: stays_in_def)

lemma stays_unlink: "own_name p n \<Longrightarrow> stays_in q p d (unlink n d)"
  by (auto simp: stays_in_def away_def split: if_splits)

lemma stays_rename: "own_name p a \<Longrightarrow> own_name p b \<Longrightarrow> stays_in q p d (rename a b d)"
  by (auto simp: stays_in_def away_def look_rename split: option.splits if_splits)

lemma stays_compress: "own_name p m \<Longrightarrow> stays_in q p d (compress_file env m d)"
  by (auto simp: stays_in_def away_def look_compress split: option.splits bool.splits if_splits)

lemma stays_open: "own_name p b \<Longrightarrow> stays_in q p d (open_append q now b d)"
  by (auto simp: stays_in_def away_def split: option.splits if_splits)

lemma stays_write: "stays_in q p d (write_to q now s d)"
  unfolding stays_in_def
proof (intro impI conjI allI)
  fix n assume "at_home q p d" "\<not> own_name p n"
  then show "map_of (write_to q now s d) n = map_of d n" by (cases "map_of d n") (auto simp: at_home_def)
next
  fix v assume "v \<noteq> q \<and> away v p d"
  then show "away v p (write_to q now s d)" by (auto simp: away_def split: if_splits)
qed

lemma stays_close: "stays_in q p d (close_stream q d)"
  unfolding stays_in_def
proof (intro impI conjI allI)
  fix n assume "at_home q p d" "\<not> own_name p n"
  then show "map_of (close_stream q d) n = map_of d n" by (cases "map_of d n") (auto simp: at_home_def)
next
  fix v assume "v \<noteq> q \<and> away v p d"
  then show "away v p (close_stream q d)" by (auto simp: away_def)
qed

lemma stays_foldl: "(\<And>d x. x \<in> set xs \<Longrightarrow> stays_in q p d (f d x)) \<Longrightarrow> stays_in q p d (foldl f d xs)"
  by (induction xs arbitrary: d) (auto intro: stays_trans)

lemma stays_and_then:
  "stays_in q p d (snd r) \<Longrightarrow> (\<And>d'. stays_in q p d' (snd (f d'))) \<Longrightarrow> stays_in q p d (snd (and_then r f))"
  by (auto simp: and_then_def case_prod_beta intro: stays_trans split: option.split)

lemma stays_tried:
  "own_name p n \<Longrightarrow> stays_in q p d (snd (unlink_missing_ok env n d))"
  "own_name p a \<Longrightarrow> own_name p b \<Longrightarrow> stays_in q p d (snd (rename_file env a b d))"
  by (simp_all add: unlink_missing_ok_def rename_file_def stays_unlink stays_rename)

lemma stays_shift_one: "own_name p b \<Longrightarrow> stays_in q p d (snd (shift_one env b n i d))"
  by (simp add: shift_one_def Let_def stays_tried stays_and_then)

lemma stays_shift: "own_name p b \<Longrightarrow> stays_in q p d (snd (shift_down env b n j d))"
  by (induction j arbitrary: d) (simp_all add: stays_shift_one stays_and_then)

lemma stays_total_size:
  "\<forall>e \<in> set es. own_name p (fst e) \<Longrightarrow> stays_in q p d (snd (total_size_loop env a limit es tot k d))"
  by (induction env a limit es tot k d rule: total_size_loop.induct) (auto intro: stays_trans stays_unlink)

section \<open>Handlers at home\<close>

definition own_files :: "log_handler \<Rightarrow> bool" where
  "own_files h \<longleftrightarrow> own_name (name_prefix h) (base_name h) \<and> (\<forall>m \<in> set (jobs h). own_name (name_prefix h) m)"

definition home_step :: "log_handler \<Rightarrow> log_handler \<Rightarrow> bool" where
  "home_step h h' \<longleftrightarrow> process h' = process h \<and> name_prefix h' = name_prefix h \<and>
     (own_files h \<longrightarrow> own_files h' \<and> stays_in (process h) (name_prefix h) (files h) (files h'))"

lemma home_refl [simp]: "home_step h h"
  by (simp add: home_step_def)

lemma home_trans: "home_step h h' \<Longrightarrow> home_step h' h'' \<Longrightarrow> home_step h h''"
  by (auto simp: home_step_def intro: stays_trans)

lemma home_and_then:
  "home_step h (snd r) \<Longrightarrow> (\<And>h'. home_step h' (snd (f h'))) \<Longrightarrow> home_step h (snd (and_then r f))"
  by (auto simp: and_then_def case_prod_beta intro: home_trans split: option.split)

lemma home_wait: "home_step h (wait_pending_compressions env h)"
  by (auto simp: home_step_def own_files_def wait_pending_compressions_def intro: stays_foldl stays_compress)

lemma home_gzip: "home_step h (gzip_step env h)"
  by (auto simp: home_step_def own_files_def gzip_step_def intro: stays_compress split: list.split)

lemma home_async: "own_name (name_prefix h) m \<Longrightarrow> home_step h (compress_file_async m h)"
  by (auto simp: home_step_def own_files_def compress_file_async_def)

lemma home_retention: "home_step h (cleanup_old_files env h)"
  by (auto simp: home_step_def own_files_def cleanup_old_files_def retention_step_def expired_def
      intro!: stays_foldl stays_unlink own_dated split: option.splits)

lemma home_total: "home_step h (cleanup_by_total_size env h)"
proof -
  let ?es = "sort_key (\<lambda>(n, sz, mt). mt) (archive_entries env h)"
  obtain k d where t: "total_size_loop env (base_name h) (max_total_bytes h) ?es (entries_size (archive_entries env h)) 0 (files h) = (k, d)"
    by fastforce
  have "\<forall>e \<in> set ?es. own_name (name_prefix h) (fst e)"
    by (auto simp: archive_entries_def own_archive)
  from stays_total_size [OF this] have "stays_in (process h) (name_prefix h) (files h) d" using t by (metis snd_conv)
  then show ?thesis by (simp add: home_step_def own_files_def cleanup_by_total_size_def Let_def t)
qed

lemma home_close: "home_step h (h\<lparr>stream_open := False, files := close_stream (process h) (files h)\<rparr>)"
  by (simp add: home_step_def own_files_def stays_close)

lemma home_shift: "home_step h (snd (shift_backups env h))"
proof -
  let ?b = "log_path (name_prefix h) (current_date h)"
  obtain r d where s: "shift_down env ?b (nat (backup_count h)) (nat (backup_count h)) (files h) = (r, d)" by fastforce
  have "stays_in (process h) (name_prefix h) (files h) d"
    using stays_shift [of "name_prefix h" ?b "process h" "files h" env] s by (metis own_names(1) snd_conv)
  moreover have "stays_in (process h) (name_prefix h) d (snd (rename_file env ?b (backup_name ?b 1) d))"
    by (simp add: stays_tried)
  ultimately show ?thesis
    by (auto simp: shift_backups_def Let_def s home_step_def own_files_def compress_file_async_def
        intro: stays_trans split: option.split prod.split)
qed

lemma home_day: "home_step h (change_day env h)"
proof -
  let ?b = "log_path (name_prefix h) (current_date h)"
  let ?h1 = "if file_exists ?b (files h) \<and> compress h then compress_file_async ?b h else h"
  have "home_step h ?h1" by (simp add: home_async)
  moreover have "home_step ?h1 (?h1\<lparr>current_date := day_of (stamp_later env)\<rparr>)" by (simp add: home_step_def own_files_def)
  ultimately show ?thesis unfolding change_day_def Let_def by (blast intro: home_trans home_retention)
qed

lemma home_open: "home_step h (snd (open_base env h))"
  by (auto simp: open_base_def Let_def home_step_def own_files_def stays_open)

lemma home_rollover: "home_step h (snd (do_rollover env h))"
proof -
  let ?h0 = "wait_pending_compressions env h"
  let ?h1 = "?h0\<lparr>stream_open := False, files := close_stream (process ?h0) (files ?h0)\<rparr>"
  let ?r = "if day_of (stamp_later env) \<noteq> current_date ?h1 then (None, change_day env ?h1) else shift_backups env ?h1"
  have "home_step ?h1 (snd ?r)" by (simp add: home_day home_shift)
  then have "home_step ?h1 (snd (and_then (and_then ?r (open_base env)) (\<lambda>h2. (None, cleanup_by_total_size env h2))))"
    by (intro home_and_then home_open) (simp_all add: home_total)
  moreover have "home_step h ?h1" by (rule home_trans [OF home_wait home_close])
  ultimately show ?thesis unfolding do_rollover_def Let_def by (rule home_trans [rotated])
qed

lemma home_line: "home_step h (snd (emit_line env msg h))"
  by (auto simp: emit_line_def Let_def home_step_def own_files_def intro: stays_trans stays_open stays_write)

lemma home_emit: "home_step h (emit env msg h)"
proof -
  obtain roll c where r: "should_rollover env msg h = (roll, h\<lparr>current_bytes := c\<rparr>)"
    using should_rollover_shape by (metis prod.collapse)
  have "home_step h (h\<lparr>current_bytes := c\<rparr>)" by (simp add: home_step_def own_files_def)
  moreover have "home_step h1 (snd (and_then (if roll then do_rollover env h1 else (None, h1)) (emit_line env msg)))" for h1
    by (intro home_and_then home_line) (simp add: home_rollover)
  ultimately show ?thesis unfolding emit_def r prod.case by (rule home_trans)
qed

lemma home_log_step: "home_step h (log_step ev h)"
  by (cases ev) (simp_all add: home_emit home_gzip)

end
