(* ===== verification/LogWorkers.thy ===== *)
theory LogWorkers
  imports LogHome Config
begin

text \<open>
  The workers of one gateway over one log directory, as \<open>init_audit_logger\<close> of \<open>app/audit/logger.py\<close> sets
  them up: every worker has a handler of its own, with its own stream, byte counter and compressions, and
  the directory is shared. An operation of a handler is one step here; the steps of the workers come in
  any order. With \<open>per_worker_files\<close> each prefix holds the process id, and the logs are apart; by default
  all workers write one file, and a rotation by one takes it away from the others. Both hold with any
  bound on the size of the directory.
\<close>

section \<open>Workers\<close>

record log_site =
  shared :: dir
  handlers :: "nat \<Rightarrow> log_handler"

definition at_site :: "log_site \<Rightarrow> nat \<Rightarrow> log_handler" where
  "at_site g w = (handlers g w)\<lparr>files := shared g\<rparr>"

definition put_site :: "nat \<Rightarrow> log_handler \<Rightarrow> log_site \<Rightarrow> log_site" where
  "put_site w h g = \<lparr>shared = files h, handlers = (handlers g)(w := h)\<rparr>"

type_synonym site_event = "nat \<times> log_event"

definition site_step :: "site_event \<Rightarrow> log_site \<Rightarrow> log_site" where
  "site_step e g = (case e of (w, ev) \<Rightarrow> put_site w (log_step ev (at_site g w)) g)"

definition audit_prefix :: "bool \<Rightarrow> nat \<Rightarrow> string" where
  "audit_prefix per_worker pid = (if per_worker then ''audit.w'' @ nat_str pid else ''audit'')"

text \<open>\<open>init_audit_logger\<close>, the file handler; five backups and compression are the defaults of its class.\<close>

definition audit_handler :: "log_env \<Rightarrow> nat \<Rightarrow> int \<Rightarrow> audit_config \<Rightarrow> dir \<Rightarrow> log_handler" where
  "audit_handler env pid backups config d =
     init_handler env pid (audit_prefix (per_worker_files config) pid) (max_file_size_mb config * 1024 * 1024) backups True
       (max_total_size_mb config) d"

definition start_worker :: "log_env \<Rightarrow> int \<Rightarrow> audit_config \<Rightarrow> log_site \<Rightarrow> nat \<Rightarrow> log_site" where
  "start_worker env backups config g w = put_site w (audit_handler env w backups config (shared g)) g"

definition start_site :: "log_env \<Rightarrow> int \<Rightarrow> audit_config \<Rightarrow> nat list \<Rightarrow> log_site \<Rightarrow> log_site" where
  "start_site env backups config ws g = foldl (start_worker env backups config) g ws"

lemma at_site_step: "at_site (site_step (w, ev) g) v =
    (if v = w then log_step ev (at_site g w) else (at_site g v)\<lparr>files := files (log_step ev (at_site g w))\<rparr>)"
  by (simp add: site_step_def put_site_def at_site_def)

section \<open>Apart\<close>

definition apart :: "string \<Rightarrow> string \<Rightarrow> bool" where
  "apart p q \<longleftrightarrow> (\<forall>n. \<not> (own_name p n \<and> own_name q n))"

lemma apart_pids:
  assumes "v \<noteq> w"
  shows "apart (audit_prefix True v) (audit_prefix True w)"
proof -
  have t: "takeWhile (\<lambda>c. c \<noteq> CHR ''.'') (nat_str u @ CHR ''.'' # s) = nat_str u" for u s
    using dot_not_nat_str [of u] by (subst takeWhile_append2) auto
  have "nat_str v @ CHR ''.'' # s \<noteq> nat_str w @ CHR ''.'' # s'" for s s'
    using assms t by (metis nat_str_inject)
  then show ?thesis by (auto simp: apart_def audit_prefix_def own_name_def starts_with_iff) metis
qed

text \<open>What a step of another worker leaves of a handler.\<close>

lemma kept_apart:
  assumes "day_inv n h" and "own_files h" and "own_files k" and "home_step k k'" and "files k = files h"
    and "apart (name_prefix h) (name_prefix k)" and "process h \<noteq> process k"
    and "stream_ok (stream_open k) (process k) (base_name k) (files k)"
  shows "day_inv n (h\<lparr>files := files k'\<rparr>)" and "day_view gunzip (h\<lparr>files := files k'\<rparr>) = day_view gunzip h"
proof -
  let ?b = "base_name h" and ?p = "name_prefix h"
  have home: "at_home (process k) (name_prefix k) (files k)"
    using assms(3,8) by (cases "stream_open k") (auto simp: at_home_def own_files_def stream_ok_def stream_at_def no_stream_def every_file_def)
  have ob: "own_name ?p ?b" using assms(2) by (simp add: own_files_def)
  then have "away (process h) (name_prefix k) (files k)"
    using assms(1,5,6) by (cases "stream_open h") (auto simp: away_def apart_def day_inv_def stream_ok_def stream_at_def no_stream_def every_file_def)
  with home assms(3,4,7) have same: "\<not> own_name (name_prefix k) m \<Longrightarrow> map_of (files k') m = map_of (files h) m"
      and aw: "away (process h) (name_prefix k) (files k')" for m
    by (auto simp: home_step_def stays_in_def assms(5))
  have own: "own_name ?p m \<Longrightarrow> map_of (files k') m = map_of (files h) m" for m
    using same assms(6) by (auto simp: apart_def)
  have slots: "map_of (files k') ?b = map_of (files h) ?b" "map_of (files k') (backup_name ?b i) = map_of (files h) (backup_name ?b i)"
    "map_of (files k') (gz_name (backup_name ?b i)) = map_of (files h) (gz_name (backup_name ?b i))" for i
    using ob by (simp_all add: own)
  have "map_of (files k') (gz_name m) = map_of (files h) (gz_name m)" if "m \<in> set (jobs h)" for m
    using that assms(2) by (simp add: own own_files_def)
  then have "dir_ok n ?b (files k') (jobs h)"
    using assms(1) by (auto simp: day_inv_def dir_ok_def no_twins_def job_ok_def slots)
  moreover have "stream_ok (stream_open h) (process h) ?b (files k')"
  proof -
    have "process h \<in> set (writers f) \<longleftrightarrow> stream_open h \<and> m = ?b" if "map_of (files k') m = Some f" for m f
    proof (cases "own_name (name_prefix k) m")
      case True
      moreover have "m \<noteq> ?b" using True ob assms(6) by (auto simp: apart_def)
      ultimately show ?thesis using aw that by (auto simp: away_def)
    next
      case False
      with that have "map_of (files h) m = Some f" by (simp add: same)
      then show ?thesis using assms(1) by (auto simp: day_inv_def stream_ok_def stream_at_def no_stream_def every_file_def split: if_splits)
    qed
    then show ?thesis by (auto simp: stream_ok_def stream_at_def no_stream_def every_file_def)
  qed
  ultimately show "day_inv n (h\<lparr>files := files k'\<rparr>)" using assms(1) by (simp add: day_inv_def)
  show "day_view gunzip (h\<lparr>files := files k'\<rparr>) = day_view gunzip h"
    by (simp add: day_view_def slot_content_def slots fun_eq_iff split: option.split)
qed

section \<open>The log of each worker\<close>

definition site_ok :: "nat \<Rightarrow> nat set \<Rightarrow> log_site \<Rightarrow> bool" where
  "site_ok n ws g \<longleftrightarrow>
     (\<forall>w \<in> ws. day_inv n (at_site g w) \<and> 0 \<le> current_bytes (handlers g w) \<and> own_files (at_site g w) \<and> process (handlers g w) = w) \<and>
     (\<forall>v \<in> ws. \<forall>w \<in> ws. v \<noteq> w \<longrightarrow> apart (name_prefix (handlers g v)) (name_prefix (handlers g w)))"

lemma at_site_simps [simp]:
  "process (at_site g w) = process (handlers g w)" "name_prefix (at_site g w) = name_prefix (handlers g w)"
  "current_date (at_site g w) = current_date (handlers g w)" "files (at_site g w) = shared g"
  "current_bytes (at_site g w) = current_bytes (handlers g w)" "max_bytes (at_site g w) = max_bytes (handlers g w)"
  "max_total_bytes (at_site g w) = max_total_bytes (handlers g w)" "disk_full (at_site g w) = disk_full (handlers g w)"
  by (simp_all add: at_site_def)

text \<open>A worker whose handler changes by a step at home leaves the others as they are.\<close>

lemma put_site_ok:
  assumes "site_ok n ws g" and "home_step k h" and "own_files k" and "files k = shared g" and "process k = w"
    and "stream_ok (stream_open k) w (base_name k) (shared g)" and "day_inv n h \<and> 0 \<le> current_bytes h"
    and "\<forall>v \<in> ws - {w}. apart (name_prefix (handlers g v)) (name_prefix k)"
  shows "site_ok n (insert w ws) (put_site w h g)"
    and "v \<in> ws \<Longrightarrow> v \<noteq> w \<Longrightarrow> day_view gunzip (at_site (put_site w h g) v) = day_view gunzip (at_site g v)"
proof -
  have h: "process h = w" "name_prefix h = name_prefix k" "own_files h"
    using assms(2,3,5) by (simp_all add: home_step_def)
  have other: "at_site (put_site w h g) v = (at_site g v)\<lparr>files := files h\<rparr>" if "v \<noteq> w" for v
    using that by (simp add: put_site_def at_site_def)
  have self: "at_site (put_site w h g) w = h" by (simp add: put_site_def at_site_def)
  have keep: "day_inv n ((at_site g v)\<lparr>files := files h\<rparr>)" "day_view gunzip ((at_site g v)\<lparr>files := files h\<rparr>) = day_view gunzip (at_site g v)"
    if "v \<in> ws" "v \<noteq> w" for v gunzip
    using kept_apart [of n "at_site g v" k h] assms that by (auto simp: site_ok_def)
  then show "v \<in> ws \<Longrightarrow> v \<noteq> w \<Longrightarrow> day_view gunzip (at_site (put_site w h g) v) = day_view gunzip (at_site g v)"
    by (simp add: other)
  have "day_inv n (at_site (put_site w h g) v) \<and> 0 \<le> current_bytes (handlers (put_site w h g) v) \<and> own_files (at_site (put_site w h g) v) \<and> process (handlers (put_site w h g) v) = v"
    if "v \<in> insert w ws" for v
  proof (cases "v = w")
    case True
    with self h assms(7) show ?thesis by (simp add: put_site_def)
  next
    case False
    have "handlers (put_site w h g) v = handlers g v" using False by (simp add: put_site_def)
    with False that keep(1) [of v] assms(1) show ?thesis by (simp add: other site_ok_def own_files_def)
  qed
  moreover have "apart p q \<Longrightarrow> apart q p" for p q by (auto simp: apart_def)
  ultimately show "site_ok n (insert w ws) (put_site w h g)"
    using assms(1,8) h(2) by (auto simp: site_ok_def put_site_def)
qed

lemma site_step_ok:
  assumes "1 \<le> n" and "site_ok n ws g" and "w \<in> ws" and "same_day gunzip ev (at_site g w)"
  shows "site_ok n ws (site_step (w, ev) g)"
    and "v \<in> ws \<Longrightarrow> v \<noteq> w \<Longrightarrow> day_view gunzip (at_site (site_step (w, ev) g) v) = day_view gunzip (at_site g v)"
proof -
  have k: "day_inv n (at_site g w) \<and> 0 \<le> current_bytes (at_site g w)" "own_files (at_site g w)" "process (handlers g w) = w"
    "\<forall>v \<in> ws - {w}. apart (name_prefix (handlers g v)) (name_prefix (handlers g w))"
    using assms(2,3) by (auto simp: site_ok_def)
  have s: "stream_ok (stream_open (at_site g w)) w (base_name (at_site g w)) (shared g)"
    using k(1,3) by (simp add: day_inv_def)
  have d: "day_inv n (log_step ev (at_site g w)) \<and> 0 \<le> current_bytes (log_step ev (at_site g w))"
    using log_step_day(1,2) [OF assms(1) _ _ assms(4)] k(1) by simp
  have i: "insert w ws = ws" using assms(3) by auto
  note p = put_site_ok [OF assms(2) home_log_step k(2) _ _ s d]
  show "site_ok n ws (site_step (w, ev) g)" using p(1) k(3,4) by (simp add: site_step_def i)
  show "v \<in> ws \<Longrightarrow> v \<noteq> w \<Longrightarrow> day_view gunzip (at_site (site_step (w, ev) g) v) = day_view gunzip (at_site g v)"
    using p(2) k(3,4) by (simp add: site_step_def)
qed

text \<open>An event of the day; nothing of worker \<open>v\<close> is deleted for the total size in it.\<close>

definition site_event_ok :: "(string \<Rightarrow> string) \<Rightarrow> nat set \<Rightarrow> nat \<Rightarrow> site_event \<Rightarrow> log_site \<Rightarrow> bool" where
  "site_event_ok gunzip ws v e g \<longleftrightarrow> fst e \<in> ws \<and> same_day gunzip (snd e) (at_site g (fst e)) \<and>
     (fst e = v \<longrightarrow> undeleted (at_site g v) (at_site (site_step e g) v))"

definition line_of :: "nat \<Rightarrow> site_event \<Rightarrow> string" where
  "line_of v e = (if fst e = v then event_text (snd e) else [])"

lemma site_step_day:
  assumes "1 \<le> n" and "site_ok n ws g" and "w \<in> ws" and "same_day gunzip ev (at_site g w)"
  shows "current_date (handlers (site_step (w, ev) g) v) = current_date (handlers g v)"
    and "max_bytes (handlers (site_step (w, ev) g) v) = max_bytes (handlers g v)"
    and "max_total_bytes (handlers (site_step (w, ev) g) v) = max_total_bytes (handlers g v)"
    and "name_prefix (handlers (site_step (w, ev) g) v) = name_prefix (handlers g v)"
    and "disk_full (handlers g v) \<le> disk_full (handlers (site_step (w, ev) g) v)"
  using log_step_day [OF assms(1) _ _ assms(4)] home_log_step [of "at_site g w" ev] assms(2,3)
  by (auto simp: site_ok_def site_step_def put_site_def home_step_def)

text \<open>Worker \<open>v\<close> of the site as a log that gives nothing up too early.\<close>

definition worker_state :: "nat \<Rightarrow> nat set \<Rightarrow> nat \<Rightarrow> int \<Rightarrow> log_site \<Rightarrow> bool" where
  "worker_state n ws v cap g \<longleftrightarrow> v \<in> ws \<and> site_ok n ws g \<and> max_bytes (handlers g v) = cap"

lemma worker_step:
  assumes "1 \<le> n" and "worker_state n ws v cap g" and "site_event_ok gunzip ws v e g"
  shows "worker_state n ws v cap (site_step e g)"
    and "\<exists>roll. day_view gunzip (at_site (site_step e g) v) =
        append_day (line_of v e) (if roll then rotate_day n (day_view gunzip (at_site g v)) else day_view gunzip (at_site g v)) \<and>
      (if roll then cap \<le> current_bytes (handlers g v) + int (length (line_of v e)) \<and> current_bytes (handlers (site_step e g) v) = 0
       else current_bytes (handlers (site_step e g) v) \<le> current_bytes (handlers g v) + int (length (line_of v e)))"
proof -
  obtain w ev where we: "e = (w, ev)" by fastforce
  have g: "v \<in> ws" "site_ok n ws g" "max_bytes (handlers g v) = cap" using assms(2) by (simp_all add: worker_state_def)
  have w: "w \<in> ws" "same_day gunzip ev (at_site g w)" and u: "w = v \<longrightarrow> undeleted (at_site g v) (at_site (site_step e g) v)"
    using assms(3) by (simp_all add: we site_event_ok_def)
  show "worker_state n ws v cap (site_step e g)"
    using site_step_ok(1) [OF assms(1) g(2) w] site_step_day(2) [OF assms(1) g(2) w] g by (simp add: worker_state_def we)
  show "\<exists>roll. day_view gunzip (at_site (site_step e g) v) =
        append_day (line_of v e) (if roll then rotate_day n (day_view gunzip (at_site g v)) else day_view gunzip (at_site g v)) \<and>
      (if roll then cap \<le> current_bytes (handlers g v) + int (length (line_of v e)) \<and> current_bytes (handlers (site_step e g) v) = 0
       else current_bytes (handlers (site_step e g) v) \<le> current_bytes (handlers g v) + int (length (line_of v e)))"
  proof (cases "w = v")
    case True
    have a: "at_site (site_step e g) v = log_step ev (at_site g v)" by (simp add: we True at_site_step)
    have h: "handlers (site_step e g) v = log_step ev (at_site g v)" by (simp add: we True site_step_def put_site_def)
    have i: "day_inv n (at_site g v)" "0 \<le> current_bytes (at_site g v)" using g(1,2) by (simp_all add: site_ok_def)
    have "undeleted (at_site g v) (log_step ev (at_site g v))" using u True a by simp
    then obtain roll where "day_view gunzip (log_step ev (at_site g v)) =
        append_day (event_text ev) (if roll then rotate_day n (day_view gunzip (at_site g v)) else day_view gunzip (at_site g v))"
      "fills_up ev (at_site g v) (log_step ev (at_site g v)) roll"
      using log_step_day(7) [OF assms(1) i] w(2) True by blast
    then show ?thesis
      unfolding a h using g(3) by (intro exI [of _ roll]) (simp add: we True line_of_def fills_up_def split: if_splits)
  next
    case False
    then have "day_view gunzip (at_site (site_step e g) v) = day_view gunzip (at_site g v)"
      using site_step_ok(2) [OF assms(1) g(2) w g(1)] by (simp add: we)
    then show ?thesis using False by (intro exI [of _ False]) (simp add: we line_of_def site_step_def put_site_def)
  qed
qed

interpretation site_log: full_log "worker_state (Suc m) ws v cap" "site_event_ok gunzip ws v" site_step "line_of v"
  "\<lambda>g. day_view gunzip (at_site g v)" "Suc m" cap "\<lambda>g. current_bytes (handlers g v)" for m gunzip ws v cap
proof
  fix g e
  show "1 \<le> Suc m" by simp
  show "worker_state (Suc m) ws v cap g \<Longrightarrow> day_view gunzip (at_site g v) 0 \<noteq> None"
    by (simp add: worker_state_def site_ok_def day_inv_def dir_ok_def day_view_def slot_content_def)
  show "worker_state (Suc m) ws v cap g \<Longrightarrow> 0 \<le> current_bytes (handlers g v)"
    by (simp add: worker_state_def site_ok_def)
  assume g: "worker_state (Suc m) ws v cap g" and e: "site_event_ok gunzip ws v e g"
  note s = worker_step [where n = "Suc m", OF _ g e]
  show "worker_state (Suc m) ws v cap (site_step e g)" by (rule s(1)) simp
  show "\<exists>roll. day_view gunzip (at_site (site_step e g) v) =
        append_day (line_of v e) (if roll then rotate_day (Suc m) (day_view gunzip (at_site g v)) else day_view gunzip (at_site g v)) \<and>
      (if roll then cap \<le> current_bytes (handlers g v) + int (length (line_of v e)) \<and> current_bytes (handlers (site_step e g) v) = 0
       else current_bytes (handlers (site_step e g) v) \<le> current_bytes (handlers g v) + int (length (line_of v e)))"
    by (rule s(2)) simp
  then show "\<exists>roll. day_view gunzip (at_site (site_step e g) v) =
        append_day (line_of v e) (if roll then rotate_day (Suc m) (day_view gunzip (at_site g v)) else day_view gunzip (at_site g v))"
    by blast
qed

text \<open>
  A run of one day in which nothing of a worker was deleted for the total size, as its counter
  shows at the end, is one the interface speaks of.
\<close>

definition day_events :: "(string \<Rightarrow> string) \<Rightarrow> nat set \<Rightarrow> string \<Rightarrow> site_event list \<Rightarrow> bool" where
  "day_events gunzip ws day es \<longleftrightarrow> (\<forall>e \<in> set es. fst e \<in> ws \<and> env_ok gunzip (event_env (snd e)) \<and> in_day (event_env (snd e)) day)"

definition site_day :: "nat \<Rightarrow> nat set \<Rightarrow> string \<Rightarrow> log_site \<Rightarrow> bool" where
  "site_day n ws day g \<longleftrightarrow> site_ok n ws g \<and> (\<forall>w \<in> ws. current_date (handlers g w) = day)"

lemma site_day_step:
  assumes "1 \<le> n" and "site_day n ws day g" and "day_events gunzip ws day [e]"
  shows "site_day n ws day (site_step e g)"
    and "max_total_bytes (handlers (site_step e g) v) = max_total_bytes (handlers g v)"
    and "name_prefix (handlers (site_step e g) v) = name_prefix (handlers g v)"
    and "disk_full (handlers g v) \<le> disk_full (handlers (site_step e g) v)"
    and "fst e \<in> ws" and "same_day gunzip (snd e) (at_site g (fst e))"
proof -
  obtain w ev where we: "e = (w, ev)" by fastforce
  have w: "w \<in> ws" "same_day gunzip ev (at_site g w)"
    using assms(2,3) by (simp_all add: we site_day_def day_events_def same_day_def)
  then show "fst e \<in> ws" and "same_day gunzip (snd e) (at_site g (fst e))" by (simp_all add: we)
  have g: "site_ok n ws g" using assms(2) by (simp add: site_day_def)
  note s = site_step_day [OF assms(1) g w]
  show "site_day n ws day (site_step e g)"
    using site_step_ok(1) [OF assms(1) g w] s(1) assms(2) by (simp add: we site_day_def)
  show "max_total_bytes (handlers (site_step e g) v) = max_total_bytes (handlers g v)"
    and "name_prefix (handlers (site_step e g) v) = name_prefix (handlers g v)"
    and "disk_full (handlers g v) \<le> disk_full (handlers (site_step e g) v)"
    using s(3-5) by (simp_all add: we)
qed

lemma site_run_mono:
  assumes "1 \<le> n"
  shows "site_day n ws day g \<Longrightarrow> day_events gunzip ws day es \<Longrightarrow>
    disk_full (handlers g v) \<le> disk_full (handlers (fold site_step es g) v)"
proof (induction es arbitrary: g)
  case (Cons e es)
  have "day_events gunzip ws day [e]" "day_events gunzip ws day es" using Cons.prems(2) by (simp_all add: day_events_def)
  note s = site_day_step [OF assms Cons.prems(1) this(1)] and ih = Cons.IH [OF _ this(2)]
  show ?case using ih [OF s(1)] s(4) [of v] by simp
qed simp

lemma site_run_ok:
  assumes "1 \<le> n"
  shows "site_day n ws day g \<Longrightarrow> day_events gunzip ws day es \<Longrightarrow>
    undeleted (handlers g v) (handlers (fold site_step es g) v) \<Longrightarrow> all_ok (site_event_ok gunzip ws v) site_step es g"
proof (induction es arbitrary: g)
  case (Cons e es)
  let ?g = "site_step e g"
  have ev: "day_events gunzip ws day [e]" "day_events gunzip ws day es" using Cons.prems(2) by (simp_all add: day_events_def)
  note s = site_day_step [OF assms Cons.prems(1) ev(1)]
  have "disk_full (handlers ?g v) \<le> disk_full (handlers (fold site_step es ?g) v)" by (rule site_run_mono [OF assms s(1) ev(2)])
  then have u: "undeleted (handlers g v) (handlers ?g v)" "undeleted (handlers ?g v) (handlers (fold site_step es ?g) v)"
    using Cons.prems(3) s(2,3,4) [of v] by (auto simp: undeleted_def)
  have "undeleted (at_site g v) (at_site ?g v)" using u(1) by (simp add: undeleted_def)
  then show ?case using Cons.IH [OF s(1) ev(2) u(2)] s(5,6) by (simp add: site_event_ok_def)
qed simp

section \<open>Starting\<close>

lemma home_init:
  fixes env pid p max_b backups compr mb d
  defines "h \<equiv> init_handler env pid p max_b backups compr mb d"
  shows "process h = pid" and "name_prefix h = p" and "own_files h" and "stays_in pid p d (files h)"
    and "base_name h = log_path p (day_of (stamp env))"
proof -
  let ?b = "log_path p (day_of (stamp env))"
  obtain h0 where h: "h = cleanup_by_total_size env (cleanup_old_files env h0)" and h0: "process h0 = pid" "name_prefix h0 = p"
      "base_name h0 = ?b" "jobs h0 = []" "files h0 = open_append pid (file_clock env) ?b d"
    by (simp add: h_def init_handler_def Let_def)
  have "home_step h0 h" unfolding h by (rule home_trans [OF home_retention home_total])
  moreover have "own_files h0" using h0 by (simp add: own_files_def)
  moreover have "stays_in pid p d (files h0)" using h0 by (simp add: stays_open)
  ultimately show "process h = pid" and "name_prefix h = p" and "own_files h" and "stays_in pid p d (files h)"
    using h0 by (auto simp: home_step_def intro: stays_trans)
  have "base_name (cleanup_by_total_size env k) = base_name k" for k
    by (simp add: cleanup_by_total_size_def Let_def split: prod.split)
  then show "base_name h = ?b" using h0 by (simp add: h cleanup_old_files_def)
qed

text \<open>One more worker, with a prefix apart from those of the others, on a directory where its day is fresh.\<close>

lemma start_worker_ok:
  fixes env n config g w
  assumes "1 \<le> n" and "site_ok n ws g" and "w \<notin> ws" and "fresh_day env w (audit_prefix True w) (shared g)"
    and "per_worker_files config"
    and "\<forall>v \<in> ws. name_prefix (handlers g v) = audit_prefix True v"
  defines "g' \<equiv> start_worker env (int n) config g w"
  shows "site_ok n (insert w ws) g'" and "day_view gunzip (at_site g' w) = (\<lambda>i. if i = 0 then Some [] else None)"
    and "v \<in> ws \<Longrightarrow> day_view gunzip (at_site g' v) = day_view gunzip (at_site g v)"
    and "handlers g' v = (if v = w then audit_handler env w (int n) config (shared g) else handlers g v)"
    and "current_date (handlers g' w) = day_of (stamp env)" and "current_bytes (handlers g' w) = 0"
    and "max_bytes (handlers g' w) = max_file_size_mb config * 1024 * 1024"
    and "max_total_bytes (handlers g' w) = (if max_total_size_mb config > 0 then max_total_size_mb config * 1024 * 1024 else 0)"
    and "name_prefix (handlers g' w) = audit_prefix True w"
    and "stays_in w (audit_prefix True w) (shared g) (shared g')"
proof -
  let ?h = "audit_handler env w (int n) config (shared g)" and ?p = "audit_prefix True w"
  have hi: "?h = init_handler env w ?p (max_file_size_mb config * 1024 * 1024) (int n) True (max_total_size_mb config) (shared g)"
    using assms(5) by (simp add: audit_handler_def)
  note f = init_fresh_any [OF assms(4,1), where max_b = "max_file_size_mb config * 1024 * 1024" and compr = True and mb = "max_total_size_mb config", folded hi]
  note i = home_init [where env = env and pid = w and p = ?p and max_b = "max_file_size_mb config * 1024 * 1024"
      and backups = "int n" and compr = True and mb = "max_total_size_mb config" and d = "shared g", folded hi]
  let ?k = "?h\<lparr>files := shared g, stream_open := False\<rparr>"
  have ok: "own_files ?k" using i(3) by (simp add: own_files_def)
  have st: "home_step ?k ?h" using i by (simp add: home_step_def)
  have sk: "stream_ok (stream_open ?k) w (base_name ?k) (shared g)" using assms(4) by (simp add: stream_ok_def fresh_day_def)
  have ap: "\<forall>v \<in> ws - {w}. apart (name_prefix (handlers g v)) (name_prefix ?k)"
    using assms(6) i(2) apart_pids by auto
  have g': "g' = put_site w ?h g" by (simp add: g'_def start_worker_def)
  note p = put_site_ok [OF assms(2) st ok _ _ sk _ ap]
  show "site_ok n (insert w ws) g'" using p(1) i(1) f(1,4) by (simp add: g')
  show "v \<in> ws \<Longrightarrow> day_view gunzip (at_site g' v) = day_view gunzip (at_site g v)" using p(2) i(1) f(1,4) assms(3) by (auto simp: g')
  show "handlers g' v = (if v = w then ?h else handlers g v)" by (simp add: g' put_site_def)
  have a: "at_site g' w = ?h" by (simp add: g' put_site_def at_site_def)
  show "day_view gunzip (at_site g' w) = (\<lambda>i. if i = 0 then Some [] else None)" using f(2) a by simp
  show "current_date (handlers g' w) = day_of (stamp env)" and "current_bytes (handlers g' w) = 0"
    and "max_bytes (handlers g' w) = max_file_size_mb config * 1024 * 1024"
    and "max_total_bytes (handlers g' w) = (if max_total_size_mb config > 0 then max_total_size_mb config * 1024 * 1024 else 0)"
    and "name_prefix (handlers g' w) = ?p"
    using f(3-6) i(2) by (simp_all add: g' put_site_def)
  show "stays_in w ?p (shared g) (shared g')" using i(4) by (simp add: g' put_site_def)
qed

lemma fresh_day_stays:
  assumes "fresh_day env v (audit_prefix True v) d" and "v \<noteq> w" and "no_stream w d" and "stays_in w (audit_prefix True w) d d'"
  shows "fresh_day env v (audit_prefix True v) d'"
proof -
  let ?p = "audit_prefix True v" and ?b = "log_path (audit_prefix True v) (day_of (stamp env))"
  have home: "at_home w (audit_prefix True w) d" using assms(3) by (auto simp: at_home_def no_stream_def every_file_def)
  have aw: "away v (audit_prefix True w) d" using assms(1) by (auto simp: away_def fresh_day_def no_stream_def every_file_def)
  have same: "\<not> own_name (audit_prefix True w) m \<Longrightarrow> map_of d' m = map_of d m" and aw': "away v (audit_prefix True w) d'" for m
    using assms(2,4) home aw by (auto simp: stays_in_def)
  have "own_name ?p m" if "m \<in> day_names ?b" for m using that by (auto simp: day_names_def)
  then have "map_of d' m = None" if "m \<in> day_names ?b" for m
    using same that assms(1) apart_pids [OF assms(2)] by (auto simp: apart_def fresh_day_def)
  moreover have "v \<notin> set (writers f)" if "map_of d' m = Some f" for m f
    using that same [of m] aw' assms(1) by (cases "own_name (audit_prefix True w) m") (auto simp: away_def fresh_day_def no_stream_def every_file_def)
  ultimately show ?thesis using assms(1) by (auto simp: fresh_day_def no_stream_def every_file_def)
qed

definition started :: "(string \<Rightarrow> string) \<Rightarrow> log_env \<Rightarrow> audit_config \<Rightarrow> nat set \<Rightarrow> log_site \<Rightarrow> bool" where
  "started gunzip env config ws g \<longleftrightarrow> (\<forall>v \<in> ws. name_prefix (handlers g v) = audit_prefix True v \<and>
     current_date (handlers g v) = day_of (stamp env) \<and> current_bytes (handlers g v) = 0 \<and>
     max_bytes (handlers g v) = max_file_size_mb config * 1024 * 1024 \<and>
     max_total_bytes (handlers g v) = (if max_total_size_mb config > 0 then max_total_size_mb config * 1024 * 1024 else 0) \<and>
     day_view gunzip (at_site g v) = (\<lambda>i. if i = 0 then Some [] else None))"

lemma start_site_ok:
  assumes "1 \<le> n" and "per_worker_files config"
  shows "site_ok n vs g \<Longrightarrow> started gunzip env config vs g \<Longrightarrow> distinct ws \<Longrightarrow> vs \<inter> set ws = {} \<Longrightarrow>
    \<forall>w \<in> set ws. fresh_day env w (audit_prefix True w) (shared g) \<Longrightarrow>
    site_ok n (vs \<union> set ws) (start_site env (int n) config ws g) \<and>
    started gunzip env config (vs \<union> set ws) (start_site env (int n) config ws g)"
proof (induction ws arbitrary: g vs)
  case Nil
  then show ?case by (simp add: start_site_def)
next
  case (Cons w ws)
  let ?g = "start_worker env (int n) config g w"
  have w: "w \<notin> vs" "fresh_day env w (audit_prefix True w) (shared g)" using Cons.prems by auto
  have nm: "\<forall>v \<in> vs. name_prefix (handlers g v) = audit_prefix True v" using Cons.prems(2) by (simp add: started_def)
  note s = start_worker_ok [OF assms(1) Cons.prems(1) w assms(2) nm]
  have "started gunzip env config (insert w vs) ?g" using s(2-9) Cons.prems(2) w(1) by (auto simp: started_def)
  moreover have "no_stream w (shared g)" using w(2) by (simp add: fresh_day_def)
  then have "\<forall>u \<in> set ws. fresh_day env u (audit_prefix True u) (shared ?g)"
    using Cons.prems(3,5) fresh_day_stays [OF _ _ _ s(10)] by auto
  ultimately show ?case using Cons.IH [of "insert w vs" ?g] s(1) Cons.prems(3,4) by (simp add: start_site_def)
qed

text \<open>With a file for each worker, any number of workers share the directory of the audit log: whatever the
  others write, rotate, compress and delete in between, while nothing of a worker is deleted for the total
  size, its files hold, in order, the end of all that this worker wrote, and give up no line before they
  hold \<open>n\<close> times the size of a file.\<close>

lemma workers_apart:
  assumes "1 \<le> n" and "per_worker_files config" and "distinct ws" and "v \<in> set ws"
    and "\<forall>w \<in> set ws. fresh_day env w (audit_prefix True w) (shared g0)"
    and "day_events gunzip (set ws) (day_of (stamp env)) es"
    and "g = fold site_step es (start_site env (int n) config ws g0)"
    and "max_total_size_mb config \<le> 0 \<or> disk_full (handlers g v) = disk_full (handlers (start_site env (int n) config ws g0) v)"
  shows "\<exists>old. old @ kept n (day_view gunzip (at_site g v)) = concat (map (line_of v) es) \<and>
    (old = [] \<or> int n * (max_file_size_mb config * 1024 * 1024) \<le> int (length (kept n (day_view gunzip (at_site g v)))))"
proof -
  let ?g = "start_site env (int n) config ws g0"
  have "site_ok n {} g0" "started gunzip env config {} g0" by (simp_all add: site_ok_def started_def)
  from start_site_ok [OF assms(1,2) this assms(3)] assms(5)
  have s: "site_ok n (set ws) ?g" "started gunzip env config (set ws) ?g" by simp_all
  then have "site_day n (set ws) (day_of (stamp env)) ?g" by (simp add: site_day_def started_def)
  moreover have "undeleted (handlers ?g v) (handlers g v)"
    using assms(4,8) s(2) by (auto simp: undeleted_def started_def audit_prefix_def)
  ultimately have ok: "all_ok (site_event_ok gunzip (set ws) v) site_step es ?g"
    using site_run_ok [OF assms(1) _ assms(6)] unfolding assms(7) by blast
  obtain m where n: "n = Suc m" using assms(1) by (cases n) auto
  have v: "day_view gunzip (at_site ?g v) = (\<lambda>i. if i = 0 then Some [] else None)" "current_bytes (handlers ?g v) = 0"
    using s(2) assms(4) by (simp_all add: started_def)
  have k: "kept k (\<lambda>i. if i = 0 then Some [] else None) = []" for k by (induction k) (simp_all add: slot_text_def)
  have st: "worker_state (Suc m) (set ws) v (max_file_size_mb config * 1024 * 1024) ?g"
    using s assms(4) by (simp add: worker_state_def started_def n)
  have "site_log.tight gunzip v m (max_file_size_mb config * 1024 * 1024) ?g"
    unfolding site_log.tight_def v by (simp del: kept.simps)
  from site_log.run_full [OF st ok this] show ?thesis
    using k unfolding assms(7) by (simp add: v(1) del: kept.simps flip: n)
qed

definition split_config :: audit_config where
  "split_config = (audit default_settings)\<lparr>per_worker_files := True\<rparr>"

lemma split_config_fresh: "w \<in> {1, 2} \<Longrightarrow> fresh_day sample_log_env w (audit_prefix True w) []"
proof -
  assume "w \<in> {1, 2}"
  then have "\<not> expired (audit_prefix True w) sample_log_env (log_path (audit_prefix True w) (day_of (stamp sample_log_env)))"
    by (elim insertE emptyE; hypsubst) code_simp+
  then show ?thesis by (simp add: fresh_day_def no_stream_def every_file_def sample_log_env_def)
qed

section \<open>One file for all\<close>

lemma stream_at_other:
  assumes "stream_at v c d" and "v \<noteq> w"
  shows "stream_at v c (close_stream w d)" and "b \<noteq> c \<Longrightarrow> stream_at v c (open_append w now b d)" and "stream_at v c (write_to w now s d)"
  using assms by (auto simp: stream_at_def split: option.splits if_splits)

lemma stream_at_moves:
  assumes "stream_at v c d" and "m \<noteq> c"
  shows "stream_at v c (unlink m d)" and "m' \<noteq> c \<Longrightarrow> stream_at v c (rename m m' d)"
  using assms by (auto simp: stream_at_def look_rename split: option.splits if_splits)

lemma stream_at_shift_one: "stream_at v b d \<Longrightarrow> stream_at v b (snd (shift_one env b n i d))"
  by (auto simp: shift_one_def Let_def unlink_missing_ok_def rename_file_def and_then_def stream_at_moves split: if_splits)

lemma stream_at_shift: "stream_at v b d \<Longrightarrow> stream_at v b (snd (shift_down env b n j d))"
proof (induction j arbitrary: d)
  case (Suc j)
  obtain r d' where o: "shift_one env b n (Suc j) d = (r, d')" by fastforce
  with stream_at_shift_one [OF Suc.prems] have "stream_at v b d'" by (metis snd_conv)
  then show ?case using Suc.IH by (simp add: o and_then_def split: option.split)
qed simp

lemma stream_taken_along: "stream_at v b d \<Longrightarrow> map_of d b \<noteq> None \<Longrightarrow> c \<noteq> b \<Longrightarrow> stream_at v c (rename b c d)"
  by (auto simp: stream_at_def look_rename split: option.splits if_splits)

lemma stream_compressed_away:
  "stream_at v c d \<Longrightarrow> map_of d c \<noteq> None \<Longrightarrow> \<not> no_gzip env c \<Longrightarrow> \<not> no_unlink env c \<Longrightarrow> no_stream v (compress_file env c d)"
  by (auto simp: stream_at_def no_stream_def every_file_def look_compress split: option.splits bool.splits if_splits)

lemma stream_after_jobs:
  "stream_at v b d \<Longrightarrow> \<forall>m \<in> set js. m \<noteq> b \<and> gz_name m \<noteq> b \<Longrightarrow> stream_at v b (foldl (\<lambda>d m. compress_file env m d) d js)"
  using stream_compress [where opened = True] by (induction js arbitrary: d) (auto simp: stream_ok_def)

lemma write_nowhere: "no_stream v d \<Longrightarrow> map_of (write_to v now s d) = map_of d"
proof
  fix m
  assume "no_stream v d"
  then show "map_of (write_to v now s d) m = map_of d m" by (cases "map_of d m") (auto simp: no_stream_def every_file_def)
qed

text \<open>Once the stream of a process is on no file, no operation of another process puts it on one.\<close>

lemma no_stream_foldl: "(\<And>d x. no_stream v d \<Longrightarrow> no_stream v (f d x)) \<Longrightarrow> no_stream v d \<Longrightarrow> no_stream v (foldl f d xs)"
  by (induction xs arbitrary: d) simp_all

lemma no_stream_compress: "no_stream v d \<Longrightarrow> no_stream v (compress_file env m d)"
  by (auto simp: no_stream_def)

lemma no_stream_unlink: "no_stream v d \<Longrightarrow> no_stream v (unlink m d)"
  by (auto simp: no_stream_def)

lemma no_stream_without: "no_stream v d \<Longrightarrow> no_stream v (without ns d)"
  by (auto simp: no_stream_def)

lemma no_stream_write: "no_stream v d \<Longrightarrow> no_stream v (write_to p now s d)"
  by (auto simp: no_stream_def every_file_def split: if_splits)

lemma no_stream_close: "no_stream v d \<Longrightarrow> no_stream v (close_stream p d)"
  by (auto simp: no_stream_def every_file_def)

lemma no_stream_open: "no_stream v d \<Longrightarrow> p \<noteq> v \<Longrightarrow> no_stream v (open_append p now b d)"
  by (auto simp: no_stream_def every_file_def split: if_splits option.splits)

lemma no_stream_cleanup: "no_stream v (files h) \<Longrightarrow> no_stream v (files (cleanup_by_total_size env h))"
  by (rule cleanup_deletes [of env h]) (simp add: no_stream_without)

lemma no_stream_retention: "no_stream v (files h) \<Longrightarrow> no_stream v (files (cleanup_old_files env h))"
  by (auto simp: cleanup_old_files_def retention_step_def intro!: no_stream_foldl no_stream_unlink)

lemma no_stream_backups: "no_stream v (files h) \<Longrightarrow> no_stream v (files (snd (shift_backups env h)))"
proof -
  assume v: "no_stream v (files h)"
  let ?b = "log_path (name_prefix h) (current_date h)"
  obtain r d where s: "shift_down env ?b (nat (backup_count h)) (nat (backup_count h)) (files h) = (r, d)" by fastforce
  have d: "no_stream v d" using no_stream_shift [OF v] s by (metis snd_conv)
  then have "no_stream v (snd (rename_file env ?b (backup_name ?b 1) d))" by (auto simp: no_stream_def)
  with d show ?thesis
    by (auto simp: shift_backups_def Let_def s compress_file_async_def split: option.split prod.split)
qed

lemma no_stream_day: "no_stream v (files h) \<Longrightarrow> no_stream v (files (change_day env h))"
  unfolding change_day_def Let_def by (rule no_stream_retention) (simp add: compress_file_async_def)

lemma no_stream_base: "no_stream v (files h) \<Longrightarrow> process h \<noteq> v \<Longrightarrow> no_stream v (files (snd (open_base env h)))"
  by (simp add: open_base_def Let_def no_stream_open)

lemma no_stream_rollover:
  assumes "no_stream v (files h)" and "process h \<noteq> v"
  shows "no_stream v (files (snd (do_rollover env h)))"
proof -
  let ?h0 = "wait_pending_compressions env h"
  let ?h1 = "?h0\<lparr>stream_open := False, files := close_stream (process ?h0) (files ?h0)\<rparr>"
  let ?r = "if day_of (stamp_later env) \<noteq> current_date ?h1 then (None, change_day env ?h1) else shift_backups env ?h1"
  have "no_stream v (files ?h1)"
    using assms(1) by (simp add: wait_pending_compressions_def no_stream_close no_stream_foldl no_stream_compress)
  then have "no_stream v (files (snd ?r))" by (simp add: no_stream_day no_stream_backups del: wait_simps)
  moreover have "process (snd ?r) \<noteq> v" using assms(2) home_day [of ?h1 env] home_shift [of ?h1 env] by (simp add: home_step_def)
  moreover obtain x h2 where r: "?r = (x, h2)" by fastforce
  ultimately have "no_stream v (files (snd (and_then ?r (open_base env))))"
    by (cases x) (simp_all add: no_stream_base)
  moreover obtain y h3 where "and_then ?r (open_base env) = (y, h3)" by fastforce
  ultimately show ?thesis
    unfolding do_rollover_def Let_def by (cases y) (simp_all add: no_stream_cleanup)
qed

lemma no_stream_line: "no_stream v (files h) \<Longrightarrow> process h \<noteq> v \<Longrightarrow> no_stream v (files (snd (emit_line env msg h)))"
  by (simp add: emit_line_def Let_def no_stream_write no_stream_open)

lemma no_stream_step:
  assumes "no_stream v (files h)" and "process h \<noteq> v"
  shows "no_stream v (files (log_step ev h))"
proof (cases ev)
  case (Emitted env msg)
  obtain roll c where r: "should_rollover env msg h = (roll, h\<lparr>current_bytes := c\<rparr>)"
    using should_rollover_shape by (metis prod.collapse)
  let ?h = "h\<lparr>current_bytes := c\<rparr>"
  have h: "no_stream v (files ?h)" "process ?h \<noteq> v" using assms by simp_all
  have "process (snd (do_rollover env ?h)) \<noteq> v" using home_rollover [of ?h env] h(2) by (simp add: home_step_def)
  with no_stream_rollover [OF h, of env] h show ?thesis
    using Emitted no_stream_line by (auto simp: emit_def r and_then_def split: prod.split option.split)
next
  case (Compressed env)
  with assms(1) show ?thesis by (simp add: gzip_step_def no_stream_compress split: list.split)
qed

text \<open>A process whose open stream is on no file: a line it writes without a rollover changes nothing.\<close>

definition orphaned :: "nat \<Rightarrow> log_site \<Rightarrow> bool" where
  "orphaned v g \<longleftrightarrow> no_stream v (shared g) \<and> stream_open (handlers g v) \<and> (\<forall>u. process (handlers g u) = u)"

lemma orphan_line:
  assumes "orphaned v g" and "\<not> rolls (Emitted env msg) (at_site g v)"
  shows "site_step (v, Emitted env msg) g = put_site v (log_step (Emitted env msg) (at_site g v)) g"
    and "files (log_step (Emitted env msg) (at_site g v)) = write_to v (file_clock env) (msg @ [newline]) (shared g)"
    and "stream_open (log_step (Emitted env msg) (at_site g v))"
proof -
  have "\<not> fst (should_rollover env msg (at_site g v))" using assms(2) by (simp add: rolls_def)
  moreover obtain k where "snd (should_rollover env msg (at_site g v)) = (at_site g v)\<lparr>current_bytes := k\<rparr>"
    using should_rollover_shape by blast
  ultimately have k: "should_rollover env msg (at_site g v) = (False, (at_site g v)\<lparr>current_bytes := k\<rparr>)"
    by (simp add: prod_eq_iff)
  have "stream_open (at_site g v)" "process (at_site g v) = v" using assms(1) by (simp_all add: orphaned_def at_site_def)
  with k show "files (log_step (Emitted env msg) (at_site g v)) = write_to v (file_clock env) (msg @ [newline]) (shared g)"
    and "stream_open (log_step (Emitted env msg) (at_site g v))"
    by (simp_all add: emit_def emit_line_def Let_def)
qed (simp add: site_step_def)

lemma orphan_step:
  assumes "orphaned v g" and "\<not> (fst e = v \<and> rolls (snd e) (at_site g v))"
  shows "orphaned v (site_step e g)"
proof -
  obtain u ev where e: "e = (u, ev)" by fastforce
  let ?h = "log_step ev (at_site g u)"
  have g: "no_stream v (shared g)" "stream_open (handlers g v)" "process (handlers g w) = w" for w
    using assms(1) by (simp_all add: orphaned_def)
  have p: "process ?h = u" using home_log_step [of "at_site g u" ev] g(3) by (simp add: home_step_def)
  have "no_stream v (files ?h) \<and> (u = v \<longrightarrow> stream_open ?h)"
  proof (cases "u = v")
    case False
    with no_stream_step [of v "at_site g u" ev] g show ?thesis by simp
  next
    case True
    show ?thesis
    proof (cases ev)
      case (Emitted env msg)
      with assms(2) True have "\<not> rolls (Emitted env msg) (at_site g v)" by (simp add: e)
      from orphan_line(2,3) [OF assms(1) this] show ?thesis using True Emitted g(1) by (simp add: no_stream_write)
    next
      case (Compressed env)
      with g(1,2) True show ?thesis by (simp add: gzip_step_def no_stream_compress at_site_def split: list.split)
    qed
  qed
  then show ?thesis using p g by (auto simp: orphaned_def e site_step_def put_site_def)
qed

lemma orphan_run:
  "orphaned v g \<Longrightarrow> all_ok (\<lambda>e g. \<not> (fst e = v \<and> rolls (snd e) (at_site g v))) site_step es g \<Longrightarrow> orphaned v (fold site_step es g)"
  by (induction es arbitrary: g) (auto intro: orphan_step)

text \<open>The rotation by size by worker \<open>w\<close>, and the compression of its first backup, orphan worker \<open>v\<close>.\<close>

lemma rotation_orphans:
  assumes "1 \<le> n" and "v \<noteq> w" and "day_inv n (at_site g w)" and "day_inv n (at_site g v)"
    and "base_name (handlers g v) = base_name (handlers g w)" and "\<forall>u. process (handlers g u) = u"
    and "stream_open (handlers g v)" and "compress (handlers g w)"
    and "env_ok gunzip env" and "in_day env (current_date (handlers g w))" and "fst (should_rollover env msg (at_site g w))"
    and "env_ok gunzip env'" and "\<not> no_gzip env' (backup_name (base_name (handlers g w)) 1)"
  shows "orphaned v (fold site_step [(w, Emitted env msg), (w, Compressed env')] g)" (is "orphaned v ?g")
proof -
  let ?h = "at_site g w" and ?b = "base_name (handlers g w)" and ?c = "backup_name (base_name (handlers g w)) 1"
  have hb: "base_name ?h = ?b" "process ?h = w" "compress ?h" "jobs ?h = jobs (handlers g w)" using assms(6,8) by (simp_all add: at_site_def)
  let ?start = "close_stream w (foldl (\<lambda>d m. compress_file env m d) (shared g) (jobs (handlers g w)))"
  have gz: "gz_ok gunzip env" "env_works env" using assms(9) by (simp_all add: env_ok_def)
  have day: "in_day env (current_date ?h)" using assms(10) by simp
  obtain ns where roll0: "do_rollover env ?h = (None, ?h\<lparr>files := without ns (rotated_dir env (process ?h) (base_name ?h) n
        (close_stream (process ?h) (foldl (\<lambda>d m. compress_file env m d) (files ?h) (jobs ?h)))),
      jobs := (if compress ?h then [backup_name (base_name ?h) 1] else []), current_bytes := 0, stream_open := True,
      disk_full := disk_full ?h + (if starts_with ''audit'' (name_prefix ?h) then length ns else 0)\<rparr>)"
    and "base_name ?h \<notin> set ns" and "max_total_bytes ?h \<le> 0 \<longrightarrow> ns = []"
    and ok0: "dir_ok n (base_name ?h) (close_stream (process ?h) (foldl (\<lambda>d m. compress_file env m d) (files ?h) (jobs ?h))) []"
    and "slot_content gunzip (base_name ?h) (close_stream (process ?h) (foldl (\<lambda>d m. compress_file env m d) (files ?h) (jobs ?h))) = day_view gunzip ?h"
    by (rule do_rollover_exact [OF assms(1,3,9) day])
  define k where "k = disk_full ?h + (if starts_with ''audit'' (name_prefix ?h) then length ns else 0)"
  have roll: "do_rollover env ?h = (None, ?h\<lparr>files := without ns (rotated_dir env w ?b n ?start),
      jobs := [?c], current_bytes := 0, stream_open := True, disk_full := k\<rparr>)"
    using roll0 by (simp only: k_def hb at_site_simps(4) if_True)
  have ok: "dir_ok n ?b ?start []" using ok0 by (simp only: hb at_site_simps(4))
  let ?rotated = "write_to w (file_clock env) (msg @ [newline]) (without ns (rotated_dir env w ?b n ?start))"
  have e: "emit env msg ?h = ?h\<lparr>files := ?rotated, jobs := [?c], current_bytes := 0, stream_open := True, disk_full := k\<rparr>"
    using roll assms(11) gz(2) hb by (simp add: emit_def should_rollover_True emit_line_works opened_dir_def)
  let ?dir1 = "compress_file env' ?c ?rotated"
  have g': "shared ?g = ?dir1" "handlers ?g u = (if u = w then gzip_step env' (emit env msg ?h) else handlers g u)" for u
    using assms(2) by (simp_all add: site_step_def put_site_def at_site_def gzip_step_def e [unfolded at_site_def])
  have "stream_at v ?b (shared g)" using assms(4-7) by (simp add: day_inv_def stream_ok_def at_site_def)
  moreover have "dir_ok n ?b (shared g) (jobs (handlers g w))" using assms(3) hb by (simp add: day_inv_def)
  ultimately have "stream_at v ?b ?start"
    using stream_after_jobs [of v ?b "shared g" "jobs (handlers g w)" env] job_not_base assms(2)
    by (auto simp: dir_ok_def intro: stream_at_other(1))
  then have "stream_at v ?b (snd (shift_down env ?b n n ?start))" by (rule stream_at_shift)
  moreover have x: "map_of (snd (shift_down env ?b n n ?start)) ?b \<noteq> None"
    using shift_all_works [OF assms(1) _ gz(2), of ?b ?start] ok by (metis dir_ok_def snd_conv)
  ultimately have "stream_at v ?c (rename ?b ?c (snd (shift_down env ?b n n ?start)))" by (intro stream_taken_along) simp_all
  then have at: "stream_at v ?c (rotated_dir env w ?b n ?start)" unfolding rotated_dir_def using assms(2) by (intro stream_at_other) simp_all
  have there: "map_of (rotated_dir env w ?b n ?start) ?c \<noteq> None"
    using rotated_look(2) [OF assms(1) ok gz(2), of w 1] ok by (simp add: dir_ok_def)
  have "no_stream v ?dir1"
  proof (cases "?c \<in> set ns")
    case True
    then have "no_stream v (without ns (rotated_dir env w ?b n ?start))"
      using at by (auto simp: stream_at_def no_stream_def every_file_def split: if_splits)
    then show ?thesis by (intro no_stream_compress no_stream_write)
  next
    case False
    then have "stream_at v ?c ?rotated" using at assms(2) by (intro stream_at_other without_dir)
    moreover have "map_of ?rotated ?c \<noteq> None" using False there by simp
    moreover have "\<not> no_unlink env' ?c" using assms(12) by (simp add: env_ok_def gz_ok_def)
    ultimately show ?thesis using assms(13) by (intro stream_compressed_away)
  qed
  moreover have "process (gzip_step env' (emit env msg ?h)) = w" using assms(6) by (simp add: gzip_step_def e)
  ultimately show ?thesis using g' assms(2,6,7) by (simp add: orphaned_def)
qed

text \<open>C13: by default the workers share one file for the day. When one of them rotates it by size and its
  background thread has compressed the backup, the stream of every other worker is open on a file that
  has no name any more: whatever the workers do then, each line such a worker writes until it comes to
  rotate itself is in no file. The bound on the directory may be any, the default of 1024 MB included.\<close>

theorem shared_rotation_orphans:
  assumes "1 \<le> n" and "v \<noteq> w" and "day_inv n (at_site g w)" and "day_inv n (at_site g v)"
    and "base_name (handlers g v) = base_name (handlers g w)" and "\<forall>u. process (handlers g u) = u"
    and "stream_open (handlers g v)" and "compress (handlers g w)"
    and "env_ok gunzip env" and "in_day env (current_date (handlers g w))" and "fst (should_rollover env msg (at_site g w))"
    and "env_ok gunzip env'" and "\<not> no_gzip env' (backup_name (base_name (handlers g w)) 1)"
    and "all_ok (\<lambda>e g. \<not> (fst e = v \<and> rolls (snd e) (at_site g v))) site_step es
      (fold site_step [(w, Emitted env msg), (w, Compressed env')] g)"
    and "g' = fold site_step es (fold site_step [(w, Emitted env msg), (w, Compressed env')] g)"
    and "\<not> rolls (Emitted env2 msg2) (at_site g' v)"
  shows "map_of (shared (site_step (v, Emitted env2 msg2) g')) = map_of (shared g')"
proof -
  have o: "orphaned v g'" unfolding assms(15) by (rule orphan_run [OF rotation_orphans [OF assms(1-13)] assms(14)])
  then have "no_stream v (shared g')" by (simp add: orphaned_def)
  with orphan_line(1,2) [OF o assms(16)] show ?thesis by (simp add: put_site_def write_nowhere)
qed

text \<open>Two workers with the sample handler's file and the default bound on the directory.\<close>

definition shared_site :: log_site where
  "shared_site = \<lparr>shared = [(base_name sample_handler, \<lparr>content = [], mtime = 1, writers = [1, 2]\<rparr>)],
     handlers = (\<lambda>w. sample_handler\<lparr>process := w, max_total_bytes := 1024 * 1024 * 1024\<rparr>)\<rparr>"

lemma sample_fields:
  "stream_open sample_handler" "compress sample_handler" "jobs sample_handler = []" "backup_count sample_handler = 1"
  "max_total_bytes sample_handler = 0" "max_bytes sample_handler = 10" "current_bytes sample_handler = 0"
  by code_simp+

lemma shared_site_inv: "w \<in> {1, 2} \<Longrightarrow> day_inv 1 (at_site shared_site w)"
  using init_fresh(1) [OF sample_fresh, where n = 1 and max_b = 10 and compr = True]
  by (auto simp: sample_handler_def [symmetric] log_inv_defs at_site_def shared_site_def dir_ok_def no_twins_def stream_ok_def stream_at_def
      sample_fields split: if_splits)

theorem shared_rotation_orphans_witness:
  "let g = fold site_step [(1, Emitted sample_log_env ''1234567890''), (1, Compressed sample_log_env)] shared_site;
       g' = fold site_step [(2, Emitted sample_log_env ''a''), (1, Emitted sample_log_env ''b'')] g
   in map_of (shared (site_step (2, Emitted sample_log_env ''c'') g')) = map_of (shared g')"
proof -
  let ?g = "fold site_step [(1, Emitted sample_log_env ''1234567890''), (1, Compressed sample_log_env)] shared_site"
  let ?es = "[(2, Emitted sample_log_env ''a''), (1, Emitted sample_log_env ''b'')]"
  have inv: "day_inv 1 (at_site shared_site 1)" "day_inv 1 (at_site shared_site 2)" by (rule shared_site_inv; simp)+
  have f: "base_name (handlers shared_site 2) = base_name (handlers shared_site 1)" "\<forall>u. process (handlers shared_site u) = u"
    "stream_open (handlers shared_site 2)" "compress (handlers shared_site 1)"
    "in_day sample_log_env (current_date (handlers shared_site 1))" "\<not> no_gzip sample_log_env m" for m
    using sample_in_day init_fresh(3) [OF sample_fresh, where n = 1 and max_b = 10 and compr = True]
    by (simp_all add: shared_site_def sample_fields sample_handler_def [symmetric]) (simp add: sample_log_env_def)
  have r: "fst (should_rollover sample_log_env ''1234567890'' (at_site shared_site 1))"
    "all_ok (\<lambda>e g. \<not> (fst e = 2 \<and> rolls (snd e) (at_site g 2))) site_step ?es ?g"
    "\<not> rolls (Emitted sample_log_env ''c'') (at_site (fold site_step ?es ?g) 2)"
    by code_simp+
  have "(2::nat) \<noteq> 1" by simp
  from shared_rotation_orphans [OF order_refl this inv f(1-4) sample_log_env_ok f(5) r(1) sample_log_env_ok f(6) r(2) refl r(3)]
  show ?thesis by (simp only: Let_def)
qed

end
