(* ===== verification/AuditPipeline.thy ===== *)
theory AuditPipeline
  imports LogWorkers AuditLog
begin

text \<open>
  The way of an audit line, from a request to the disk: a request of a worker puts it on the bounded queue
  of that worker (AuditLog), the listener thread takes it off and hands it to the handler, and the
  handlers of all the workers write and rotate their files in one directory (LogWorkers). Requests,
  listeners and compressions of the workers interleave freely.
\<close>

section \<open>The workers and their queues\<close>

record audit_site =
  site :: log_site
  trail :: "nat \<Rightarrow> audit_state"

datatype trail_event = CapturedBy nat string | TakenBy nat log_env | CompressedBy nat log_env

primrec trail_worker :: "trail_event \<Rightarrow> nat" where
  "trail_worker (CapturedBy w line) = w"
| "trail_worker (TakenBy w env) = w"
| "trail_worker (CompressedBy w env) = w"

primrec trail_envs :: "trail_event \<Rightarrow> log_env set" where
  "trail_envs (CapturedBy w line) = {}"
| "trail_envs (TakenBy w env) = {env}"
| "trail_envs (CompressedBy w env) = {env}"

text \<open>What the listener takes goes to \<open>emit\<close>; the files a clean-up by size deletes are counted as dropped.\<close>

definition take_line :: "nat \<Rightarrow> log_env \<Rightarrow> string \<Rightarrow> audit_site \<Rightarrow> audit_site" where
  "take_line w env line s =
     (let g = site_step (w, Emitted env line) (site s);
          k = disk_full (handlers g w) - disk_full (handlers (site s) w)
      in s\<lparr>site := g, trail := (trail s)(w := increment_dropped_disk_full k (listener_step (trail s w)))\<rparr>)"

primrec trail_step :: "trail_event \<Rightarrow> audit_site \<Rightarrow> audit_site" where
  "trail_step (CapturedBy w line) s = s\<lparr>trail := (trail s)(w := log_line line (trail s w))\<rparr>"
| "trail_step (TakenBy w env) s = (case queued (trail s w) of [] \<Rightarrow> s | line # rest \<Rightarrow> take_line w env line s)"
| "trail_step (CompressedBy w env) s = s\<lparr>site := site_step (w, Compressed env) (site s)\<rparr>"

definition trail_start :: "log_env \<Rightarrow> int \<Rightarrow> audit_config \<Rightarrow> nat list \<Rightarrow> log_site \<Rightarrow> audit_site" where
  "trail_start env backups config ws g0 =
     \<lparr>site = start_site env backups config ws g0, trail = (\<lambda>w. snd (init_audit_logger config None audit_off))\<rparr>"

section \<open>The files see the lines that are taken\<close>

primrec captured_by :: "nat \<Rightarrow> trail_event \<Rightarrow> string list" where
  "captured_by v (CapturedBy w line) = (if w = v then [line] else [])"
| "captured_by v (TakenBy w env) = []"
| "captured_by v (CompressedBy w env) = []"

primrec file_events :: "trail_event \<Rightarrow> audit_site \<Rightarrow> site_event list" where
  "file_events (CapturedBy w line) s = []"
| "file_events (TakenBy w env) s = (case queued (trail s w) of [] \<Rightarrow> [] | line # rest \<Rightarrow> [(w, Emitted env line)])"
| "file_events (CompressedBy w env) s = [(w, Compressed env)]"

definition as_lines :: "string list \<Rightarrow> string" where
  "as_lines ls = concat (map (\<lambda>l. l @ [newline]) ls)"

lemma as_lines_append [simp]: "as_lines (ls @ ls') = as_lines ls @ as_lines ls'" "as_lines [] = []"
  by (simp_all add: as_lines_def)

lemma trail_step_site: "site (trail_step ev s) = fold site_step (file_events ev s) (site s)"
  by (cases ev) (auto simp: take_line_def Let_def split: list.split)

lemma trail_step_written:
  "as_lines (written (trail (trail_step ev s) v)) = as_lines (written (trail s v)) @ concat (map (line_of v) (file_events ev s))"
  by (cases ev) (auto simp: take_line_def Let_def listener_step_def increment_dropped_disk_full_def log_line_def increment_event_count_def
      audit_enqueue_def line_of_def as_lines_def split: list.split)

lemma trail_step_accounted:
  "accounted ls (trail s v) \<Longrightarrow> accounted (ls @ captured_by v ev) (trail (trail_step ev s) v)"
proof (cases ev)
  case (CapturedBy w line)
  assume "accounted ls (trail s v)"
  from accounted_step [OF this, of "Captured line"] this CapturedBy show ?thesis by (cases "w = v") simp_all
next
  case (TakenBy w env)
  assume a: "accounted ls (trail s v)"
  have "accounted ls (audit_step (FilesDropped k) (audit_step Taken (trail s v)))" for k
    using accounted_step [OF accounted_step [OF a], of Taken "FilesDropped k"] by simp
  with a TakenBy show ?thesis by (auto simp: take_line_def Let_def split: list.split)
next
  case (CompressedBy w env)
  assume "accounted ls (trail s v)"
  with CompressedBy show ?thesis by simp
qed

lemma trail_run:
  "accounted ls (trail s v) \<Longrightarrow>
   \<exists>fs. site (fold trail_step es s) = fold site_step fs (site s) \<and>
     as_lines (written (trail (fold trail_step es s) v)) = as_lines (written (trail s v)) @ concat (map (line_of v) fs) \<and>
     accounted (ls @ concat (map (captured_by v) es)) (trail (fold trail_step es s) v) \<and>
     (\<forall>e \<in> set fs. \<exists>ev \<in> set es. fst e = trail_worker ev \<and> event_env (snd e) \<in> trail_envs ev)"
proof (induction es arbitrary: s ls)
  case Nil
  then show ?case by (intro exI [of _ "[]"]) simp
next
  case (Cons ev es)
  from Cons.IH [OF trail_step_accounted [OF Cons.prems, of ev]] obtain fs where
    fs: "site (fold trail_step es (trail_step ev s)) = fold site_step fs (site (trail_step ev s))"
      "as_lines (written (trail (fold trail_step es (trail_step ev s)) v)) = as_lines (written (trail (trail_step ev s) v)) @ concat (map (line_of v) fs)"
      "accounted ((ls @ captured_by v ev) @ concat (map (captured_by v) es)) (trail (fold trail_step es (trail_step ev s)) v)"
      "\<forall>e \<in> set fs. \<exists>ev \<in> set es. fst e = trail_worker ev \<and> event_env (snd e) \<in> trail_envs ev" by blast
  have "\<forall>e \<in> set (file_events ev s). fst e = trail_worker ev \<and> event_env (snd e) \<in> trail_envs ev"
    by (cases ev) (auto split: list.splits)
  with fs show ?case
    by (intro exI [of _ "file_events ev s @ fs"]) (auto simp: trail_step_site trail_step_written)
qed

text \<open>C14: with the audit log on and a file for each worker, however the requests, listeners and compressions
  of the workers interleave on a day: every line a worker captured has been handed to its file, waits in
  its queue or is counted as dropped, in the order of capture. And the files of that worker, the ones
  that were rotated and compressed included, hold the end of all that was handed to it; all of it until they
  together hold \<open>n\<close> times the size of a file, so long as the clean-up by total size
  (\<open>max_total_size_mb\<close>, 1024 by default) has deleted no file of that worker since the start, which its
  counter of such files shows.\<close>

theorem audit_trail_on_disk:
  assumes "1 \<le> n" and "audit_level config \<noteq> 0" and "per_worker_files config"
    and "distinct ws" and "v \<in> set ws" and "\<forall>w \<in> set ws. fresh_day env w (audit_prefix True w) (shared g0)"
    and "\<forall>ev \<in> set es. trail_worker ev \<in> set ws \<and> (\<forall>x \<in> trail_envs ev. env_ok gunzip x \<and> in_day x (day_of (stamp env)))"
    and "s = fold trail_step es (trail_start env (int n) config ws g0)"
    and "max_total_size_mb config \<le> 0 \<or>
      disk_full (handlers (site s) v) = disk_full (handlers (site (trail_start env (int n) config ws g0)) v)"
  defines "files_of \<equiv> kept n (day_view gunzip (at_site (site s) v))"
  shows "accounted (concat (map (captured_by v) es)) (trail s v) \<and>
    (\<exists>old. old @ files_of = as_lines (written (trail s v)) \<and>
      (old = [] \<or> int n * (max_file_size_mb config * 1024 * 1024) \<le> int (length files_of)))"
proof -
  let ?s = "trail_start env (int n) config ws g0"
  have st: "trail ?s v = snd (init_audit_logger config None audit_off)" "site ?s = start_site env (int n) config ws g0"
    by (simp_all add: trail_start_def)
  have "accounted [] (trail ?s v)" and w: "written (trail ?s v) = []"
    using assms(2) by (simp_all add: st accounted_def init_audit_logger_def audit_off_def Let_def)
  from trail_run [OF this(1), of es] obtain fs where
    fs: "site s = fold site_step fs (start_site env (int n) config ws g0)"
      "as_lines (written (trail s v)) = concat (map (line_of v) fs)"
      "accounted (concat (map (captured_by v) es)) (trail s v)"
      "\<forall>e \<in> set fs. \<exists>ev \<in> set es. fst e = trail_worker ev \<and> event_env (snd e) \<in> trail_envs ev"
    unfolding assms(8) st(2) by (auto simp: w)
  have "day_events gunzip (set ws) (day_of (stamp env)) fs"
    unfolding day_events_def using fs(4) assms(7) by metis
  from workers_apart [OF assms(1,3-6) this fs(1) assms(9) [unfolded st(2)]] fs(2,3) show ?thesis
    unfolding files_of_def by simp
qed

theorem audit_trail_on_disk_witness:
  "let s = fold trail_step [CapturedBy 1 ''one'', CapturedBy 2 ''two'', TakenBy 2 sample_log_env, CapturedBy 1 ''three'', TakenBy 1 sample_log_env]
       (trail_start sample_log_env 1 split_config [1, 2] \<lparr>shared = [], handlers = (\<lambda>w. sample_handler)\<rparr>);
       files_of = kept 1 (day_view (\<lambda>x. x) (at_site (site s) 1))
   in max_total_size_mb split_config = 1024 \<and> accounted [''one'', ''three''] (trail s 1) \<and>
     (\<exists>old. old @ files_of = as_lines (written (trail s 1)) \<and> (old = [] \<or> 10485760 \<le> int (length files_of)))"
proof -
  let ?es = "[CapturedBy 1 ''one'', CapturedBy 2 ''two'', TakenBy 2 sample_log_env, CapturedBy 1 ''three'', TakenBy 1 sample_log_env]"
  let ?g0 = "\<lparr>shared = [], handlers = (\<lambda>w. sample_handler)\<rparr>"
  have c: "audit_level split_config \<noteq> 0" "per_worker_files split_config" "max_total_size_mb split_config = 1024"
    "max_file_size_mb split_config = 10"
    by (simp_all add: split_config_def default_settings_def)
  have "disk_full (handlers (site (fold trail_step ?es (trail_start sample_log_env 1 split_config [1, 2] ?g0))) 1) =
      disk_full (handlers (site (trail_start sample_log_env 1 split_config [1, 2] ?g0)) 1)"
    by code_simp
  moreover have "\<forall>w \<in> set [1, 2]. fresh_day sample_log_env w (audit_prefix True w) []" by (simp add: split_config_fresh)
  moreover have "\<forall>ev \<in> set ?es. \<forall>x \<in> trail_envs ev. env_ok (\<lambda>x. x) x \<and> in_day x (day_of (stamp sample_log_env))"
    by (simp add: sample_log_env_ok sample_in_day)
  ultimately show ?thesis
    using audit_trail_on_disk [of 1 split_config "[1, 2]" 1 sample_log_env ?g0 ?es "\<lambda>x. x"] c
    by (simp add: Let_def del: kept.simps)
qed

end
