(* ===== verification/Spec2Isabelle.thy ===== *)
theory Spec2Isabelle
  imports Application AdminPlane Subscription JsonFuel Routes StatusMonitor WorkerLife CreateApp FileLogger AuditPipeline
begin

text \<open>
  RedGW-lite is a REST gateway in front of Redis: clients with an API key read and write the
  keys of the namespaces they are granted. This development models the gateway from the
  source under \<open>src/\<close> and proves what makes it correct.

  How the program runs. A request reaches \<open>app/main.py\<close>; FastAPI validates the body against
  a schema (\<open>app/schemas\<close>), resolves the dependencies of the endpoint (the client of the API
  key, \<open>app/auth/api_key.py\<close>; the Redis client, \<open>app/dependencies.py\<close>) and calls the handler
  of a router (\<open>app/routers\<close>). A handler asks \<open>app/auth/namespace_guard.py\<close> for the permission,
  checks sizes (\<open>app/utils/validation.py\<close>), builds the Redis keys
  (\<open>app/utils/key_builder.py\<close> or the native \<open>redgw_core\<close>), sends commands to Redis, one by one,
  in a pipeline or in a Lua script, and answers a dict or raises an HTTP error, which the
  exception handlers turn into a response. Refusals leave a pending event for the audit log
  and raise a counter in Redis (\<open>app/utils/metrics.py\<close>).

  How it is modelled. A handler is a function of the type \<open>act\<close> of the theory Gateway: from an
  environment (the Redis client, the settings, the environment variables, whether the native
  module is loaded) and a world (the state of the server, the commands sent so far, the
  cached key map, the audit context variable, the scheduled metric tasks) to an error or a
  value and the next world. Every \<open>raise\<close> and early return is a branch; \<open>bnd\<close> is sequencing and
  stops at the first exception. Redis is a parameter: the record \<open>redis\<close> holds one function for
  each way of talking to it, over an arbitrary type of server states, so that a property
  without a hypothesis on it holds whatever the server does, errors and other clients
  included. The functional properties assume \<open>documented_redis\<close> (theory RedisDoc): the
  documented effect of the commands on a keyspace; the properties of scans assume that a scan
  yields only keys that match its pattern. Both are shown to be satisfiable.

  The theories, in the order of the code:

  Prelude, PyValues: results with errors, runs of an event system, strings, the Python values, dicts and
  exceptions.

  Config (\<open>app/config.py\<close>): the settings, the environment overrides, the start-up validation.

  Gateway: the commands of redis-py the code uses, the computations, the predicates \<open>confined\<close>
  (every command sent satisfies a condition) and \<open>answers\<close> (every value returned does), both
  closed under the combinators and proved by following the code.

  Response (\<open>app/utils/response.py\<close>, the exception handler of \<open>app/main.py\<close>); Keys
  (\<open>app/utils/key_builder.py\<close>, \<open>redgw_core/src/key_builder.rs\<close>), with the interface \<open>key_codec\<close>
  provided by both implementations; Metrics (\<open>app/utils/metrics.py\<close>); Auth (\<open>app/auth\<close>); Schemas
  (\<open>app/schemas\<close>); Policy (\<open>app/utils/validation.py\<close>, \<open>app/utils/ttl.py\<close>,
  \<open>redgw_core/src/validation.rs\<close>), with the interface \<open>data_plane\<close>: the contract of a router of one
  data type (without the permission nothing happens; every command is on keys of the
  namespace and type), from which the facts the whole data plane needs are derived.

  RedisDoc: the documented effect of the commands; a server of samples for the witnesses.

  Kv, MapRouter, Queue, Group, Rank, Event (\<open>app/routers/kv.py\<close>, \<open>map.py\<close>, \<open>queue.py\<close>, \<open>group.py\<close>,
  \<open>rank.py\<close>, \<open>event.py\<close>): one definition per endpoint, a datatype of requests, the
  interpretation of \<open>data_plane\<close>, and the behaviour on documented Redis. DataPlane: the six as one.

  Pubsub (\<open>app/routers/pubsub.py\<close>): publishing, the checks before a subscription, and the state
  machine of the WebSocket connections, a step function with its reachable states. Subscription
  (the same file): the two tasks of an open connection and every interleaving of them, a system
  whose steps refine those of Pubsub (interface \<open>event_refinement\<close>).

  Admin, Scrape (\<open>app/routers/admin.py\<close>): the operations for the administrator, statistics, and
  the Prometheus text with its caches.

  Json: \<open>json.dumps\<close> and \<open>json.loads\<close>, with the round trip of strings and of flat objects; JsonFuel: the
  parser ends by itself.

  AuditLog (\<open>app/audit/logger.py\<close>): what is read off a request, the record, the bounded queue and
  its counters. AuditMiddleware (\<open>app/audit/middleware.py\<close>): the capture decision, the line of a
  request and the origin of a key, around an arbitrary application. AuditTrail: the paths of the
  data endpoints and the endpoints run inside the middleware. Routes (\<open>app/routers\<close>, \<open>create_app\<close>):
  the table of routes, and which endpoint a data request reaches. AuditAdmin (\<open>app/routers/admin.py\<close>): health detail and the origin of a key for the administrator.
  AdminPlane (the same file): the eight operations only the administrator may use, put together with their
  dependencies.

  LogFiles (\<open>app/utils/file_logger.py\<close>, \<open>DailySizeRotatingHandler\<close>): the files of a log directory,
  rotation, compression by a background thread, retention, total size, with the renames, deletions
  and openings that fail. LogRotation: the abstract log of a day and the interface \<open>rotating_log\<close>,
  which the handler provides; with \<open>full_log\<close> beside it, by which nothing is lost before the backups are
  full. The invariant \<open>day_inv\<close> of a handler leaves the bound on the directory (\<open>max_total_size_mb\<close>, 1024 by
  default) open, \<open>log_inv\<close> is that with no bound; the properties say which they need, and that of the audit
  trail holds for any bound while the clean-up deletes nothing. LogBounds: retention, the bound of a file, the bound of the directory.
  LogFailures: what a rotation that fails keeps, and how one that keeps failing loses the backups.
  LogHome, LogWorkers (with \<open>app/audit/logger.py\<close>): the handlers of several processes over one directory,
  with the streams they hold open; with a prefix for each process they provide \<open>rotating_log\<close> one by one,
  with one file for all a rotation takes it away from the others.
  AuditPipeline: the way of an audit line from a request over the queue and the listener to the files
  of its worker, all the workers interleaved.
  FileLogger (the rest of that file): making the logger, \<open>write_log\<close> and its asynchronous wrapper, the
  cached time stamp, the lock by which one worker is chosen to log the start.

  ConfigValidator (\<open>app/config_validator.py\<close>): the report on the settings. Middleware
  (\<open>app/middleware.py\<close>, \<open>create_app\<close>): security headers, metrics, access log, and the stack of the
  middlewares. CreateApp (\<open>create_app\<close>): the level of the logging, the layers in their order, and the
  handler of the exceptions nobody caught, around the stack. RedisManager (\<open>app/redis_client.py\<close>): connecting with retries. Application
  (\<open>app/main.py\<close>, \<open>app/audit/banner.py\<close>): start and end of a worker, health check, status line.
  StatusMonitor (\<open>app/main.py\<close>): the loops of all the workers, which elect by a lease in Redis the one
  that writes the status line. WorkerLife (\<open>app/main.py\<close>): what a worker answers on the client its start
  left it, and that one left without a client never gets one.

  What the lemmas show, by group: isolation and authorization of the data endpoints, and the
  keys themselves (this theory); exact effects of the operations on strings, hashes, lists and
  sets; bounds of the lists and of the connections; what may be sent for scores and stream
  IDs; the safety of deletion by pattern; that statistics, listing and metrics answer what
  they should; that every refusal is audited and every captured line accounted for, and which
  writes Level 1 does not see; that rotation implements the abstract log and keeps its bounds;
  what a rotation that fails leaves; that a response passes the middleware stack with its status,
  headers and one count, and the answer to an exception does not; that a data request reaches its
  endpoint, but for the names a batch route takes; how far apart the turns are that write a status
  line; that a
  worker that starts without Redis stays degraded; that a subscription sends what it took from its
  channel, in order, but for a last message that may be lost while it is sent, and a lost client
  frees its slot; that connecting
  ends, and when a worker refuses to start.

  Bounds and representations. A \<open>str\<close> is the list of the bytes of its UTF-8 encoding; where the
  code counts characters, so do the definitions. The classes \<open>\w\<close>, \<open>str.lower\<close>, \<open>str.strip\<close> and
  \<open>int()\<close> are modelled on ASCII. A \<open>float\<close> is a rational or one of the three special values, with no
  rounding: no property speaks of sums of floats; clocks are rationals, and texts and rounding of
  a \<open>float\<close> are parameters. Integers are unbounded as in Python, and the 64-bit limits of Redis and
  of \<open>usize\<close> are written out where they decide a branch. Numbers in the Lua scripts are integers,
  which agrees with Lua's doubles below 2^53. Only the parser of Json has fuel, twice the length
  of the text and two, and more of it changes nothing (\<open>json_loads_fuel\<close> of JsonFuel). The loops over lists recurse on them,
  a scan is a list of keys given by Redis, and the attempts to connect have the measure of those left.
  The documented Redis refuses a time to live given with a value unless it is positive; its upper limit,
  beyond 10^15 seconds, is left out, and the schemas bound what a request can give. The counter a refusal
  raises in the background is kept in \<open>bg_metrics\<close> of a world, apart from what a handler sends.

  Not modelled. Log lines are modelled where a worker starts, stops or reports its state and in the
  audit log, and left out of the handlers. Listing a log directory, making it and writing to an open
  file are taken not to fail. Where a compression fails and its incomplete \<open>.gz\<close> cannot be deleted either,
  the model leaves the directory as it was. A rollover waits for the compressions of its own handler; the
  source waits for those of all the handlers of the process, so the model has more interleavings. When several processes share a log directory, an operation of a handler (a
  record with its rotation, a compression) is one step: two rotations that interleave are beyond the
  model. The middleware for CORS, the layer of Starlette that runs the
  handler of \<open>Exception\<close> and the matching of a path with a route are library calls and parameters, with
  their documented behaviour as hypotheses. A second cancellation of a WebSocket connection while it
  waits for its tasks is left out. The reverse proxy, dashboards and scripts are not part of the model.
\<close>

section \<open>Access to the data\<close>

text \<open>C1: whatever the server answers, every command a data request sends under a namespace names keys,
  and each of them is a stored key of that very namespace and of the type of the endpoint, for a
  well-formed user key: no request can name a key of another namespace, of another type or of the
  gateway itself.\<close>

theorem data_requests_isolated:
  assumes "data_valid q"
  shows "\<exists>cs. sent (snd (data_handle client ns q e w)) = sent w @ cs \<and>
    list_all (\<lambda>c. cmd_keys c \<noteq> [] \<and>
      list_all (\<lambda>k. \<exists>u. parse_key rust k = Inr (ns, data_prefix q, u) \<and> key_matches u) (cmd_keys c)) cs"
proof -
  obtain cs where "sent (snd (data_handle client ns q e w)) = sent w @ cs"
    and "list_all (own_cmd ns (data_prefix q)) cs"
    using data_own [OF assms] by (rule confinedE)
  then show ?thesis
    using own_cmd_parse [OF _ data_prefix_no_colon, of ns q _ rust] by (auto simp: list_all_iff)
qed

theorem data_requests_isolated_witness:
  "\<exists>cs. sent (snd (data_handle sample_client ''A'' (KvRequest (DeleteKv ''k'')) sample_env (sample_world Map.empty))) = cs \<and>
     list_all (\<lambda>c. cmd_keys c \<noteq> [] \<and>
       list_all (\<lambda>k. \<exists>u. parse_key True k = Inr (''A'', ''kv'', u) \<and> key_matches u) (cmd_keys c)) cs"
  using data_requests_isolated [of "KvRequest (DeleteKv ''k'')" sample_client "''A''" sample_env "sample_world Map.empty" True]
  by (simp add: KV_PREFIX_def)

text \<open>C2: a client without the permission an operation needs on the namespace is answered 403, nothing
  is sent to Redis, the server is as before, and the refusal is left for the audit log.\<close>

theorem denied_requests_do_nothing:
  assumes "\<not> check_access client ns (data_needs q)"
  shows "fst (respond (fst (data_handle client ns q e w))) = 403 \<and>
    sent (snd (data_handle client ns q e w)) = sent w \<and>
    rstate (snd (data_handle client ns q e w)) = rstate w \<and>
    pending (snd (data_handle client ns q e w)) = Some (''namespace_denied'', Some ''NAMESPACE_DENIED'')"
  using data_guarded [OF assms, of e w] by (simp add: access_denied_def after_denial_def)

theorem denied_requests_do_nothing_witness:
  "fst (respond (fst (data_handle sample_client ''B'' (QueueRequest (PopQueue ''k'' DLeft)) sample_env
     (sample_world Map.empty)))) = 403"
proof -
  have "\<not> check_access sample_client ''B'' (data_needs (QueueRequest (PopQueue ''k'' DLeft)))"
    by (simp add: sample_client_def check_access_def granted_def)
  from denied_requests_do_nothing [OF this, of sample_env "sample_world Map.empty"] show ?thesis by blast
qed

text \<open>C3: through the whole endpoint, a valid data request under an API key sends, besides the count of a
  failed authentication, only commands on the stored keys of its namespace and type, and it sends
  any of those only if the key belongs to a configured client that has the permission.\<close>

theorem data_endpoint_authorized:
  assumes "data_valid q" and "cache_ok (conf e) w"
  shows "\<exists>cs. sent (snd (data_endpoint k ns q e w)) = sent w @ cs \<and>
    (if \<exists>client. map_of (build_key_map (conf e)) k = Some client \<and> check_access client ns (data_needs q)
     then list_all (own_cmd ns (data_prefix q)) cs
     else list_all (\<lambda>c. c = INCRBY (auth_fail_key ''auth_fail'') 1) cs)"
proof (cases "map_of (build_key_map (conf e)) k")
  case None
  obtain r w' where v: "verify_api_key k e w = (r, w')" by fastforce
  with verify_api_key_unknown(1) [OF assms(2) None] have "\<exists>x. r = Inl x" by simp
  moreover obtain cs where "sent w' = sent w @ cs" "list_all (\<lambda>c. c = INCRBY (auth_fail_key ''auth_fail'') 1) cs"
    using confined_verify [of k] v by (metis confinedE snd_conv)
  ultimately show ?thesis using v None by (auto simp: data_endpoint_def endpoint_def act_simps)
next
  case (Some client)
  let ?w1 = "w\<lparr>key_map := Some (build_key_map (conf e)), scope_client := Some (client_id client)\<rparr>"
  have run: "data_endpoint k ns q e w =
      (if connected w then data_handle client ns q e ?w1 else (Inl (PyExc ''RuntimeError''), ?w1))"
    using verify_api_key_known [OF assms(2) Some] by (simp add: data_endpoint_def endpoint_def act_simps get_redis_def)
  obtain cs where cs: "sent (snd (data_handle client ns q e ?w1)) = sent ?w1 @ cs"
    "list_all (own_cmd ns (data_prefix q)) cs"
    using data_own [OF assms(1)] by (rule confinedE)
  show ?thesis
  proof (cases "check_access client ns (data_needs q)")
    case True
    then show ?thesis using run cs Some by (auto split: if_splits)
  next
    case False
    then show ?thesis using run data_guarded [OF False, of e ?w1] Some by auto
  qed
qed

theorem data_endpoint_authorized_witness:
  "\<exists>cs. sent (snd (data_endpoint ''s3cret'' ''A'' (KvRequest (GetKv ''k'')) sample_auth_env (sample_world Map.empty))) = cs \<and>
     list_all (own_cmd ''A'' ''kv'') cs"
proof -
  have m: "build_key_map (conf sample_auth_env) = [(''s3cret'', sample_client)]" by code_simp
  have n: "cache_ok (conf sample_auth_env) (sample_world Map.empty)" by (simp add: cache_ok_def sample_world_def)
  have "data_valid (KvRequest (GetKv ''k''))" by simp
  from data_endpoint_authorized [OF this n, of "''s3cret''" "''A''"] show ?thesis
    by (simp add: m sample_access KV_PREFIX_def)
qed

text \<open>C4: an API key the settings do not know, and the empty one in any case, is answered 401, and the
  failure is left for the audit log.\<close>

theorem unknown_key_unauthorized:
  assumes "cache_ok (conf e) w" and "k \<notin> set (configured_keys (conf e)) \<or> k = []"
  shows "fst (respond (fst (data_endpoint k ns q e w))) = 401 \<and>
    pending (snd (data_endpoint k ns q e w)) = Some (''auth_fail'', Some ''UNAUTHORIZED'')"
proof -
  have none: "map_of (build_key_map (conf e)) k = None"
  proof (rule ccontr)
    assume "map_of (build_key_map (conf e)) k \<noteq> None"
    then obtain c where "map_of (build_key_map (conf e)) k = Some c" by blast
    from build_key_map_origin [OF this] assms(2) show False
      by (auto simp: configured_keys_def image_iff split: if_splits)
  qed
  obtain r w' where v: "verify_api_key k e w = (r, w')" by fastforce
  with verify_api_key_unknown [OF assms(1) none] show ?thesis
    by (simp add: data_endpoint_def endpoint_def act_simps)
qed

theorem unknown_key_unauthorized_witness:
  "fst (respond (fst (data_endpoint [] ''A'' (KvRequest (GetKv ''k'')) sample_auth_env (sample_world Map.empty)))) = 401"
proof -
  have "cache_ok (conf sample_auth_env) (sample_world Map.empty)" by (simp add: cache_ok_def sample_world_def)
  from unknown_key_unauthorized [OF this] show ?thesis by blast
qed

text \<open>C5: when the start-up validation accepts the settings, every configured client with a key
  authenticates as itself, with its own permissions, and the administrator as the administrator;
  the answer does not depend on what was cached before.\<close>

theorem validated_clients_distinct:
  assumes "validate_config (environ e) (conf e) = Inr ws" and "cache_ok (conf e) w"
  shows "(admin_api_key (admin (conf e)) \<noteq> [] \<longrightarrow> fst (verify_api_key (admin_api_key (admin (conf e))) e w) = Inr admin_client) \<and>
    ((cid, cfg) \<in> set (clients (conf e)) \<and> cid \<noteq> ''admin'' \<and> client_api_key cfg \<noteq> [] \<longrightarrow>
      fst (verify_api_key (client_api_key cfg) e w) =
        Inr \<lparr>client_id = cid, description = client_description cfg, namespaces = client_namespaces cfg\<rparr>)"
proof -
  have d: "distinct (configured_keys (conf e))" using assms(1) validate_config_ok by blast
  show ?thesis
    using build_key_map_admin [OF d] build_key_map_client [OF d, of cid cfg] verify_api_key_known [OF assms(2)] by simp
qed

theorem validated_clients_distinct_witness:
  "fst (verify_api_key ''s3cret'' sample_auth_env (sample_world Map.empty)) = Inr sample_client"
proof -
  have d: "distinct (configured_keys (conf sample_auth_env))" by code_simp
  then obtain ws where v: "validate_config (environ sample_auth_env) (conf sample_auth_env) = Inr ws"
    using validate_config_ok by blast
  have "cache_ok (conf sample_auth_env) (sample_world Map.empty)" by (simp add: cache_ok_def sample_world_def)
  from validated_clients_distinct [OF v this, of "''APP''"
      "\<lparr>client_api_key = ''s3cret'', client_description = [], client_namespaces = [(''A'', [''read'', ''write''])]\<rparr>"]
  show ?thesis by (simp add: sample_auth_env_def sample_settings_def sample_client_def)
qed

section \<open>Keys\<close>

text \<open>C26: building a key and parsing it back gives the three parts, with either implementation on either
  side, for every type prefix.\<close>

theorem key_roundtrip:
  assumes "build_key rust ns p u = Inr k" and "p \<in> set STORAGE_PREFIXES"
  shows "parse_key rust' k = Inr (ns, p, u)"
proof -
  have "colon \<notin> set p" using assms(2) by (auto simp: STORAGE_PREFIXES_def prefix_defs)
  from pub.roundtrip [OF assms(1) this] show ?thesis by (simp add: parse_key_Inr)
qed

theorem key_roundtrip_witness: "parse_key False ''A:kv:a:b'' = Inr (''A'', ''kv'', ''a:b'')"
proof -
  have "build_key True ''A'' ''kv'' ''a:b'' = Inr ''A:kv:a:b''" by code_simp
  moreover have "''kv'' \<in> set STORAGE_PREFIXES" by (simp add: STORAGE_PREFIXES_def prefix_defs)
  ultimately show ?thesis by (rule key_roundtrip)
qed

text \<open>Different namespaces, types or user keys never share a stored key.\<close>

lemma keys_never_collide:
  assumes "build_key rust ns p u = Inr k" and "build_key rust' ns' p' u' = Inr k"
    and "p \<in> set STORAGE_PREFIXES" and "p' \<in> set STORAGE_PREFIXES"
  shows "ns = ns' \<and> p = p' \<and> u = u'"
proof -
  have "colon \<notin> set p" and "colon \<notin> set p'" using assms(3,4) by (auto simp: STORAGE_PREFIXES_def prefix_defs)
  moreover have "build_key rust ns' p' u' = Inr k" using assms(2) by (simp add: build_key_Inr)
  ultimately show ?thesis using pub.inject [OF assms(1)] by blast
qed

lemma no_namespace_word:
  "\<not> contains ''Namespace'' ''Key ''"
  "\<not> contains ''Namespace'' '' contains invalid characters. Allowed: A-Z, a-z, 0-9, _, ., :, -, / (max 256 chars)''"
  by code_simp+

lemma invalid_key_msg_contains: "contains ''Namespace'' (invalid_key_msg u) \<longleftrightarrow> contains ''Namespace'' u"
proof -
  have "CHR 0x27 \<notin> set ''Namespace''" by simp
  note sep = contains_sep [OF this]
  have "invalid_key_msg u = ''Key '' @ CHR 0x27 # (u @ CHR 0x27 #
      '' contains invalid characters. Allowed: A-Z, a-z, 0-9, _, ., :, -, / (max 256 chars)'')"
    by (simp add: invalid_key_msg_def quoted_def)
  then show ?thesis by (simp only: sep no_namespace_word simp_thms)
qed

lemma invalid_ns_msg_contains: "contains ''Namespace'' (invalid_ns_msg ns)"
  unfolding invalid_ns_msg_def contains_iff
  by (rule exI [of _ "[]"], simp)

text \<open>C27: all six functions the native module replaces. Checking a namespace, checking a key and taking a
  stored key apart give the same on every input. Building a key, or a batch of keys, gives the same or
  refuses with the same error except in exactly one case: for a well-formed namespace where the word
  Namespace occurs in the (first) ill-formed user key, the native path reports the namespace as the
  invalid part. And the size check gives the same exactly for a limit that fits \<open>usize\<close>; for any
  other, which the settings allow, the native one raises.\<close>

theorem implementations_agree:
  "validate_ns True ns = validate_ns False ns \<and> validate_key True u = validate_key False u \<and>
   parse_key True k = parse_key False k \<and>
   (build_key True ns p u = build_key False ns p u \<longleftrightarrow>
      \<not> (ns_matches ns \<and> \<not> key_matches u \<and> contains ''Namespace'' u)) \<and>
   (build_keys_batch True ns p us = build_keys_batch False ns p us \<longleftrightarrow>
      \<not> (ns_matches ns \<and> (case List.find (\<lambda>u. \<not> key_matches u) us of
           None \<Rightarrow> False | Some first \<Rightarrow> contains ''Namespace'' first))) \<and>
   (exceeds_size True v m = exceeds_size False v m \<longleftrightarrow> 0 \<le> m \<and> m < 2 ^ 64)"
proof (intro conjI)
  show "validate_ns True ns = validate_ns False ns"
    by (simp add: validate_ns_def rust_validate_ns_def py_validate_ns_def ns_inner_matches)
  show "validate_key True u = validate_key False u"
    by (simp add: validate_key_def rust_validate_key_def py_validate_key_def key_inner_matches)
  show "parse_key True k = parse_key False k" by (rule parse_key_rust [symmetric])
  show "build_key True ns p u = build_key False ns p u \<longleftrightarrow>
      \<not> (ns_matches ns \<and> \<not> key_matches u \<and> contains ''Namespace'' u)"
    by (auto simp: build_key_def py_build_key_def py_validate_ns_def py_validate_key_def rust_build_key_def
        rust_validate_ns_def rust_validate_key_def ns_inner_matches key_inner_matches key_error_def error_def
        invalid_key_msg_contains invalid_ns_msg_contains)
  show "build_keys_batch True ns p us = build_keys_batch False ns p us \<longleftrightarrow>
      \<not> (ns_matches ns \<and> (case List.find (\<lambda>u. \<not> key_matches u) us of
           None \<Rightarrow> False | Some first \<Rightarrow> contains ''Namespace'' first))"
    by (simp add: build_keys_batch_find key_error_def error_def invalid_key_msg_contains invalid_ns_msg_contains
        split: option.split)
  show "exceeds_size True v m = exceeds_size False v m \<longleftrightarrow> 0 \<le> m \<and> m < 2 ^ 64"
    by (auto simp: exceeds_size_def check_utf8_byte_len_def)
qed

text \<open>No key of the gateway itself (a counter, the origin of an audited write) counts as a stored key,
  so that none is listed, counted or deleted as one, and no user key can be built that equals it.\<close>

lemma internal_keys_apart:
  "list_all (\<lambda>k. \<not> is_storage_key rust k \<and> list_all (\<lambda>p. build_key rust ns p u \<noteq> Inr k) STORAGE_PREFIXES)
     [total_key, status_key n, ns_req_key m, client_req_key cid, latency_bucket_key b, auth_fail_key r,
      audit_dropped_key c, latency_sum_key, latency_count_key, origin_key k']"
proof -
  have seg: "\<not> is_storage_key rust (a @ colon # b @ colon # t)"
    if "colon \<notin> set a" "colon \<notin> set b" "b \<notin> set STORAGE_PREFIXES" for a b t
    using that by (simp add: is_storage_key_def parse_key_cut cut_append)
  have metrics: "\<not> is_storage_key rust (METRICS_PREFIX @ colon # t)" for t
    using seg [of "''redgw''" "''metrics''" t] by (simp add: METRICS_PREFIX_def STORAGE_PREFIXES_def prefix_defs)
  have orig: "\<not> is_storage_key rust (origin_key k')"
    using seg [of "''__redgw''" "''audit''" "''origin:'' @ k'"] by (simp add: origin_key_def STORAGE_PREFIXES_def prefix_defs)
  have apart: "list_all (\<lambda>p. build_key rust ns p u \<noteq> Inr k) STORAGE_PREFIXES" if k: "\<not> is_storage_key rust k" for k
  proof -
    have "colon \<notin> set p" if "p \<in> set STORAGE_PREFIXES" for p
      using that by (auto simp: STORAGE_PREFIXES_def prefix_defs)
    then show ?thesis using k pub.roundtrip unfolding is_storage_key_build list_all_iff by blast
  qed
  show ?thesis
    using metrics orig apart
    by (simp add: total_key_def status_key_def ns_req_key_def client_req_key_def latency_bucket_key_def
        auth_fail_key_def audit_dropped_key_def latency_sum_key_def latency_count_key_def)
qed

section \<open>Answers\<close>

text \<open>No answer of the data endpoints reports a TTL of -2, the reply for a missing key, whatever
  happens on the server between the commands of a pipeline; the two hash writes that read the TTL in
  their own transaction are left out.\<close>

lemma no_answer_reports_gone:
  assumes "fst (data_handle client ns q e w) = Inr v"
    and "case q of MapRequest m \<Rightarrow> \<not> in_transaction m | _ \<Rightarrow> True"
  shows "never_gone v"
  using assms
  by (cases q) (auto dest: kv_never_gone map_never_gone queue_never_gone group_never_gone rank_never_gone event_never_gone)

lemma no_answer_reports_gone_witness:
  "\<exists>a. fst (data_handle sample_client ''A'' (KvRequest (SetKv ''k'' \<lparr>kv_value = ''v'', kv_ttl = None\<rparr>)) sample_env
     (sample_world Map.empty)) = Inr a \<and> never_gone a"
proof -
  let ?q = "KvRequest (SetKv ''k'' \<lparr>kv_value = ''v'', kv_ttl = None\<rparr>)"
  obtain a where a: "fst (data_handle sample_client ''A'' ?q sample_env (sample_world Map.empty)) = Inr a"
    using set_kv_doc [OF sample_doc sample_access(2) sample_ns sample_key(1), of "\<lparr>kv_value = ''v'', kv_ttl = None\<rparr>"
        "sample_world Map.empty"]
    by (auto simp: sample_fits)
  from no_answer_reports_gone [OF a] a show ?thesis by auto
qed

section \<open>Metrics\<close>

text \<open>Recording a request keeps the latency histogram cumulative: a bucket is raised only together
  with every larger one, the infinite one and the count, so that what is read back never decreases from
  bucket to bucket.\<close>

theorem latency_histogram_cumulative:
  assumes "b \<in> set latency_buckets" and "b' \<in> set latency_buckets" and "b \<le> b'"
  shows "let cs = request_cmds st d ns cid in
    0 \<le> total_added (latency_bucket_key (int_str b)) cs \<and>
    total_added (latency_bucket_key (int_str b)) cs \<le> total_added (latency_bucket_key (int_str b')) cs \<and>
    total_added (latency_bucket_key (int_str b')) cs \<le> total_added (latency_bucket_key ''inf'') cs \<and>
    total_added (latency_bucket_key ''inf'') cs = total_added latency_count_key cs"
proof -
  have "d \<le> of_int b \<Longrightarrow> d \<le> of_int b'" using assms(3) by (meson of_int_le_iff order_trans)
  then show ?thesis using assms(1,2) unfolding Let_def request_adds_bucket request_adds_inf request_adds_count by auto
qed

theorem latency_histogram_cumulative_witness:
  "let cs = request_cmds 200 7 ''A'' ''APP'' in
     total_added (latency_bucket_key (int_str 5)) cs \<le> total_added (latency_bucket_key (int_str 10)) cs"
proof -
  have "5 \<in> set latency_buckets" and "10 \<in> set latency_buckets" by (simp_all add: latency_buckets_def)
  from latency_histogram_cumulative [OF this, of 200 7 "''A''" "''APP''"] show ?thesis by (simp add: Let_def)
qed

end
